(* ===== verification/Prelude.thy ===== *)
theory Prelude
  imports Main "HOL-Library.Word"
begin

text \<open>
  What every component of the development shares: the Rust integer types of a 64-bit target, the
  result type of fallible code, the two loop shapes the source uses for validation (a \<open>HashSet\<close>
  scan for duplicates and a loop of fallible checks), and the text that \<open>format!\<close> produces for
  numbers and quoted names.
\<close>

section \<open>Integer types\<close>

type_synonym u8 = "8 word"
type_synonym u16 = "16 word"
type_synonym u32 = "32 word"
type_synonym u64 = "64 word"
type_synonym usize = "64 word"
type_synonym i32 = "32 word"

text \<open>
  Collections of facts: \<open>word_to_nat\<close> moves a goal on words to naturals, \<open>res_simps\<close> solves goals
  about fallible code, \<open>frame_simps\<close> says which fields an operation leaves alone.
\<close>

named_theorems word_to_nat
named_theorems res_simps
named_theorems frame_simps

lemma unat_plus_one [word_to_nat]:
  fixes w :: u64
  shows "unat w + 1 < 2 ^ 64 \<Longrightarrow> unat (w + 1) = unat w + 1"
  by (simp add: unat_word_ariths)

lemma unat_plus_no_wrap [word_to_nat]:
  fixes a b :: u64
  shows "unat a + unat b < 2 ^ 64 \<Longrightarrow> unat (a + b) = unat a + unat b"
  by (simp add: unat_word_ariths)

lemma unat_of_nat_small [word_to_nat]:
  "n < 2 ^ 64 \<Longrightarrow> unat (word_of_nat n :: u64) = n"
  by (simp add: unat_of_nat take_bit_nat_eq_self)

lemma unat_u64_bound: "unat (w :: u64) < 2 ^ 64"
  using unsigned_less [of w, where ?'a = nat] by simp

lemma word_u64_eq_iff_unat: "(a :: u64) = b \<longleftrightarrow> unat a = unat b"
  by (simp add: word_unat_eq_iff)

section \<open>Fallible code\<close>

text \<open>
  \<open>Result<T, E>\<close> is \<open>'e + 'a\<close>: \<open>Inl\<close> is \<open>Err\<close> and \<open>Inr\<close> is \<open>Ok\<close>. \<open>res_bind\<close> is the \<open>?\<close> operator.
\<close>

definition res_bind :: "'e + 'a \<Rightarrow> ('a \<Rightarrow> 'e + 'b) \<Rightarrow> 'e + 'b" where
  "res_bind r f = (case r of Inl e \<Rightarrow> Inl e | Inr x \<Rightarrow> f x)"

lemma res_bind_simps [simp]:
  "res_bind (Inl e) f = Inl e"
  "res_bind (Inr x) f = f x"
  by (simp_all add: res_bind_def)

lemma res_bind_Inr_iff [res_simps]:
  "res_bind r f = Inr y \<longleftrightarrow> (\<exists>x. r = Inr x \<and> f x = Inr y)"
  by (cases r) simp_all

lemma res_bind_Inl_iff [res_simps]:
  "res_bind r f = Inl e \<longleftrightarrow> r = Inl e \<or> (\<exists>x. r = Inr x \<and> f x = Inl e)"
  by (cases r) simp_all

definition is_ok :: "'e + 'a \<Rightarrow> bool" where
  "is_ok r = (case r of Inl _ \<Rightarrow> False | Inr _ \<Rightarrow> True)"

lemma is_ok_simps [simp]: "\<not> is_ok (Inl e)" "is_ok (Inr x)"
  by (simp_all add: is_ok_def)

lemma is_ok_unit: "is_ok (r :: 'e + unit) \<longleftrightarrow> r = Inr ()"
  by (cases r) simp_all

text \<open>
  \<open>for x in xs { check(x)?; }\<close>: the checks run in order and the first error ends the loop.
\<close>

fun try_all :: "('a \<Rightarrow> 'e + unit) \<Rightarrow> 'a list \<Rightarrow> 'e + unit" where
  "try_all f [] = Inr ()"
| "try_all f (x # xs) = (case f x of Inl e \<Rightarrow> Inl e | Inr _ \<Rightarrow> try_all f xs)"

lemma try_all_ok_iff [res_simps]:
  "try_all f xs = Inr u \<longleftrightarrow> (\<forall>x \<in> set xs. f x = Inr ())"
  by (induction xs) (auto split: sum.splits)

lemma try_all_append:
  "try_all f (xs @ ys) = (case try_all f xs of Inl e \<Rightarrow> Inl e | Inr _ \<Rightarrow> try_all f ys)"
  by (induction xs) (auto split: sum.splits)

lemma try_all_error_split:
  "try_all f xs = Inl e \<Longrightarrow>
     \<exists>ys x zs. xs = ys @ x # zs \<and> (\<forall>y \<in> set ys. f y = Inr ()) \<and> f x = Inl e"
proof (induction xs)
  case Nil
  then show ?case by simp
next
  case (Cons a xs)
  show ?case
  proof (cases "f a")
    case (Inl d)
    with Cons.prems have "a # xs = [] @ a # xs \<and> (\<forall>y \<in> set []. f y = Inr ()) \<and> f a = Inl e"
      by simp
    then show ?thesis by blast
  next
    case (Inr u)
    with Cons obtain ys x zs where
      "xs = ys @ x # zs" "\<forall>y \<in> set ys. f y = Inr ()" "f x = Inl e"
      by auto
    with Inr have "a # xs = (a # ys) @ x # zs \<and> (\<forall>y \<in> set (a # ys). f y = Inr ()) \<and> f x = Inl e"
      by simp
    then show ?thesis by blast
  qed
qed

lemma try_all_error_iff:
  "try_all f xs = Inl e \<longleftrightarrow>
     (\<exists>ys x zs. xs = ys @ x # zs \<and> (\<forall>y \<in> set ys. f y = Inr ()) \<and> f x = Inl e)"
proof
  assume "try_all f xs = Inl e"
  then show "\<exists>ys x zs. xs = ys @ x # zs \<and> (\<forall>y \<in> set ys. f y = Inr ()) \<and> f x = Inl e"
    by (rule try_all_error_split)
next
  assume "\<exists>ys x zs. xs = ys @ x # zs \<and> (\<forall>y \<in> set ys. f y = Inr ()) \<and> f x = Inl e"
  then obtain ys x zs where "xs = ys @ x # zs" "\<forall>y \<in> set ys. f y = Inr ()" "f x = Inl e"
    by blast
  moreover from this(2) have "try_all f ys = Inr ()" by (simp add: try_all_ok_iff)
  ultimately show "try_all f xs = Inl e" by (simp add: try_all_append)
qed

section \<open>Duplicate scans\<close>

text \<open>
  \<open>for x in xs { if !seen.insert(key(x)) { return Err(..x..) } }\<close>: the first element whose key an
  earlier element already had. \<open>seen\<close> is the \<open>HashSet\<close>.
\<close>

fun first_dup :: "('a \<Rightarrow> 'k) \<Rightarrow> 'k set \<Rightarrow> 'a list \<Rightarrow> 'a option" where
  "first_dup key seen [] = None"
| "first_dup key seen (x # xs) =
     (if key x \<in> seen then Some x else first_dup key (insert (key x) seen) xs)"

lemma first_dup_None:
  "first_dup key seen xs = None \<longleftrightarrow> distinct (map key xs) \<and> key ` set xs \<inter> seen = {}"
  by (induction xs arbitrary: seen) auto

lemma first_dup_None_empty [simp]: "first_dup key {} xs = None \<longleftrightarrow> distinct (map key xs)"
  by (simp add: first_dup_None)

lemma first_dup_Some:
  "first_dup key seen xs = Some x \<Longrightarrow>
     \<exists>ys zs. xs = ys @ x # zs \<and> key x \<in> seen \<union> key ` set ys \<and>
             distinct (map key ys) \<and> key ` set ys \<inter> seen = {}"
proof (induction xs arbitrary: seen)
  case Nil
  then show ?case by simp
next
  case (Cons a xs)
  show ?case
  proof (cases "key a \<in> seen")
    case True
    with Cons.prems have "a # xs = [] @ x # xs \<and> key x \<in> seen \<union> key ` set [] \<and>
        distinct (map key []) \<and> key ` set [] \<inter> seen = {}"
      by simp
    then show ?thesis by blast
  next
    case False
    with Cons.prems have "first_dup key (insert (key a) seen) xs = Some x" by simp
    from Cons.IH [OF this] obtain ys zs where
      "xs = ys @ x # zs" "key x \<in> insert (key a) seen \<union> key ` set ys"
      "distinct (map key ys)" "key ` set ys \<inter> insert (key a) seen = {}"
      by blast
    with False have "a # xs = (a # ys) @ x # zs \<and> key x \<in> seen \<union> key ` set (a # ys) \<and>
        distinct (map key (a # ys)) \<and> key ` set (a # ys) \<inter> seen = {}"
      by auto
    then show ?thesis by blast
  qed
qed

section \<open>Text\<close>

text \<open>Decimal digits, as \<open>{}\<close> prints an unsigned integer.\<close>

definition digit_char :: "nat \<Rightarrow> char" where
  "digit_char d = char_of (48 + d)"

fun show_nat :: "nat \<Rightarrow> string" where
  "show_nat n = (if n < 10 then [digit_char n] else show_nat (n div 10) @ [digit_char (n mod 10)])"

declare show_nat.simps [simp del]

definition quoted :: "string \<Rightarrow> string" where
  "quoted s = CHR 0x27 # s @ [CHR 0x27]"

definition dquoted :: "string \<Rightarrow> string" where
  "dquoted s = CHR 0x22 # s @ [CHR 0x22]"

lemma show_nat_not_Nil [simp]: "show_nat n \<noteq> []"
  by (subst show_nat.simps) simp

lemma of_char_digit_char: "d < 10 \<Longrightarrow> of_char (digit_char d) = (48 + d :: nat)"
  unfolding digit_char_def by simp

lemma digit_char_inj:
  "a < 10 \<Longrightarrow> b < 10 \<Longrightarrow> digit_char a = digit_char b \<longleftrightarrow> a = b"
  by (metis add_left_cancel of_char_digit_char)

text \<open>Reading the digits back: the value of a decimal numeral.\<close>

fun digits_value :: "nat \<Rightarrow> string \<Rightarrow> nat" where
  "digits_value acc [] = acc"
| "digits_value acc (c # cs) = digits_value (10 * acc + (of_char c - 48)) cs"

lemma digits_value_append: "digits_value acc (s @ t) = digits_value (digits_value acc s) t"
  by (induction s arbitrary: acc) simp_all

lemma digits_value_show_nat: "digits_value 0 (show_nat n) = n"
proof (induction n rule: show_nat.induct)
  case (1 n)
  show ?case
  proof (cases "n < 10")
    case True
    then show ?thesis by (subst show_nat.simps) (simp add: of_char_digit_char)
  next
    case False
    then have "digits_value 0 (show_nat n)
        = 10 * digits_value 0 (show_nat (n div 10)) + n mod 10"
      by (subst show_nat.simps) (simp add: digits_value_append of_char_digit_char)
    with 1 False show ?thesis by simp
  qed
qed

lemma show_nat_inj: "show_nat a = show_nat b \<longleftrightarrow> a = b"
  by (metis digits_value_show_nat)

section \<open>Splitting\<close>

text \<open>\<open>s.split(c)\<close>: the pieces between the separators; one piece more than there are separators.\<close>

fun split_on :: "char \<Rightarrow> string \<Rightarrow> string list" where
  "split_on c [] = [[]]"
| "split_on c (x # xs) =
     (if x = c then [] # split_on c xs
      else (case split_on c xs of [] \<Rightarrow> [[x]] | p # ps \<Rightarrow> (x # p) # ps))"

lemma split_on_not_Nil [simp]: "split_on c s \<noteq> []"
  by (induction s) (auto split: list.splits)

lemma split_on_pieces: "p \<in> set (split_on c s) \<Longrightarrow> c \<notin> set p"
  by (induction s arbitrary: p) (auto split: list.splits if_splits)

lemma split_on_no_sep: "c \<notin> set s \<Longrightarrow> split_on c s = [s]"
  by (induction s) auto

lemma split_on_append_sep: "split_on c (s @ c # t) = split_on c s @ split_on c t"
proof (induction s)
  case (Cons x s)
  then show ?case by (cases "split_on c s") auto
qed simp

text \<open>\<open>s.splitn(2, c)\<close>: what stands before the first separator and, if there is one, all after it.\<close>

fun split_once :: "char \<Rightarrow> string \<Rightarrow> string \<times> string option" where
  "split_once c [] = ([], None)"
| "split_once c (x # xs) =
     (if x = c then ([], Some xs) else (let (a, b) = split_once c xs in (x # a, b)))"

lemma split_once_sep: "c \<notin> set a \<Longrightarrow> split_once c (a @ c # b) = (a, Some b)"
  by (induction a) auto

lemma split_once_none: "snd (split_once c s) = None \<longleftrightarrow> c \<notin> set s"
  by (induction s) (auto split: prod.splits)

text \<open>\<open>str::trim\<close> on ASCII text.\<close>

definition is_space :: "char \<Rightarrow> bool" where
  "is_space c = (c \<in> {CHR 0x20, CHR 0x09, CHR 0x0A, CHR 0x0B, CHR 0x0C, CHR 0x0D})"

definition trim :: "string \<Rightarrow> string" where
  "trim s = rev (dropWhile is_space (rev (dropWhile is_space s)))"

section \<open>Lists\<close>

lemma nth_mod_mem: "xs \<noteq> [] \<Longrightarrow> xs ! (n mod length xs) \<in> set xs"
  by simp

text \<open>\<open>Iterator::find_map\<close>.\<close>

fun find_map :: "('a \<Rightarrow> 'b option) \<Rightarrow> 'a list \<Rightarrow> 'b option" where
  "find_map f [] = None"
| "find_map f (x # xs) = (case f x of Some y \<Rightarrow> Some y | None \<Rightarrow> find_map f xs)"

lemma find_map_find: "find_map f xs = Option.bind (find (\<lambda>x. f x \<noteq> None) xs) f"
  by (induction xs) (auto split: option.splits)

lemma find_map_Some: "find_map f xs = Some y \<Longrightarrow> \<exists>x \<in> set xs. f x = Some y"
  by (induction xs) (auto split: option.splits)

lemma find_map_None: "find_map f xs = None \<longleftrightarrow> (\<forall>x \<in> set xs. f x = None)"
  by (induction xs) (auto split: option.splits)

text \<open>A sum of words that does not wrap.\<close>

lemma unat_sum_list:
  fixes ws :: "u64 list"
  assumes "sum_list (map unat ws) < 2 ^ 64"
  shows "unat (sum_list ws) = sum_list (map unat ws)"
  using assms
proof (induction ws)
  case (Cons w ws)
  then have "unat (sum_list ws) = sum_list (map unat ws)" by simp
  with Cons.prems show ?case by (simp add: unat_plus_no_wrap)
qed simp

lemma sum_list_filter_le: "sum_list (map (f :: 'a \<Rightarrow> nat) (filter P xs)) \<le> sum_list (map f xs)"
  by (induction xs) auto

lemma sum_words_filter_le:
  fixes f :: "'a \<Rightarrow> u64"
  assumes "sum_list (map (unat \<circ> f) xs) < 2 ^ 64"
  shows "sum_list (map f (filter P xs)) \<le> sum_list (map f xs)"
proof -
  have "sum_list (map (unat \<circ> f) (filter P xs)) < 2 ^ 64"
    using sum_list_filter_le [of "unat \<circ> f" P xs] assms by linarith
  then have "unat (sum_list (map f (filter P xs))) = sum_list (map (unat \<circ> f) (filter P xs))"
    "unat (sum_list (map f xs)) = sum_list (map (unat \<circ> f) xs)"
    using assms by (simp_all add: unat_sum_list)
  then show ?thesis
    unfolding word_le_nat_alt using sum_list_filter_le [of "unat \<circ> f" P xs] by simp
qed

text \<open>A step that may do nothing prolongs a sequence of steps.\<close>

lemma rtranclp_maybe: "R\<^sup>*\<^sup>* a b \<Longrightarrow> R\<^sup>=\<^sup>= b c \<Longrightarrow> R\<^sup>*\<^sup>* a c"
  by (auto intro: rtranclp.rtrancl_into_rtrancl)

end
