(* ===== verification/Errors.thy ===== *)
theory Errors
  imports Prelude
begin

text \<open>
  The error type of the crate (\<open>src/error.rs\<close>): its variants, the constructors the rest of the code
  calls, the predicates, the \<open>Display\<close> text and the conversions from the errors of the standard
  library and of the parsers. \<open>String\<close> is \<^typ>\<open>string\<close>; \<open>Option<String>\<close> is \<^typ>\<open>string option\<close>.
\<close>

section \<open>Data\<close>

datatype network_error_kind =
  ConnectionFailed | Timeout | DnsResolution | Tls | Protocol

datatype error =
    Config_Error (err_message: string) (err_source: "string option")
  | Network_Error (err_message: string) (err_kind: network_error_kind)
  | Proxy_Error (err_message: string) (err_proxy_type: string) (err_instance_name: string)
  | Resource_Error (err_message: string) (err_resource_type: string)
  | Internal_Error (err_message: string) (err_context: "string option")

text \<open>\<open>Result<T>\<close> of the crate.\<close>

type_synonym 'a result = "error + 'a"

section \<open>Constructors and predicates\<close>

definition err_config :: "string \<Rightarrow> error" where
  "err_config message = Config_Error message None"

definition err_config_with_source :: "string \<Rightarrow> string \<Rightarrow> error" where
  "err_config_with_source message source = Config_Error message (Some source)"

definition err_network :: "string \<Rightarrow> network_error_kind \<Rightarrow> error" where
  "err_network message kind = Network_Error message kind"

definition err_proxy :: "string \<Rightarrow> string \<Rightarrow> string \<Rightarrow> error" where
  "err_proxy message proxy_type instance_name = Proxy_Error message proxy_type instance_name"

definition err_resource :: "string \<Rightarrow> string \<Rightarrow> error" where
  "err_resource message resource_type = Resource_Error message resource_type"

definition err_internal :: "string \<Rightarrow> error" where
  "err_internal message = Internal_Error message None"

definition err_internal_with_context :: "string \<Rightarrow> string \<Rightarrow> error" where
  "err_internal_with_context message ctx = Internal_Error message (Some ctx)"

definition is_config :: "error \<Rightarrow> bool" where
  "is_config e = (case e of Config_Error _ _ \<Rightarrow> True | _ \<Rightarrow> False)"

definition is_network :: "error \<Rightarrow> bool" where
  "is_network e = (case e of Network_Error _ _ \<Rightarrow> True | _ \<Rightarrow> False)"

definition is_proxy :: "error \<Rightarrow> bool" where
  "is_proxy e = (case e of Proxy_Error _ _ _ \<Rightarrow> True | _ \<Rightarrow> False)"

definition is_resource :: "error \<Rightarrow> bool" where
  "is_resource e = (case e of Resource_Error _ _ \<Rightarrow> True | _ \<Rightarrow> False)"

definition is_internal :: "error \<Rightarrow> bool" where
  "is_internal e = (case e of Internal_Error _ _ \<Rightarrow> True | _ \<Rightarrow> False)"

lemmas error_constructors =
  err_config_def err_config_with_source_def err_network_def err_proxy_def err_resource_def
  err_internal_def err_internal_with_context_def

lemmas error_predicates =
  is_config_def is_network_def is_proxy_def is_resource_def is_internal_def

section \<open>Display\<close>

definition show_network_error_kind :: "network_error_kind \<Rightarrow> string" where
  "show_network_error_kind k = (case k of
      ConnectionFailed \<Rightarrow> ''connection failed''
    | Timeout \<Rightarrow> ''timeout''
    | DnsResolution \<Rightarrow> ''DNS resolution''
    | Tls \<Rightarrow> ''TLS/certificate''
    | Protocol \<Rightarrow> ''protocol'')"

definition show_error :: "error \<Rightarrow> string" where
  "show_error e = (case e of
      Config_Error message source \<Rightarrow>
        ''Configuration error: '' @ message @
        (case source of None \<Rightarrow> [] | Some s \<Rightarrow> '' (source: '' @ s @ '')'')
    | Network_Error message kind \<Rightarrow>
        ''Network error ('' @ show_network_error_kind kind @ ''): '' @ message
    | Proxy_Error message proxy_type instance_name \<Rightarrow>
        ''Proxy error in '' @ proxy_type @ '' instance '' @ quoted instance_name @ '': '' @ message
    | Resource_Error message resource_type \<Rightarrow>
        ''Resource error ('' @ resource_type @ ''): '' @ message
    | Internal_Error message ctx \<Rightarrow>
        ''Internal error: '' @ message @
        (case ctx of None \<Rightarrow> [] | Some c \<Rightarrow> '' (context: '' @ c @ '')''))"

section \<open>Conversions\<close>

text \<open>
  A \<open>std::io::Error\<close> is its kind and its text (\<open>to_string\<close>). The kinds the crate looks at are named;
  every other kind is \<open>Other_Io\<close> with its name.
\<close>

datatype io_error_kind =
    TimedOut | ConnectionRefused | ConnectionAborted | ConnectionReset | UnexpectedEof
  | Other_Io string

record io_error =
  io_kind :: io_error_kind
  io_text :: string

definition error_of_io :: "io_error \<Rightarrow> error" where
  "error_of_io err = (case io_kind err of
      TimedOut \<Rightarrow> err_network (io_text err) Timeout
    | ConnectionRefused \<Rightarrow> err_network (io_text err) ConnectionFailed
    | ConnectionAborted \<Rightarrow> err_network (io_text err) ConnectionFailed
    | ConnectionReset \<Rightarrow> err_network (io_text err) ConnectionFailed
    | _ \<Rightarrow> err_internal (io_text err))"

definition error_of_yaml :: "string \<Rightarrow> error" where
  "error_of_yaml text = err_config_with_source ''YAML parsing failed'' text"

definition error_of_json :: "string \<Rightarrow> error" where
  "error_of_json text = err_config_with_source ''JSON parsing failed'' text"

definition error_of_toml :: "string \<Rightarrow> error" where
  "error_of_toml text = err_config_with_source ''TOML parsing failed'' text"

definition error_of_addr_parse :: "string \<Rightarrow> error" where
  "error_of_addr_parse text = err_config_with_source ''Invalid address format'' text"

section \<open>Properties\<close>

lemma is_config_iff: "is_config e \<longleftrightarrow> (\<exists>m s. e = Config_Error m s)"
  by (cases e) (simp_all add: is_config_def)

lemma err_config_is_config [simp]: "is_config (err_config m)"
  by (simp add: is_config_def err_config_def)

text \<open>The first character of the text tells the category.\<close>

lemma hd_show_error:
  "hd (show_error e) = CHR ''C'' \<longleftrightarrow> is_config e"
  "hd (show_error e) = CHR ''N'' \<longleftrightarrow> is_network e"
  "hd (show_error e) = CHR ''P'' \<longleftrightarrow> is_proxy e"
  "hd (show_error e) = CHR ''R'' \<longleftrightarrow> is_resource e"
  "hd (show_error e) = CHR ''I'' \<longleftrightarrow> is_internal e"
  by (cases e; simp add: show_error_def error_predicates)+

end
