(* ===== verification/Net_Addr.thy ===== *)
theory Net_Addr
  imports Prelude
begin

text \<open>
  \<open>std::net::SocketAddr\<close> of the standard library, as far as the crate uses it: its \<open>Display\<close> text
  (error messages, session keys) and its \<open>FromStr\<close> parser (\<open>address.parse()\<close> in
  \<open>src/proxy.rs\<close>), which reads numeric addresses only and resolves no host name.
\<close>

section \<open>Addresses\<close>

datatype ipv4_addr = Ipv4 u8 u8 u8 u8

text \<open>The eight 16-bit segments of an IPv6 address, as a list.\<close>

datatype ipv6_addr = Ipv6 "u16 list"

datatype socket_addr =
    V4 ipv4_addr (sa_port: u16)
  | V6 ipv6_addr (sa_flowinfo: u32) (sa_scope: u32) (sa_port: u16)

section \<open>Display\<close>

definition show_word :: "'a::len word \<Rightarrow> string" where
  "show_word w = show_nat (unat w)"

definition hex_char :: "nat \<Rightarrow> char" where
  "hex_char d = (if d < 10 then digit_char d else char_of (87 + d))"

fun show_hex :: "nat \<Rightarrow> string" where
  "show_hex n = (if n < 16 then [hex_char n] else show_hex (n div 16) @ [hex_char (n mod 16)])"

declare show_hex.simps [simp del]

fun show_ipv4 :: "ipv4_addr \<Rightarrow> string" where
  "show_ipv4 (Ipv4 a b c d) =
     show_word a @ ''.'' @ show_word b @ ''.'' @ show_word c @ ''.'' @ show_word d"

fun show_segments :: "u16 list \<Rightarrow> string" where
  "show_segments [] = []"
| "show_segments [s] = show_hex (unat s)"
| "show_segments (s # t # ss) = show_hex (unat s) @ '':'' @ show_segments (t # ss)"

text \<open>The longest run of zero segments: start and length; the first of several equally long ones.\<close>

fun longest_zeroes :: "nat \<Rightarrow> nat \<times> nat \<Rightarrow> nat \<times> nat \<Rightarrow> u16 list \<Rightarrow> nat \<times> nat" where
  "longest_zeroes i longest cur [] = longest"
| "longest_zeroes i longest cur (s # ss) =
     (if s = 0 then
        let cur' = (if snd cur = 0 then (i, 1) else (fst cur, Suc (snd cur)))
        in longest_zeroes (Suc i) (if snd longest < snd cur' then cur' else longest) cur' ss
      else longest_zeroes (Suc i) longest (0, 0) ss)"

fun show_ipv6 :: "ipv6_addr \<Rightarrow> string" where
  "show_ipv6 (Ipv6 ss) =
     (if take 6 ss = [0, 0, 0, 0, 0, 0xFFFF] then
        (let a = ss ! 6; b = ss ! 7
         in ''::ffff:'' @ show_nat (unat a div 256) @ ''.'' @ show_nat (unat a mod 256) @ ''.'' @
            show_nat (unat b div 256) @ ''.'' @ show_nat (unat b mod 256))
      else
        (let z = longest_zeroes 0 (0, 0) (0, 0) ss
         in if 1 < snd z
            then show_segments (take (fst z) ss) @ ''::'' @ show_segments (drop (fst z + snd z) ss)
            else show_segments ss))"

fun show_socket_addr :: "socket_addr \<Rightarrow> string" where
  "show_socket_addr (V4 ip port) = show_ipv4 ip @ '':'' @ show_word port"
| "show_socket_addr (V6 ip flow scope port) =
     ''['' @ show_ipv6 ip @ (if scope = 0 then [] else ''%'' @ show_word scope) @ '']:'' @
     show_word port"

section \<open>Parser\<close>

text \<open>
  A reader takes the rest of the input and gives a value and the new rest, or fails and consumes
  nothing.
\<close>

type_synonym 'a reader = "string \<Rightarrow> ('a \<times> string) option"

definition rd_pure :: "'a \<Rightarrow> 'a reader" where
  "rd_pure x s = Some (x, s)"

definition rd_bind :: "'a reader \<Rightarrow> ('a \<Rightarrow> 'b reader) \<Rightarrow> 'b reader" where
  "rd_bind p f s = (case p s of None \<Rightarrow> None | Some (x, r) \<Rightarrow> f x r)"

definition read_given_char :: "char \<Rightarrow> unit reader" where
  "read_given_char c s = (case s of [] \<Rightarrow> None | x # xs \<Rightarrow> if x = c then Some ((), xs) else None)"

definition read_separator :: "char \<Rightarrow> nat \<Rightarrow> 'a reader \<Rightarrow> 'a reader" where
  "read_separator sep i inner s =
     (if 0 < i then
        (case read_given_char sep s of None \<Rightarrow> None | Some (_, r) \<Rightarrow> inner r)
      else inner s)"

definition to_digit :: "nat \<Rightarrow> char \<Rightarrow> nat option" where
  "to_digit radix c =
     (let n = of_char c :: nat;
          v = (if 48 \<le> n \<and> n \<le> 57 then n - 48
               else if 97 \<le> n \<and> n \<le> 122 then n - 87
               else if 65 \<le> n \<and> n \<le> 90 then n - 55
               else radix)
      in if v < radix then Some v else None)"

text \<open>All leading digits: their value, their number and the rest.\<close>

fun read_digits :: "nat \<Rightarrow> nat \<Rightarrow> nat \<Rightarrow> string \<Rightarrow> nat \<times> nat \<times> string" where
  "read_digits radix acc n [] = (acc, n, [])"
| "read_digits radix acc n (c # cs) =
     (case to_digit radix c of
        None \<Rightarrow> (acc, n, c # cs)
      | Some d \<Rightarrow> read_digits radix (acc * radix + d) (Suc n) cs)"

text \<open>
  \<open>read_number\<close>: at most \<open>max_digits\<close> digits (where given), no leading zero unless allowed, and a
  value below \<open>bound\<close> (the range of the result type; with no digit limit the checked arithmetic
  fails exactly when the value leaves that range).
\<close>

definition read_number :: "nat \<Rightarrow> nat option \<Rightarrow> bool \<Rightarrow> nat \<Rightarrow> nat reader" where
  "read_number radix max_digits allow_zero_prefix bound s =
     (let has_leading_zero = (case s of [] \<Rightarrow> False | c # _ \<Rightarrow> c = CHR ''0'');
          (v, n, rest) = read_digits radix 0 0 s
      in if (case max_digits of None \<Rightarrow> False | Some m \<Rightarrow> m < n) then None
         else if n = 0 then None
         else if \<not> allow_zero_prefix \<and> has_leading_zero \<and> 1 < n then None
         else if v < bound then Some (v, rest) else None)"

definition octet :: "nat \<Rightarrow> nat reader" where
  "octet i = read_separator CHR ''.'' i (read_number 10 (Some 3) False (2 ^ 8))"

definition read_ipv4 :: "ipv4_addr reader" where
  "read_ipv4 =
     rd_bind (octet 0) (\<lambda>a. rd_bind (octet 1) (\<lambda>b. rd_bind (octet 2) (\<lambda>c. rd_bind (octet 3) (\<lambda>d.
       rd_pure (Ipv4 (word_of_nat a) (word_of_nat b) (word_of_nat c) (word_of_nat d))))))"

definition pair_word :: "u8 \<Rightarrow> u8 \<Rightarrow> u16" where
  "pair_word a b = word_of_nat (unat a * 256 + unat b)"

function read_groups :: "nat \<Rightarrow> nat \<Rightarrow> string \<Rightarrow> u16 list \<times> bool \<times> string" where
  "read_groups limit i s =
     (if i < limit then
        (case (if i < limit - 1 then read_separator CHR '':'' i read_ipv4 s else None) of
           Some (Ipv4 a b c d, r) \<Rightarrow> ([pair_word a b, pair_word c d], True, r)
         | None \<Rightarrow>
             (case read_separator CHR '':'' i (read_number 16 (Some 4) True (2 ^ 16)) s of
                Some (g, r) \<Rightarrow>
                  (let (gs, v4, r') = read_groups limit (Suc i) r in (word_of_nat g # gs, v4, r'))
              | None \<Rightarrow> ([], False, s)))
      else ([], False, s))"
  by pat_completeness auto
termination
  by (relation "measure (\<lambda>(limit, i, s). limit - i)") auto

declare read_groups.simps [simp del]

definition read_ipv6_tail :: "u16 list \<Rightarrow> ipv6_addr reader" where
  "read_ipv6_tail head s =
     (let (tail, _, r) = read_groups (8 - (length head + 1)) 0 s
      in Some (Ipv6 (head @ replicate (8 - length head - length tail) 0 @ tail), r))"

definition read_ipv6 :: "ipv6_addr reader" where
  "read_ipv6 s =
     (let (head, head_v4, r) = read_groups 8 0 s
      in if length head = 8 then Some (Ipv6 head, r)
         else if head_v4 then None
         else rd_bind (read_given_char CHR '':'') (\<lambda>_.
              rd_bind (read_given_char CHR '':'') (\<lambda>_. read_ipv6_tail head)) r)"

definition read_port :: "u16 reader" where
  "read_port =
     rd_bind (read_given_char CHR '':'') (\<lambda>_.
     rd_bind (read_number 10 None True (2 ^ 16)) (\<lambda>p. rd_pure (word_of_nat p)))"

definition read_scope_id :: "u32 reader" where
  "read_scope_id =
     rd_bind (read_given_char CHR ''%'') (\<lambda>_.
     rd_bind (read_number 10 None True (2 ^ 32)) (\<lambda>p. rd_pure (word_of_nat p)))"

definition read_socket_addr_v4 :: "socket_addr reader" where
  "read_socket_addr_v4 =
     rd_bind read_ipv4 (\<lambda>ip. rd_bind read_port (\<lambda>port. rd_pure (V4 ip port)))"

definition read_socket_addr_v6 :: "socket_addr reader" where
  "read_socket_addr_v6 =
     rd_bind (read_given_char CHR ''['') (\<lambda>_.
     rd_bind read_ipv6 (\<lambda>ip.
     rd_bind (\<lambda>s. case read_scope_id s of None \<Rightarrow> Some (0, s) | Some x \<Rightarrow> Some x) (\<lambda>scope.
     rd_bind (read_given_char CHR '']'') (\<lambda>_.
     rd_bind read_port (\<lambda>port. rd_pure (V6 ip 0 scope port))))))"

text \<open>\<open>SocketAddr::from_str\<close>: the whole input must be read.\<close>

definition parse_socket_addr :: "string \<Rightarrow> socket_addr option" where
  "parse_socket_addr s =
     (case (case read_socket_addr_v4 s of Some x \<Rightarrow> Some x | None \<Rightarrow> read_socket_addr_v6 s) of
        Some (a, []) \<Rightarrow> Some a
      | _ \<Rightarrow> None)"

definition addr_parse_error_text :: string where
  "addr_parse_error_text = ''invalid socket address syntax''"

section \<open>Reading back what was shown\<close>

lemma to_digit_digit_char [simp]: "d < 10 \<Longrightarrow> to_digit 10 (digit_char d) = Some d"
  by (simp add: to_digit_def of_char_digit_char)

definition no_digit :: "nat \<Rightarrow> string \<Rightarrow> bool" where
  "no_digit radix s = (case s of [] \<Rightarrow> True | c # _ \<Rightarrow> to_digit radix c = None)"

lemma no_digit_simps [simp]:
  "no_digit radix []"
  "no_digit radix (c # cs) \<longleftrightarrow> to_digit radix c = None"
  by (simp_all add: no_digit_def)

lemma to_digit_separators [simp]:
  "to_digit 10 CHR ''.'' = None" "to_digit 10 CHR '':'' = None"
  by (simp_all add: to_digit_def)

lemma read_digits_stop: "no_digit radix r \<Longrightarrow> read_digits radix acc n r = (acc, n, r)"
  by (cases r) auto

lemma read_digits_show_nat_acc:
  "read_digits 10 acc k (show_nat m @ t) =
     read_digits 10 (acc * 10 ^ length (show_nat m) + m) (k + length (show_nat m)) t"
proof (induction m arbitrary: acc k t rule: show_nat.induct)
  case (1 m)
  show ?case
  proof (cases "m < 10")
    case True
    then show ?thesis by (simp add: show_nat.simps [of m])
  next
    case False
    then have "(acc * 10 ^ length (show_nat (m div 10)) + m div 10) * 10 + m mod 10
        = acc * 10 ^ Suc (length (show_nat (m div 10))) + m" by simp
    with 1 False show ?thesis by (simp add: show_nat.simps [of m] ac_simps)
  qed
qed

lemma read_digits_show_nat:
  "no_digit 10 r \<Longrightarrow> read_digits 10 0 k (show_nat n @ r) = (n, k + length (show_nat n), r)"
  by (simp add: read_digits_show_nat_acc read_digits_stop)

lemma hd_show_nat: "0 < n \<Longrightarrow> hd (show_nat n) \<noteq> CHR ''0''"
proof (induction n rule: show_nat.induct)
  case (1 n)
  show ?case
  proof (cases "n < 10")
    case True
    have "digit_char 0 = CHR ''0''" by code_simp
    with True \<open>0 < n\<close> show ?thesis
      by (simp add: show_nat.simps [of n]) (metis digit_char_inj less_irrefl zero_less_numeral)
  next
    case False
    with 1 show ?thesis by (simp add: show_nat.simps [of n])
  qed
qed

lemma length_show_nat_byte: "n < 256 \<Longrightarrow> length (show_nat n) \<le> 3"
  by (simp add: show_nat.simps [of n] show_nat.simps [of "n div 10"]
      show_nat.simps [of "n div 10 div 10"])

lemma length_show_nat_one: "n < 10 \<Longrightarrow> length (show_nat n) = 1"
  by (simp add: show_nat.simps [of n])

lemma read_number_show_nat:
  assumes "no_digit 10 r" "n < bound"
    and "case m of None \<Rightarrow> True | Some k \<Rightarrow> length (show_nat n) \<le> k"
  shows "read_number 10 m z bound (show_nat n @ r) = Some (n, r)"
proof -
  obtain c cs where c: "show_nat n = c # cs" by (cases "show_nat n") simp_all
  have zero: "c = CHR ''0'' \<Longrightarrow> cs = []"
    using hd_show_nat [of n] length_show_nat_one [of n] c by (cases "n = 0") auto
  show ?thesis
    using assms zero c read_digits_show_nat [OF assms(1), of 0 n]
    by (auto simp: read_number_def Let_def split: option.splits)
qed

lemma octet_show:
  "no_digit 10 r \<Longrightarrow> octet 0 (show_word (a :: u8) @ r) = Some (unat a, r)"
  "0 < i \<Longrightarrow> no_digit 10 r \<Longrightarrow> octet i (CHR ''.'' # show_word (a :: u8) @ r) = Some (unat a, r)"
proof -
  have a: "unat a < 256" using unsigned_less [of a, where ?'a = nat] by simp
  show "no_digit 10 r \<Longrightarrow> octet 0 (show_word a @ r) = Some (unat a, r)"
    and "0 < i \<Longrightarrow> no_digit 10 r \<Longrightarrow> octet i (CHR ''.'' # show_word a @ r) = Some (unat a, r)"
    using a by (simp_all add: octet_def read_separator_def read_given_char_def show_word_def
        read_number_show_nat length_show_nat_byte)
qed

lemma read_ipv4_show: "no_digit 10 r \<Longrightarrow> read_ipv4 (show_ipv4 ip @ r) = Some (ip, r)"
  by (cases ip) (simp add: read_ipv4_def rd_bind_def rd_pure_def octet_show)

lemma read_port_show: "no_digit 10 r \<Longrightarrow> read_port (CHR '':'' # show_word p @ r) = Some (p, r)"
proof -
  have "unat p < 2 ^ 16" using unsigned_less [of p, where ?'a = nat] by simp
  then show "no_digit 10 r \<Longrightarrow> ?thesis"
    by (simp add: read_port_def rd_bind_def rd_pure_def read_given_char_def show_word_def
        read_number_show_nat)
qed

lemma parse_show_socket_addr_v4: "parse_socket_addr (show_socket_addr (V4 ip port)) = Some (V4 ip port)"
  using read_port_show [of "[]" port]
  by (simp add: parse_socket_addr_def read_socket_addr_v4_def rd_bind_def rd_pure_def read_ipv4_show)

text \<open>A text whose first character is a letter is no address: host names do not parse.\<close>

lemma parse_socket_addr_letter:
  assumes "to_digit 10 c = None" "c \<noteq> CHR ''[''"
  shows "parse_socket_addr (c # s) = None"
  using assms
  by (auto simp: parse_socket_addr_def read_socket_addr_v4_def read_socket_addr_v6_def rd_bind_def
      read_ipv4_def octet_def read_separator_def read_number_def read_given_char_def)

lemma parse_socket_addr_Nil [simp]: "parse_socket_addr [] = None"
  by (simp add: parse_socket_addr_def read_socket_addr_v4_def read_socket_addr_v6_def rd_bind_def
      read_ipv4_def octet_def read_separator_def read_number_def read_given_char_def)

end
