(* ===== verification/Config.thy ===== *)
theory Config
  imports Prelude Errors Net_Addr
begin

text \<open>
  The configuration (\<open>src/config.rs\<close>): every structure, the default functions, the \<open>Default\<close>
  instances, validation, the queries and the loader. \<open>Vec\<close> is a list, \<open>HashMap<String, String>\<close> an
  association list in its iteration order. The deserialisers (serde) and the file system are
  arguments of the loader.
\<close>

section \<open>Structures\<close>

record metrics_config =
  mc_enabled :: bool
  mc_listen_addr :: socket_addr
  mc_path :: string
  mc_interval_secs :: u64

record health_check_config =
  hc_enabled :: bool
  hc_listen_addr :: socket_addr
  hc_path :: string

record buffer_pool_config =
  bp_initial_size :: usize
  bp_max_size :: usize
  bp_enable_stats :: bool

record connection_pool_config =
  cp_max_connections_per_upstream :: usize
  cp_idle_timeout_secs :: u64
  cp_keepalive_timeout_secs :: u64

record performance_config =
  pf_worker_threads :: usize
  pf_cpu_affinity :: bool
  pf_buffer_pool :: buffer_pool_config
  pf_connection_pool :: connection_pool_config

record logging_config =
  log_level :: string
  log_format :: string
  log_enable_tracing :: bool

record global_config =
  g_metrics :: metrics_config
  g_health_check :: health_check_config
  g_performance :: performance_config
  g_logging :: logging_config

datatype proxy_type = Http | Tcp | Udp

datatype backoff_strategy =
    Fixed (delay_ms: u64)
  | Exponential (base_delay_ms: u64) (max_delay_ms: u64) (jitter: bool)
  | Linear (initial_delay_ms: u64) (increment_ms: u64)

record retry_config =
  rt_max_attempts :: u32
  rt_backoff :: backoff_strategy

datatype health_check_protocol =
    Http_Check string "u16 list" "(string \<times> string) list"
  | Tcp_Check
  | Udp_Check

record upstream_health_check_config =
  uh_interval_secs :: u64
  uh_timeout_secs :: u64
  uh_failure_threshold :: u32
  uh_success_threshold :: u32
  uh_protocol_config :: health_check_protocol

record tls_config =
  tls_enabled :: bool
  tls_insecure_skip_verify :: bool
  tls_ca_cert_file :: "string option"
  tls_client_cert_file :: "string option"
  tls_client_key_file :: "string option"
  tls_server_name :: "string option"

record upstream_config =
  up_name :: string
  up_address :: string
  up_weight :: u32
  up_priority :: i32
  up_timeout_ms :: u64
  up_retry :: retry_config
  up_health_check :: "upstream_health_check_config option"
  up_tls :: "tls_config option"

record http_proxy_config =
  http_http2_enabled :: bool
  http_compression_enabled :: bool
  http_max_request_size :: usize
  http_request_timeout_secs :: u64
  http_add_headers :: "(string \<times> string) list"
  http_remove_headers :: "string list"
  http_sticky_sessions :: bool

record tcp_keep_alive_config =
  ka_enabled :: bool
  ka_idle_secs :: u64
  ka_interval_secs :: u64
  ka_retries :: u32

record tcp_proxy_config =
  tcp_connection_pooling :: bool
  tcp_buffer_size :: usize
  tcp_keep_alive :: "tcp_keep_alive_config option"
  tcp_nodelay :: bool

record udp_proxy_config =
  udp_buffer_size :: usize
  udp_session_timeout_secs :: u64
  udp_connection_tracking :: bool

record proxy_specific_config =
  ps_http :: http_proxy_config
  ps_tcp :: tcp_proxy_config
  ps_udp :: udp_proxy_config

record proxy_instance_config =
  inst_name :: string
  inst_proxy_type :: proxy_type
  inst_listen_addr :: socket_addr
  inst_upstreams :: "upstream_config list"
  inst_config :: proxy_specific_config

record config =
  cfg_global :: global_config
  cfg_proxy_instances :: "proxy_instance_config list"

section \<open>Default values\<close>

definition default_metrics_path :: string where "default_metrics_path = ''/metrics''"
definition default_metrics_interval :: u64 where "default_metrics_interval = 60"
definition default_health_path :: string where "default_health_path = ''/health''"
definition default_true :: bool where "default_true = True"
definition default_buffer_pool_size :: usize where "default_buffer_pool_size = 1024"
definition default_buffer_pool_max_size :: usize where "default_buffer_pool_max_size = 4096"
definition default_max_connections :: usize where "default_max_connections = 100"
definition default_idle_timeout :: u64 where "default_idle_timeout = 300"
definition default_keepalive_timeout :: u64 where "default_keepalive_timeout = 60"
definition default_log_level :: string where "default_log_level = ''info''"
definition default_log_format :: string where "default_log_format = ''pretty''"
definition default_weight :: u32 where "default_weight = 1"
definition default_timeout_ms :: u64 where "default_timeout_ms = 30000"
definition default_health_interval :: u64 where "default_health_interval = 30"
definition default_health_timeout :: u64 where "default_health_timeout = 5"
definition default_failure_threshold :: u32 where "default_failure_threshold = 3"
definition default_success_threshold :: u32 where "default_success_threshold = 2"
definition default_expected_status :: "u16 list" where "default_expected_status = [200]"
definition default_max_request_size :: usize where "default_max_request_size = 64 * 1024 * 1024"
definition default_request_timeout :: u64 where "default_request_timeout = 60"
definition default_tcp_buffer_size :: usize where "default_tcp_buffer_size = 8192"
definition default_udp_buffer_size :: usize where "default_udp_buffer_size = 1500"
definition default_udp_timeout :: u64 where "default_udp_timeout = 30"

lemmas default_values =
  default_metrics_path_def default_metrics_interval_def default_health_path_def default_true_def
  default_buffer_pool_size_def default_buffer_pool_max_size_def default_max_connections_def
  default_idle_timeout_def default_keepalive_timeout_def default_log_level_def
  default_log_format_def default_weight_def default_timeout_ms_def default_health_interval_def
  default_health_timeout_def default_failure_threshold_def default_success_threshold_def
  default_expected_status_def default_max_request_size_def default_request_timeout_def
  default_tcp_buffer_size_def default_udp_buffer_size_def default_udp_timeout_def

text \<open>The address literals of the \<open>Default\<close> instances, which the code parses and unwraps.\<close>

definition any_addr :: "u16 \<Rightarrow> socket_addr" where
  "any_addr port = V4 (Ipv4 0 0 0 0) port"

definition metrics_config_default :: metrics_config where
  "metrics_config_default =
     \<lparr>mc_enabled = True, mc_listen_addr = any_addr 9090, mc_path = default_metrics_path,
      mc_interval_secs = default_metrics_interval\<rparr>"

definition health_check_config_default :: health_check_config where
  "health_check_config_default =
     \<lparr>hc_enabled = True, hc_listen_addr = any_addr 8080, hc_path = default_health_path\<rparr>"

definition buffer_pool_config_default :: buffer_pool_config where
  "buffer_pool_config_default =
     \<lparr>bp_initial_size = default_buffer_pool_size, bp_max_size = default_buffer_pool_max_size,
      bp_enable_stats = False\<rparr>"

definition connection_pool_config_default :: connection_pool_config where
  "connection_pool_config_default =
     \<lparr>cp_max_connections_per_upstream = default_max_connections,
      cp_idle_timeout_secs = default_idle_timeout,
      cp_keepalive_timeout_secs = default_keepalive_timeout\<rparr>"

definition performance_config_default :: performance_config where
  "performance_config_default =
     \<lparr>pf_worker_threads = 0, pf_cpu_affinity = True, pf_buffer_pool = buffer_pool_config_default,
      pf_connection_pool = connection_pool_config_default\<rparr>"

definition logging_config_default :: logging_config where
  "logging_config_default =
     \<lparr>log_level = default_log_level, log_format = default_log_format, log_enable_tracing = False\<rparr>"

definition global_config_default :: global_config where
  "global_config_default =
     \<lparr>g_metrics = metrics_config_default, g_health_check = health_check_config_default,
      g_performance = performance_config_default, g_logging = logging_config_default\<rparr>"

definition backoff_strategy_default :: backoff_strategy where
  "backoff_strategy_default = Fixed 1000"

definition retry_config_default :: retry_config where
  "retry_config_default = \<lparr>rt_max_attempts = 0, rt_backoff = Fixed 1000\<rparr>"

definition http_proxy_config_default :: http_proxy_config where
  "http_proxy_config_default =
     \<lparr>http_http2_enabled = True, http_compression_enabled = True,
      http_max_request_size = default_max_request_size,
      http_request_timeout_secs = default_request_timeout,
      http_add_headers = [], http_remove_headers = [], http_sticky_sessions = False\<rparr>"

definition tcp_proxy_config_default :: tcp_proxy_config where
  "tcp_proxy_config_default =
     \<lparr>tcp_connection_pooling = True, tcp_buffer_size = default_tcp_buffer_size,
      tcp_keep_alive = None, tcp_nodelay = False\<rparr>"

definition udp_proxy_config_default :: udp_proxy_config where
  "udp_proxy_config_default =
     \<lparr>udp_buffer_size = default_udp_buffer_size, udp_session_timeout_secs = default_udp_timeout,
      udp_connection_tracking = True\<rparr>"

definition proxy_specific_config_default :: proxy_specific_config where
  "proxy_specific_config_default =
     \<lparr>ps_http = http_proxy_config_default, ps_tcp = tcp_proxy_config_default,
      ps_udp = udp_proxy_config_default\<rparr>"

lemmas config_defaults =
  metrics_config_default_def health_check_config_default_def buffer_pool_config_default_def
  connection_pool_config_default_def performance_config_default_def logging_config_default_def
  global_config_default_def backoff_strategy_default_def retry_config_default_def
  http_proxy_config_default_def tcp_proxy_config_default_def udp_proxy_config_default_def
  proxy_specific_config_default_def any_addr_def

section \<open>Validation\<close>

definition upstream_validate :: "upstream_config \<Rightarrow> unit result" where
  "upstream_validate u =
     (if up_name u = [] then Inl (err_config ''Upstream name cannot be empty'')
      else if up_address u = [] then
        Inl (err_config (''Upstream '' @ quoted (up_name u) @ '' address cannot be empty''))
      else if CHR '':'' \<notin> set (up_address u) then
        Inl (err_config (''Upstream '' @ quoted (up_name u) @
          '' address must include port (e.g., '' @ quoted ''host:port'' @ '')''))
      else if up_weight u = 0 then
        Inl (err_config (''Upstream '' @ quoted (up_name u) @ '' weight must be greater than 0''))
      else if up_timeout_ms u = 0 then
        Inl (err_config (''Upstream '' @ quoted (up_name u) @ '' timeout must be greater than 0''))
      else Inr ())"

definition instance_validate :: "proxy_instance_config \<Rightarrow> unit result" where
  "instance_validate i =
     (if inst_name i = [] then Inl (err_config ''Proxy instance name cannot be empty'')
      else if inst_upstreams i = [] then
        Inl (err_config (''Proxy instance '' @ quoted (inst_name i) @
          '' must have at least one upstream''))
      else case first_dup up_name {} (inst_upstreams i) of
        Some u \<Rightarrow> Inl (err_config (''Duplicate upstream name '' @ quoted (up_name u) @
          '' in instance '' @ quoted (inst_name i)))
      | None \<Rightarrow> try_all upstream_validate (inst_upstreams i))"

definition log_levels :: "string list" where
  "log_levels = [''error'', ''warn'', ''info'', ''debug'', ''trace'']"

definition log_formats :: "string list" where
  "log_formats = [''json'', ''pretty'', ''compact'']"

definition global_validate :: "global_config \<Rightarrow> unit result" where
  "global_validate g =
     (if mc_enabled (g_metrics g) \<and> mc_interval_secs (g_metrics g) = 0 then
        Inl (err_config ''Metrics interval must be greater than 0'')
      else if bp_max_size (pf_buffer_pool (g_performance g))
                < bp_initial_size (pf_buffer_pool (g_performance g)) then
        Inl (err_config ''Buffer pool initial size cannot be greater than max size'')
      else if log_level (g_logging g) \<notin> set log_levels then
        Inl (err_config ''Invalid log level. Must be one of: error, warn, info, debug, trace'')
      else if log_format (g_logging g) \<notin> set log_formats then
        Inl (err_config ''Invalid log format. Must be one of: json, pretty, compact'')
      else Inr ())"

definition config_validate :: "config \<Rightarrow> unit result" where
  "config_validate c =
     (case first_dup inst_name {} (cfg_proxy_instances c) of
        Some i \<Rightarrow> Inl (err_config (''Duplicate proxy instance name: '' @ quoted (inst_name i)))
      | None \<Rightarrow>
     (case first_dup inst_listen_addr {} (cfg_proxy_instances c) of
        Some i \<Rightarrow> Inl (err_config (''Duplicate listen address: '' @
          show_socket_addr (inst_listen_addr i) @ '' (instance: '' @ inst_name i @ '')''))
      | None \<Rightarrow>
     (case try_all instance_validate (cfg_proxy_instances c) of
        Inl e \<Rightarrow> Inl e
      | Inr _ \<Rightarrow> global_validate (cfg_global c))))"

section \<open>Queries and loading\<close>

definition get_instance :: "config \<Rightarrow> string \<Rightarrow> proxy_instance_config option" where
  "get_instance c name = find (\<lambda>i. inst_name i = name) (cfg_proxy_instances c)"

definition instances_by_type :: "config \<Rightarrow> proxy_type \<Rightarrow> proxy_instance_config list" where
  "instances_by_type c t = filter (\<lambda>i. inst_proxy_type i = t) (cfg_proxy_instances c)"

text \<open>
  \<open>Path::extension\<close>: the last component that is neither empty nor \<open>.\<close> is the file name (none if it
  is \<open>..\<close>); its extension is what follows the last dot, unless that dot is its first character.
\<close>

definition path_file_name :: "string \<Rightarrow> string option" where
  "path_file_name p =
     (let cs = filter (\<lambda>c. c \<noteq> [] \<and> c \<noteq> ''.'') (split_on CHR ''/'' p)
      in if cs = [] \<or> last cs = ''..'' then None else Some (last cs))"

definition path_extension :: "string \<Rightarrow> string option" where
  "path_extension p =
     (case path_file_name p of
        None \<Rightarrow> None
      | Some f \<Rightarrow>
          (case split_once CHR ''.'' (rev f) of
             (_, None) \<Rightarrow> None
           | (after, Some before) \<Rightarrow> if before = [] then None else Some (rev after)))"

definition config_from_file ::
  "(string \<Rightarrow> string + string) \<Rightarrow> (string \<Rightarrow> string + config) \<Rightarrow> (string \<Rightarrow> string + config) \<Rightarrow>
   (string \<Rightarrow> string + config) \<Rightarrow> string \<Rightarrow> config result" where
  "config_from_file read_to_string parse_yaml parse_json parse_toml path =
     (case read_to_string path of
        Inl e \<Rightarrow> Inl (err_config (''Failed to read config file '' @ quoted path @ '': '' @ e))
      | Inr content \<Rightarrow>
          res_bind
            (let ext = path_extension path
             in if ext = Some ''yml'' \<or> ext = Some ''yaml''
                then map_sum error_of_yaml id (parse_yaml content)
                else if ext = Some ''json'' then map_sum error_of_json id (parse_json content)
                else if ext = Some ''toml'' then map_sum error_of_toml id (parse_toml content)
                else Inl (err_config ''Unsupported config file format. Use .yml, .json, or .toml''))
            (\<lambda>config. res_bind (config_validate config) (\<lambda>_. Inr config)))"

section \<open>What validation promises\<close>

definition valid_upstream :: "upstream_config \<Rightarrow> bool" where
  "valid_upstream u \<longleftrightarrow>
     up_name u \<noteq> [] \<and> CHR '':'' \<in> set (up_address u) \<and> 0 < up_weight u \<and> 0 < up_timeout_ms u"

definition valid_instance :: "proxy_instance_config \<Rightarrow> bool" where
  "valid_instance i \<longleftrightarrow>
     inst_name i \<noteq> [] \<and> inst_upstreams i \<noteq> [] \<and> distinct (map up_name (inst_upstreams i)) \<and>
     list_all valid_upstream (inst_upstreams i)"

definition valid_global :: "global_config \<Rightarrow> bool" where
  "valid_global g \<longleftrightarrow>
     (mc_enabled (g_metrics g) \<longrightarrow> 0 < mc_interval_secs (g_metrics g)) \<and>
     bp_initial_size (pf_buffer_pool (g_performance g)) \<le> bp_max_size (pf_buffer_pool (g_performance g)) \<and>
     log_level (g_logging g) \<in> set log_levels \<and> log_format (g_logging g) \<in> set log_formats"

definition valid_config :: "config \<Rightarrow> bool" where
  "valid_config c \<longleftrightarrow>
     distinct (map inst_name (cfg_proxy_instances c)) \<and>
     distinct (map inst_listen_addr (cfg_proxy_instances c)) \<and>
     list_all valid_instance (cfg_proxy_instances c) \<and> valid_global (cfg_global c)"

lemma upstream_validate_ok [res_simps]: "upstream_validate u = Inr x \<longleftrightarrow> valid_upstream u"
  by (auto simp: upstream_validate_def valid_upstream_def word_neq_0_conv)

lemma instance_validate_ok [res_simps]: "instance_validate i = Inr x \<longleftrightarrow> valid_instance i"
  by (cases "first_dup up_name {} (inst_upstreams i)")
     (auto simp: instance_validate_def valid_instance_def res_simps list_all_iff
        simp flip: first_dup_None_empty)

lemma global_validate_ok [res_simps]: "global_validate g = Inr x \<longleftrightarrow> valid_global g"
  by (auto simp: global_validate_def valid_global_def word_neq_0_conv)

lemma config_validate_ok: "config_validate c = Inr x \<longleftrightarrow> valid_config c"
proof -
  have "config_validate c = Inr x \<longleftrightarrow>
      first_dup inst_name {} (cfg_proxy_instances c) = None \<and>
      first_dup inst_listen_addr {} (cfg_proxy_instances c) = None \<and>
      try_all instance_validate (cfg_proxy_instances c) = Inr () \<and>
      global_validate (cfg_global c) = Inr ()"
    unfolding config_validate_def
    by (simp split: option.splits sum.splits del: first_dup_None_empty)
  then show ?thesis
    by (simp add: valid_config_def try_all_ok_iff instance_validate_ok global_validate_ok
        list_all_iff)
qed

text \<open>Every error of validation is a configuration error.\<close>

lemma upstream_validate_error [res_simps]: "upstream_validate u = Inl e \<Longrightarrow> is_config e"
  by (auto simp: upstream_validate_def split: if_splits)

lemma instance_validate_error: "instance_validate i = Inl e \<Longrightarrow> is_config e"
  by (auto simp: instance_validate_def split: if_splits option.splits
      dest!: try_all_error_split upstream_validate_error)

lemma config_validate_error: "config_validate c = Inl e \<Longrightarrow> is_config e"
  by (auto simp: config_validate_def global_validate_def split: if_splits option.splits sum.splits
      dest!: try_all_error_split instance_validate_error)

section \<open>Queries\<close>

lemma get_instance_Some:
  "get_instance c n = Some i \<Longrightarrow> i \<in> set (cfg_proxy_instances c) \<and> inst_name i = n"
  by (auto simp: get_instance_def find_Some_iff)

lemma get_instance_None:
  "get_instance c n = None \<longleftrightarrow> n \<notin> inst_name ` set (cfg_proxy_instances c)"
  by (auto simp: get_instance_def find_None_iff)

lemma find_distinct_key:
  "distinct (map key xs) \<Longrightarrow> x \<in> set xs \<Longrightarrow> find (\<lambda>y. key y = key x) xs = Some x"
  by (induction xs) auto

lemma get_instance_valid:
  "valid_config c \<Longrightarrow> i \<in> set (cfg_proxy_instances c) \<Longrightarrow> get_instance c (inst_name i) = Some i"
  by (simp add: get_instance_def valid_config_def find_distinct_key)

lemma long_file_name: "2 < length f \<Longrightarrow> f \<noteq> [] \<and> f \<noteq> ''.'' \<and> f \<noteq> ''..''"
  by auto

lemma path_extension_simple:
  assumes "stem \<noteq> []" "CHR ''/'' \<notin> set stem" "CHR ''/'' \<notin> set ext" "CHR ''.'' \<notin> set ext"
    "ext \<noteq> []"
  shows "path_extension (dir @ ''/'' @ stem @ ''.'' @ ext) = Some ext"
    and "path_extension (stem @ ''.'' @ ext) = Some ext"
proof -
  let ?f = "stem @ CHR ''.'' # ext"
  have f: "split_on CHR ''/'' ?f = [?f]" using assms by (intro split_on_no_sep) simp
  have "2 < length ?f" using assms by (cases stem; cases ext) simp_all
  then have ne: "?f \<noteq> []" "?f \<noteq> ''.''" "?f \<noteq> ''..''"
    using long_file_name [of ?f] by simp_all
  have ext: "split_once CHR ''.'' (rev ?f) = (rev ext, Some (rev stem))"
    using split_once_sep [of "CHR ''.''" "rev ext" "rev stem"] assms by simp
  have "path_file_name (dir @ CHR ''/'' # ?f) = Some ?f" "path_file_name ?f = Some ?f"
    using ne by (simp_all add: path_file_name_def split_on_append_sep f)
  then show "path_extension (dir @ ''/'' @ stem @ ''.'' @ ext) = Some ext"
    and "path_extension (stem @ ''.'' @ ext) = Some ext"
    using ext assms by (simp_all add: path_extension_def)
qed

lemma loaded_config_valid: "config_from_file rd y j t path = Inr c \<Longrightarrow> valid_config c"
  using config_validate_ok by (auto simp: config_from_file_def res_simps Let_def split: sum.splits if_splits)

section \<open>Properties\<close>

text \<open>The upstream of the code's own tests.\<close>

definition test_upstream :: "string \<Rightarrow> u32 \<Rightarrow> upstream_config" where
  "test_upstream name weight =
     \<lparr>up_name = name, up_address = ''127.0.0.1:8080'', up_weight = weight, up_priority = 0,
      up_timeout_ms = 5000, up_retry = retry_config_default, up_health_check = None,
      up_tls = None\<rparr>"

text \<open>C10: Validation accepts exactly the configurations whose instance names and listen addresses
are unique, whose instances have a name and uniquely named, complete upstreams, and whose global
section is consistent; every rejection is a configuration error.\<close>

theorem config_validation_exact:
  "case config_validate c of Inr _ \<Rightarrow> valid_config c | Inl e \<Rightarrow> \<not> valid_config c \<and> is_config e"
  using config_validate_ok [of c] config_validate_error [of c]
  by (cases "config_validate c") auto

text \<open>Whatever the reader and the three parsers return, a configuration that comes out of the
loader is valid, and every failure of the loader is a configuration error.\<close>

theorem config_from_file_total:
  "case config_from_file rd y j t path of
     Inr c \<Rightarrow> valid_config c | Inl e \<Rightarrow> is_config e"
proof -
  have conv: "is_config (error_of_yaml e)" "is_config (error_of_json e)" "is_config (error_of_toml e)"
    for e
    by (simp_all add: error_of_yaml_def error_of_json_def error_of_toml_def is_config_def
        err_config_with_source_def)
  have parsed: "is_config e" if "map_sum f id r = Inl e" "\<And>x. is_config (f x)"
    for e f and r :: "string + config"
    using that by (cases r) auto
  show ?thesis
    using config_validate_ok config_validate_error
    by (auto simp: config_from_file_def res_simps Let_def split: sum.splits if_splits
        dest: parsed [OF _ conv(1)] parsed [OF _ conv(2)] parsed [OF _ conv(3)])
qed

end
