(* ===== verification/F64.thy ===== *)
theory F64
  imports Prelude "HOL-Library.Log_Nat" Complex_Main
begin

text \<open>
  Binary64 arithmetic (Rust's \<open>f64\<close>), as far as the crate uses it. A finite \<open>f64\<close> is the rational
  number it denotes. Every operation is the exact one followed by \<open>f64_round\<close>: round to nearest,
  ties to even, at 53 bits of precision, with gradual underflow below 2^-1022 (all numbers are
  multiples of the quantum 2^-1074). The crate never divides by zero (each division is behind a
  test) and its values stay far below 2^1023, so infinities and NaN do not arise, and the two zeros
  compare equal; none of them is modelled.
\<close>

section \<open>Rounding\<close>

type_synonym f64 = rat

definition round_half_even :: "rat \<Rightarrow> int" where
  "round_half_even x =
     (let f = \<lfloor>x\<rfloor>; d = x - of_int f
      in if d < 1 / 2 then f else if 1 / 2 < d then f + 1 else if even f then f else f + 1)"

definition f64_quantum :: rat where
  "f64_quantum = 1 / 2 ^ 1074"

text \<open>How many low bits of the number, counted in quanta, do not fit into 53 bits.\<close>

definition f64_shift :: "rat \<Rightarrow> nat" where
  "f64_shift x = floorlog 2 (nat \<lfloor>\<bar>x\<bar> / f64_quantum\<rfloor>) - 53"

definition f64_ulp :: "rat \<Rightarrow> rat" where
  "f64_ulp x = 2 ^ f64_shift x * f64_quantum"

definition f64_round :: "rat \<Rightarrow> f64" where
  "f64_round x = of_int (round_half_even (x / f64_ulp x)) * f64_ulp x"

definition f64_add :: "f64 \<Rightarrow> f64 \<Rightarrow> f64" where
  "f64_add x y = f64_round (x + y)"

definition f64_sub :: "f64 \<Rightarrow> f64 \<Rightarrow> f64" where
  "f64_sub x y = f64_round (x - y)"

definition f64_mul :: "f64 \<Rightarrow> f64 \<Rightarrow> f64" where
  "f64_mul x y = f64_round (x * y)"

definition f64_div :: "f64 \<Rightarrow> f64 \<Rightarrow> f64" where
  "f64_div x y = f64_round (x / y)"

text \<open>\<open>n as f64\<close> of an unsigned integer.\<close>

definition f64_of_u64 :: "u64 \<Rightarrow> f64" where
  "f64_of_u64 n = f64_round (of_nat (unat n))"

definition f64_of_u32 :: "u32 \<Rightarrow> f64" where
  "f64_of_u32 n = f64_round (of_nat (unat n))"

text \<open>\<open>Iterator::sum\<close> folds from zero.\<close>

fun f64_sum_from :: "f64 \<Rightarrow> f64 list \<Rightarrow> f64" where
  "f64_sum_from acc [] = acc"
| "f64_sum_from acc (x # xs) = f64_sum_from (f64_add acc x) xs"

definition f64_sum :: "f64 list \<Rightarrow> f64" where
  "f64_sum xs = f64_sum_from 0 xs"

section \<open>Rounding to an integer\<close>

lemma round_half_even_of_int [simp]: "round_half_even (of_int k) = k"
  by (simp add: round_half_even_def)

lemma round_half_even_bounds:
  "\<bar>of_int (round_half_even x) - x\<bar> \<le> 1 / 2"
proof -
  have "of_int \<lfloor>x\<rfloor> \<le> x" "x < of_int \<lfloor>x\<rfloor> + 1" by linarith+
  then show ?thesis
    unfolding round_half_even_def Let_def abs_le_iff by (simp split: if_split) linarith
qed

lemma round_half_even_floor: "\<lfloor>x\<rfloor> \<le> round_half_even x" "round_half_even x \<le> \<lfloor>x\<rfloor> + 1"
  by (auto simp: round_half_even_def Let_def)

lemma round_half_even_mono:
  assumes "x \<le> y"
  shows "round_half_even x \<le> round_half_even y"
proof (cases "\<lfloor>x\<rfloor> = \<lfloor>y\<rfloor>")
  case True
  with assms show ?thesis by (auto simp: round_half_even_def Let_def)
next
  case False
  with assms have "\<lfloor>x\<rfloor> + 1 \<le> \<lfloor>y\<rfloor>" using floor_mono [of x y] by linarith
  then show ?thesis using round_half_even_floor [of x] round_half_even_floor [of y] by linarith
qed

lemma round_half_even_minus: "round_half_even (- x) = - round_half_even x"
proof (cases "x = of_int \<lfloor>x\<rfloor>")
  case True
  then show ?thesis by (metis of_int_minus round_half_even_of_int)
next
  case False
  then have "of_int \<lfloor>x\<rfloor> < x" "x < of_int \<lfloor>x\<rfloor> + 1" by linarith+
  then have "\<lfloor>- x\<rfloor> = - \<lfloor>x\<rfloor> - 1" by linarith
  then show ?thesis
    by (auto simp: round_half_even_def Let_def)
qed

section \<open>The unit in the last place\<close>

lemma f64_quantum_pos [simp]: "0 < f64_quantum"
  by (simp add: f64_quantum_def)

lemma f64_ulp_pos [simp]: "0 < f64_ulp x"
  by (simp add: f64_ulp_def)

lemma f64_ulp_minus [simp]: "f64_ulp (- x) = f64_ulp x"
  by (simp add: f64_ulp_def f64_shift_def)

lemma f64_shift_mono: "\<bar>x\<bar> \<le> \<bar>y\<bar> \<Longrightarrow> f64_shift x \<le> f64_shift y"
  unfolding f64_shift_def
  by (intro diff_le_mono floorlog_mono nat_mono floor_mono divide_right_mono)
     (simp_all add: less_imp_le)

lemma f64_ulp_mono: "\<bar>x\<bar> \<le> \<bar>y\<bar> \<Longrightarrow> f64_ulp x \<le> f64_ulp y"
  unfolding f64_ulp_def
  by (intro mult_right_mono power_increasing f64_shift_mono) (simp_all add: less_imp_le)

lemma abs_less_ulp: "\<bar>x\<bar> < 2 ^ 53 * f64_ulp x"
proof -
  define N where "N = nat \<lfloor>\<bar>x\<bar> / f64_quantum\<rfloor>"
  have "N < 2 ^ (53 + f64_shift x)"
  proof (cases "N = 0")
    case False
    then have "N < 2 ^ floorlog 2 N" using floorlog_bounds [of N 2] by simp
    also have "\<dots> \<le> 2 ^ (53 + f64_shift x)"
      by (rule power_increasing) (simp_all add: f64_shift_def N_def)
    finally show ?thesis .
  qed simp
  then have N: "(of_nat (N + 1) :: rat) \<le> 2 ^ (53 + f64_shift x)"
    by (metis Suc_eq_plus1 Suc_leI of_nat_le_iff of_nat_numeral of_nat_power)
  have "\<bar>x\<bar> / f64_quantum < of_nat (N + 1)"
    unfolding N_def by (simp add: less_imp_le) linarith
  with N have "\<bar>x\<bar> / f64_quantum < 2 ^ (53 + f64_shift x)" by linarith
  then have "\<bar>x\<bar> < 2 ^ (53 + f64_shift x) * f64_quantum"
    by (simp add: pos_divide_less_eq)
  then show ?thesis by (simp add: f64_ulp_def power_add mult.assoc)
qed

lemma ulp_le_abs:
  assumes "0 < f64_shift x"
  shows "2 ^ 52 * f64_ulp x \<le> \<bar>x\<bar>"
proof -
  define N where "N = nat \<lfloor>\<bar>x\<bar> / f64_quantum\<rfloor>"
  from assms have fl: "floorlog 2 N = 53 + f64_shift x" by (simp add: f64_shift_def N_def)
  then have "N \<noteq> 0" by (metis add_is_0 floorlog_eq_zero_iff le_refl zero_neq_numeral)
  then have "2 ^ (floorlog 2 N - 1) \<le> N" using floorlog_bounds [of N 2] by simp
  with fl have "2 ^ (52 + f64_shift x) \<le> N" by simp
  then have "(2 :: rat) ^ (52 + f64_shift x) \<le> of_nat N"
    by (metis of_nat_le_iff of_nat_numeral of_nat_power)
  also have "\<dots> \<le> \<bar>x\<bar> / f64_quantum"
    unfolding N_def by (simp add: less_imp_le)
  finally show ?thesis
    by (simp add: pos_le_divide_eq f64_ulp_def power_add mult.assoc)
qed

section \<open>Laws of rounding\<close>

lemma f64_round_minus: "f64_round (- x) = - f64_round x"
  by (simp add: f64_round_def round_half_even_minus)

lemma f64_round_zero [simp]: "f64_round 0 = 0"
  by (simp add: f64_round_def round_half_even_def)

lemma f64_round_nonneg: "0 \<le> x \<Longrightarrow> 0 \<le> f64_round x"
  using round_half_even_mono [of 0 "x / f64_ulp x"] round_half_even_of_int [of 0]
  by (simp add: f64_round_def less_imp_le)

lemma f64_round_nonpos: "x \<le> 0 \<Longrightarrow> f64_round x \<le> 0"
  using f64_round_nonneg [of "- x"] by (simp add: f64_round_minus)

lemma f64_round_mono_nonneg:
  assumes "0 \<le> x" "x \<le> y"
  shows "f64_round x \<le> f64_round y"
proof (cases "f64_shift x = f64_shift y")
  case True
  then have "f64_ulp x = f64_ulp y" by (simp add: f64_ulp_def)
  moreover have "x / f64_ulp x \<le> y / f64_ulp x"
    using assms by (intro divide_right_mono) (simp_all add: less_imp_le)
  ultimately show ?thesis
    unfolding f64_round_def
    by (metis f64_ulp_pos less_imp_le mult_right_mono of_int_le_iff round_half_even_mono)
next
  case False
  have "f64_shift x \<le> f64_shift y" using assms by (intro f64_shift_mono) simp
  with False have lt: "f64_shift x < f64_shift y" by simp
  have "x / f64_ulp x \<le> of_int (2 ^ 53)"
    using abs_less_ulp [of x] assms by (simp add: pos_divide_le_eq)
  then have "round_half_even (x / f64_ulp x) \<le> 2 ^ 53"
    by (metis round_half_even_mono round_half_even_of_int)
  then have "(of_int (round_half_even (x / f64_ulp x)) :: rat) \<le> of_int (2 ^ 53)"
    by (rule of_int_le_iff [THEN iffD2])
  then have "f64_round x \<le> of_int (2 ^ 53) * f64_ulp x"
    unfolding f64_round_def by (intro mult_right_mono) (simp_all add: less_imp_le)
  also have "\<dots> = 2 ^ 52 * (2 * f64_ulp x)" by simp
  also have "\<dots> \<le> 2 ^ 52 * f64_ulp y"
  proof -
    from lt have "Suc (f64_shift x) \<le> f64_shift y" by simp
    then have "(2 :: rat) ^ Suc (f64_shift x) \<le> 2 ^ f64_shift y"
      by (rule power_increasing) simp
    then have "2 * f64_ulp x \<le> f64_ulp y"
      unfolding f64_ulp_def using mult_right_mono [of _ _ f64_quantum]
      by (simp add: less_imp_le mult.assoc)
    then show ?thesis by simp
  qed
  also have "2 ^ 52 * f64_ulp y \<le> f64_round y"
  proof -
    have "of_int (2 ^ 52) \<le> y / f64_ulp y"
      using ulp_le_abs [of y] lt assms by (simp add: pos_le_divide_eq)
    then have "2 ^ 52 \<le> round_half_even (y / f64_ulp y)"
      by (metis round_half_even_mono round_half_even_of_int)
    then have "(of_int (2 ^ 52) :: rat) \<le> of_int (round_half_even (y / f64_ulp y))"
      by (rule of_int_le_iff [THEN iffD2])
    then have "of_int (2 ^ 52) * f64_ulp y \<le> f64_round y"
      unfolding f64_round_def by (intro mult_right_mono) (simp_all add: less_imp_le)
    then show ?thesis by simp
  qed
  finally show ?thesis .
qed

lemma f64_round_mono:
  assumes "x \<le> y"
  shows "f64_round x \<le> f64_round y"
proof -
  consider "0 \<le> x" | "x \<le> 0" "0 \<le> y" | "y \<le> 0" by linarith
  then show ?thesis
  proof cases
    case 1
    with assms show ?thesis by (rule f64_round_mono_nonneg [rotated])
  next
    case 2
    then show ?thesis using f64_round_nonpos f64_round_nonneg order_trans by blast
  next
    case 3
    with assms have "f64_round (- y) \<le> f64_round (- x)"
      by (intro f64_round_mono_nonneg) simp_all
    then show ?thesis by (simp add: f64_round_minus)
  qed
qed

text \<open>A number with at most 53 significant bits is not changed.\<close>

lemma f64_round_exact_less:
  assumes x: "x = of_int k * (2 ^ e * f64_quantum)" and k: "\<bar>k\<bar> < 2 ^ 53"
  shows "f64_round x = x"
proof -
  have "\<bar>x\<bar> / f64_quantum = of_int (\<bar>k\<bar> * 2 ^ e)"
    using less_imp_neq [OF f64_quantum_pos]
    by (simp add: x abs_mult power_abs abs_of_pos)
  then have N: "nat \<lfloor>\<bar>x\<bar> / f64_quantum\<rfloor> = nat (\<bar>k\<bar> * 2 ^ e)" by (metis floor_of_int)
  have "\<bar>k\<bar> * 2 ^ e < 2 ^ 53 * 2 ^ e" using k by (intro mult_strict_right_mono) simp_all
  then have "nat (\<bar>k\<bar> * 2 ^ e) < 2 ^ (53 + e)"
    by (simp add: power_add nat_less_iff)
  then have "floorlog 2 (nat \<lfloor>\<bar>x\<bar> / f64_quantum\<rfloor>) \<le> 53 + e"
    unfolding N by (intro floorlog_leI) simp_all
  then have le: "f64_shift x \<le> e" by (simp add: f64_shift_def)
  then have "(2 :: rat) ^ e = 2 ^ (e - f64_shift x) * 2 ^ f64_shift x"
    by (metis le_add_diff_inverse2 power_add)
  then have eq: "x = of_int (k * 2 ^ (e - f64_shift x)) * f64_ulp x"
    by (simp add: x f64_ulp_def)
  then have "x / f64_ulp x = of_int (k * 2 ^ (e - f64_shift x))"
    by (metis f64_ulp_pos less_irrefl nonzero_mult_div_cancel_right)
  then show ?thesis using eq unfolding f64_round_def by (metis round_half_even_of_int)
qed

lemma f64_round_exact:
  assumes x: "x = of_int k * (2 ^ e * f64_quantum)" and k: "\<bar>k\<bar> \<le> 2 ^ 53"
  shows "f64_round x = x"
proof (cases "\<bar>k\<bar> = 2 ^ 53")
  case True
  then have "x = of_int (sgn k * 2 ^ 52) * (2 ^ Suc e * f64_quantum)"
    using x abs_mult_sgn [of k] by (auto simp: abs_if split: if_splits)
  then show ?thesis by (rule f64_round_exact_less) (simp add: abs_mult)
next
  case False
  with k show ?thesis by (intro f64_round_exact_less [OF x]) simp
qed

lemma f64_round_dyadic:
  assumes "\<bar>k\<bar> \<le> 2 ^ 53" "j \<le> 1074"
  shows "f64_round (of_int k / 2 ^ j) = of_int k / 2 ^ j"
proof (rule f64_round_exact)
  have "(2 :: rat) ^ 1074 = 2 ^ (1074 - j) * 2 ^ j"
    using assms by (metis le_add_diff_inverse2 power_add)
  then show "of_int k / 2 ^ j = of_int k * (2 ^ (1074 - j) * f64_quantum)"
    unfolding f64_quantum_def by (simp del: power_numeral)
qed (use assms in simp)

lemma f64_round_of_int: "\<bar>k\<bar> \<le> 2 ^ 53 \<Longrightarrow> f64_round (of_int k) = of_int k"
  using f64_round_dyadic [of k 0] by simp

lemma f64_round_of_nat: "n \<le> 2 ^ 53 \<Longrightarrow> f64_round (of_nat n) = of_nat n"
  using f64_round_of_int [of "int n"] by simp

lemma f64_round_one [simp]: "f64_round 1 = 1"
  using f64_round_of_nat [of 1] by simp

lemma f64_round_half [simp]: "f64_round (1 / 2) = 1 / 2"
  using f64_round_dyadic [of 1 1] by simp

text \<open>The representable numbers are the fixed points of rounding; every operation yields one.\<close>

definition is_f64 :: "rat \<Rightarrow> bool" where
  "is_f64 x \<longleftrightarrow> f64_round x = x"

lemma is_f64_round [simp]: "is_f64 (f64_round x)"
proof -
  let ?r = "round_half_even (x / f64_ulp x)"
  have "\<bar>x / f64_ulp x\<bar> \<le> of_int (2 ^ 53)"
    using abs_less_ulp [of x] by (simp add: abs_of_pos pos_divide_le_eq)
  then have "- of_int (2 ^ 53) \<le> x / f64_ulp x" "x / f64_ulp x \<le> of_int (2 ^ 53)"
    by linarith+
  then have "round_half_even (of_int (- (2 ^ 53))) \<le> ?r" "?r \<le> round_half_even (of_int (2 ^ 53))"
    by (intro round_half_even_mono; simp)+
  then have r: "\<bar>?r\<bar> \<le> 2 ^ 53" unfolding round_half_even_of_int by linarith
  have "f64_round x = of_int ?r * (2 ^ f64_shift x * f64_quantum)"
    by (simp add: f64_round_def f64_ulp_def)
  then show ?thesis unfolding is_f64_def by (rule f64_round_exact) (rule r)
qed

lemma is_f64_ops [simp]:
  "is_f64 (f64_add x y)" "is_f64 (f64_sub x y)" "is_f64 (f64_mul x y)" "is_f64 (f64_div x y)"
  "is_f64 (f64_of_u64 n)" "is_f64 (f64_of_u32 m)" "is_f64 0" "is_f64 1"
  by (simp_all add: f64_add_def f64_sub_def f64_mul_def f64_div_def f64_of_u64_def f64_of_u32_def)
     (simp_all add: is_f64_def)

lemma is_f64_multiple:
  assumes "is_f64 x"
  shows "\<exists>n. x = of_int n * f64_quantum"
proof -
  have "x = of_int (round_half_even (x / f64_ulp x) * 2 ^ f64_shift x) * f64_quantum"
    using assms unfolding is_f64_def f64_round_def f64_ulp_def by simp
  then show ?thesis by blast
qed

lemma f64_round_quantum [simp]: "f64_round f64_quantum = f64_quantum"
  using f64_round_exact [of f64_quantum 1 0] by simp

lemma f64_round_pos: "f64_quantum \<le> x \<Longrightarrow> 0 < f64_round x"
  using f64_round_mono [of f64_quantum x] less_le_trans [OF f64_quantum_pos] by simp

lemma f64_quantum_le_inverse: "n \<le> 1074 \<Longrightarrow> f64_quantum \<le> 1 / 2 ^ n"
  unfolding f64_quantum_def
  by (rule divide_left_mono) (simp_all add: power_increasing del: power_numeral)

text \<open>Subtraction compares exactly: the difference of two doubles is positive only if it rounds so.\<close>

lemma f64_sub_nonpos_iff:
  assumes "is_f64 x" "is_f64 y"
  shows "f64_sub x y \<le> 0 \<longleftrightarrow> x \<le> y"
proof
  assume "x \<le> y"
  then show "f64_sub x y \<le> 0" by (simp add: f64_sub_def f64_round_nonpos)
next
  assume le: "f64_sub x y \<le> 0"
  show "x \<le> y"
  proof (rule ccontr)
    assume "\<not> x \<le> y"
    from assms obtain m n where mn: "x = of_int m * f64_quantum" "y = of_int n * f64_quantum"
      using is_f64_multiple by blast
    with \<open>\<not> x \<le> y\<close> have "n < m" by (metis f64_quantum_pos less_imp_le linorder_not_less
      mult_right_mono of_int_le_iff)
    then have "1 * f64_quantum \<le> of_int (m - n) * f64_quantum"
      by (intro mult_right_mono) (simp_all add: less_imp_le)
    then have "f64_quantum \<le> x - y" by (simp add: mn left_diff_distrib)
    then have "0 < f64_sub x y" unfolding f64_sub_def by (rule f64_round_pos)
    with le show False by simp
  qed
qed

section \<open>Relative error\<close>

lemma f64_round_abs_error: "\<bar>f64_round x - x\<bar> \<le> f64_ulp x / 2"
proof -
  have "f64_round x - x = (of_int (round_half_even (x / f64_ulp x)) - x / f64_ulp x) * f64_ulp x"
    unfolding f64_round_def using less_imp_neq [OF f64_ulp_pos [of x]]
    by (simp add: left_diff_distrib)
  then have "\<bar>f64_round x - x\<bar> = \<bar>of_int (round_half_even (x / f64_ulp x)) - x / f64_ulp x\<bar> * f64_ulp x"
    by (simp add: abs_mult less_imp_le)
  also have "\<dots> \<le> 1 / 2 * f64_ulp x"
    using round_half_even_bounds by (intro mult_right_mono) (simp_all add: less_imp_le)
  finally show ?thesis by simp
qed

lemma f64_round_rel_error:
  assumes "1 / 2 ^ 1022 \<le> x"
  shows "\<bar>f64_round x - x\<bar> \<le> x / 2 ^ 53"
proof -
  have pos: "0 < x" using assms by (rule less_le_trans [rotated]) simp
  have "f64_ulp x / 2 \<le> x / 2 ^ 53"
  proof (cases "f64_shift x = 0")
    case False
    then show ?thesis using ulp_le_abs [of x] pos by (simp add: abs_of_pos)
  next
    case True
    have "f64_ulp x / 2 = (1 / 2 ^ 1022) / 2 ^ 53"
      by (simp add: f64_ulp_def True f64_quantum_def)
    also have "\<dots> \<le> x / 2 ^ 53" using assms by (rule divide_right_mono) simp
    finally show ?thesis .
  qed
  with f64_round_abs_error [of x] show ?thesis by linarith
qed

section \<open>Bounds of the operations\<close>

lemma f64_unit_mul: "0 \<le> x \<Longrightarrow> x \<le> 1 \<Longrightarrow> 0 \<le> y \<Longrightarrow> y \<le> 1 \<Longrightarrow> 0 \<le> f64_mul x y \<and> f64_mul x y \<le> 1"
  using f64_round_mono [of "x * y" 1] mult_le_one [of x y]
  by (simp add: f64_mul_def f64_round_nonneg)

lemma f64_unit_div: "0 \<le> x \<Longrightarrow> x \<le> y \<Longrightarrow> 0 < y \<Longrightarrow> 0 \<le> f64_div x y \<and> f64_div x y \<le> 1"
  using f64_round_mono [of "x / y" 1] by (simp add: f64_div_def f64_round_nonneg)

lemma f64_mul_mono:
  "0 \<le> x \<Longrightarrow> x \<le> x' \<Longrightarrow> 0 \<le> y \<Longrightarrow> y \<le> y' \<Longrightarrow> f64_mul x y \<le> f64_mul x' y'"
  unfolding f64_mul_def by (intro f64_round_mono mult_mono) simp_all

lemma f64_of_u64_mono: "a \<le> b \<Longrightarrow> f64_of_u64 a \<le> f64_of_u64 b"
  unfolding f64_of_u64_def by (intro f64_round_mono) (simp add: word_le_nat_alt del: of_nat_unat)

lemma f64_of_u64_zero [simp]: "f64_of_u64 0 = 0"
  by (simp add: f64_of_u64_def)

lemma f64_of_u64_nonneg [simp]: "0 \<le> f64_of_u64 a"
  unfolding f64_of_u64_def by (rule f64_round_nonneg) (simp del: of_nat_unat)

lemma f64_of_u64_ge_one: "a \<noteq> 0 \<Longrightarrow> 1 \<le> f64_of_u64 a"
  using f64_round_mono [of 1 "of_nat (unat a)"] unat_gt_0 [of a]
  unfolding f64_of_u64_def by (simp del: of_nat_unat)

end
