(* ===== verification/Routing.thy ===== *)
theory Routing
  imports Config F64
begin

text \<open>
  Upstream servers at run time (\<open>src/routing.rs\<close>, the data and \<open>UpstreamStats\<close>, \<open>UpstreamInfo\<close>):
  their counters, health state and health score. Atomics are words that wrap; each method is one
  step. An \<open>Instant\<close> or \<open>Duration\<close> is a number of nanoseconds; the clock reading \<open>Instant::now()\<close>
  is an argument. An \<open>Arc<UpstreamInfo>\<close> is an index into a heap of upstreams, so that every holder
  of the pointer sees the updates.
\<close>

section \<open>Data\<close>

datatype load_balancing_strategy =
  RoundRobin | WeightedRoundRobin | LeastConnections | ConsistentHashing | HealthAware

datatype health_state = Healthy | Unhealthy | Unknown

type_synonym instant = nat
type_synonym duration = nat

record upstream_stats =
  requests_sent :: u64
  responses_received :: u64
  failures :: u64
  active_connections :: usize
  avg_response_time_ns :: u64
  last_update :: instant

record upstream_info =
  ui_config :: upstream_config
  ui_health_state :: health_state
  ui_stats :: upstream_stats
  ui_health_failures :: usize
  ui_last_health_check :: instant

definition upstream_stats_default :: "instant \<Rightarrow> upstream_stats" where
  "upstream_stats_default now =
     \<lparr>requests_sent = 0, responses_received = 0, failures = 0, active_connections = 0,
      avg_response_time_ns = 0, last_update = now\<rparr>"

definition upstream_info_new :: "instant \<Rightarrow> upstream_config \<Rightarrow> upstream_info" where
  "upstream_info_new now config =
     \<lparr>ui_config = config, ui_health_state = Unknown, ui_stats = upstream_stats_default now,
      ui_health_failures = 0, ui_last_health_check = now\<rparr>"

section \<open>Statistics\<close>

text \<open>\<open>as_nanos() as u64\<close> keeps the low 64 bits.\<close>

definition record_success :: "instant \<Rightarrow> duration \<Rightarrow> upstream_stats \<Rightarrow> upstream_stats" where
  "record_success now response_time s =
     (let s1 = s\<lparr>requests_sent := requests_sent s + 1,
                 responses_received := responses_received s + 1\<rparr>;
          response_time_ns = (word_of_nat response_time :: u64);
          current_avg = avg_response_time_ns s1;
          new_avg = (if current_avg = 0 then response_time_ns
                     else (current_avg * 7 + response_time_ns) div 8)
      in s1\<lparr>avg_response_time_ns := new_avg, last_update := now\<rparr>)"

definition record_failure :: "instant \<Rightarrow> upstream_stats \<Rightarrow> upstream_stats" where
  "record_failure now s =
     s\<lparr>requests_sent := requests_sent s + 1, failures := failures s + 1, last_update := now\<rparr>"

definition increment_connections :: "upstream_stats \<Rightarrow> usize \<times> upstream_stats" where
  "increment_connections s =
     (active_connections s + 1, s\<lparr>active_connections := active_connections s + 1\<rparr>)"

text \<open>The counter itself wraps below zero; only the returned value saturates.\<close>

definition decrement_connections :: "upstream_stats \<Rightarrow> usize \<times> upstream_stats" where
  "decrement_connections s =
     (let old = active_connections s
      in (if old = 0 then 0 else old - 1, s\<lparr>active_connections := old - 1\<rparr>))"

definition success_rate :: "upstream_stats \<Rightarrow> f64" where
  "success_rate s =
     (let requests = requests_sent s
      in if requests = 0 then 1
         else f64_div (f64_of_u64 (responses_received s)) (f64_of_u64 requests))"

definition avg_response_time_ms :: "upstream_stats \<Rightarrow> f64" where
  "avg_response_time_ms s = f64_div (f64_of_u64 (avg_response_time_ns s)) 1000000"

section \<open>Health\<close>

definition base_score :: "health_state \<Rightarrow> f64" where
  "base_score h = (case h of Healthy \<Rightarrow> 1 | Unknown \<Rightarrow> 1 / 2 | Unhealthy \<Rightarrow> f64_round (1 / 10))"

definition latency_factor :: "f64 \<Rightarrow> f64" where
  "latency_factor response_time_ms =
     (if 1000 < response_time_ms then 1 / 2
      else if 500 < response_time_ms then f64_round (7 / 10)
      else if 100 < response_time_ms then f64_round (9 / 10)
      else 1)"

definition health_score :: "upstream_info \<Rightarrow> f64" where
  "health_score u =
     f64_mul (f64_mul (base_score (ui_health_state u)) (success_rate (ui_stats u)))
       (latency_factor (avg_response_time_ms (ui_stats u)))"

definition set_health_state :: "instant \<Rightarrow> health_state \<Rightarrow> upstream_info \<Rightarrow> upstream_info" where
  "set_health_state now state u =
     (let u1 = u\<lparr>ui_health_state := state, ui_last_health_check := now\<rparr>
      in case state of
           Healthy \<Rightarrow> u1\<lparr>ui_health_failures := 0\<rparr>
         | Unhealthy \<Rightarrow> u1\<lparr>ui_health_failures := ui_health_failures u1 + 1\<rparr>
         | Unknown \<Rightarrow> u1)"

definition is_available :: "upstream_info \<Rightarrow> bool" where
  "is_available u = (ui_health_state u = Healthy \<or> ui_health_state u = Unknown)"

section \<open>The heap of upstreams\<close>

type_synonym arc = nat
type_synonym upstream_heap = "upstream_info list"

definition arc_new :: "upstream_info \<Rightarrow> upstream_heap \<Rightarrow> arc \<times> upstream_heap" where
  "arc_new u h = (length h, h @ [u])"

definition on_stats ::
  "(upstream_stats \<Rightarrow> upstream_stats) \<Rightarrow> arc \<Rightarrow> upstream_heap \<Rightarrow> upstream_heap" where
  "on_stats f p h = h[p := (h ! p)\<lparr>ui_stats := f (ui_stats (h ! p))\<rparr>]"

definition heap_available :: "upstream_heap \<Rightarrow> arc \<Rightarrow> bool" where
  "heap_available h p = is_available (h ! p)"

lemma length_on_stats [simp, frame_simps]: "length (on_stats f p h) = length h"
  by (simp add: on_stats_def)

lemma on_stats_nth [frame_simps]:
  "q < length h \<Longrightarrow> on_stats f p h ! q =
     (if p = q then (h ! q)\<lparr>ui_stats := f (ui_stats (h ! q))\<rparr> else h ! q)"
  by (simp add: on_stats_def nth_list_update)

lemma on_stats_config [simp, frame_simps]: "ui_config (on_stats f p h ! q) = ui_config (h ! q)"
  by (cases "p < length h") (simp_all add: on_stats_def nth_list_update list_update_beyond)

lemma on_stats_health [simp, frame_simps]:
  "ui_health_state (on_stats f p h ! q) = ui_health_state (h ! q)"
  by (cases "p < length h") (simp_all add: on_stats_def nth_list_update list_update_beyond)

lemma heap_available_on_stats [simp]: "heap_available (on_stats f p h) = heap_available h"
  by (simp add: fun_eq_iff heap_available_def is_available_def)

section \<open>Counters\<close>

text \<open>
  Every recorded request is a response or a failure: an equation of words, so it survives
  wrap-around.
\<close>

definition stats_balanced :: "upstream_stats \<Rightarrow> bool" where
  "stats_balanced s \<longleftrightarrow> requests_sent s = responses_received s + failures s"

lemma stats_balanced_default: "stats_balanced (upstream_stats_default now)"
  by (simp add: stats_balanced_def upstream_stats_default_def)

lemma stats_balanced_record [intro]:
  "stats_balanced s \<Longrightarrow> stats_balanced (record_success now d s)"
  "stats_balanced s \<Longrightarrow> stats_balanced (record_failure now s)"
  "stats_balanced s \<Longrightarrow> stats_balanced (snd (increment_connections s))"
  "stats_balanced s \<Longrightarrow> stats_balanced (snd (decrement_connections s))"
  by (simp_all add: stats_balanced_def record_success_def record_failure_def Let_def
      increment_connections_def decrement_connections_def)

text \<open>A history of calls on one upstream's statistics.\<close>

datatype stats_event = Success instant duration | Failure instant | Open | Close

fun stats_step :: "upstream_stats \<Rightarrow> stats_event \<Rightarrow> upstream_stats" where
  "stats_step s (Success now d) = record_success now d s"
| "stats_step s (Failure now) = record_failure now s"
| "stats_step s Open = snd (increment_connections s)"
| "stats_step s Close = snd (decrement_connections s)"

definition stats_run :: "upstream_stats \<Rightarrow> stats_event list \<Rightarrow> upstream_stats" where
  "stats_run = foldl stats_step"

fun is_success :: "stats_event \<Rightarrow> bool" where
  "is_success (Success _ _) = True"
| "is_success _ = False"

fun is_failure :: "stats_event \<Rightarrow> bool" where
  "is_failure (Failure _) = True"
| "is_failure _ = False"

definition count_of :: "('a \<Rightarrow> bool) \<Rightarrow> 'a list \<Rightarrow> nat" where
  "count_of P xs = length (filter P xs)"

lemma stats_step_counters:
  "responses_received (stats_step s e) = responses_received s + (if is_success e then 1 else 0)"
  "failures (stats_step s e) = failures s + (if is_failure e then 1 else 0)"
  "requests_sent (stats_step s e) =
     requests_sent s + (if is_success e \<or> is_failure e then 1 else 0)"
  "active_connections (stats_step s e) =
     active_connections s + (if e = Open then 1 else if e = Close then - 1 else 0)"
  by (cases e; simp add: record_success_def record_failure_def Let_def increment_connections_def
      decrement_connections_def)+

lemma stats_run_counters:
  "responses_received (stats_run s es) = responses_received s + word_of_nat (count_of is_success es)"
  "failures (stats_run s es) = failures s + word_of_nat (count_of is_failure es)"
  "requests_sent (stats_run s es) =
     requests_sent s + word_of_nat (count_of (\<lambda>e. is_success e \<or> is_failure e) es)"
  "active_connections (stats_run s es) =
     active_connections s + word_of_nat (count_of ((=) Open) es) - word_of_nat (count_of ((=) Close) es)"
  by (induction es arbitrary: s; simp add: stats_run_def count_of_def stats_step_counters)+

lemma count_of_le_length: "count_of P xs \<le> length xs"
  by (simp add: count_of_def)

lemma stats_run_unat:
  fixes now :: instant
  assumes "length es < 2 ^ 64"
  defines "s \<equiv> stats_run (upstream_stats_default now) es"
  shows "unat (responses_received s) = count_of is_success es"
    and "unat (failures s) = count_of is_failure es"
    and "unat (requests_sent s) = count_of is_success es + count_of is_failure es"
proof -
  let ?P = "\<lambda>e. is_success e \<or> is_failure e"
  have le: "count_of P es < 2 ^ 64" for P
    using count_of_le_length [of P es] assms by linarith
  have sum: "count_of ?P xs = count_of is_success xs + count_of is_failure xs" for xs
  proof (induction xs)
    case (Cons e xs)
    then show ?case by (cases e) (simp_all add: count_of_def)
  qed (simp add: count_of_def)
  show "unat (responses_received s) = count_of is_success es"
    and "unat (failures s) = count_of is_failure es"
    using le unfolding s_def
    by (simp_all add: stats_run_counters upstream_stats_default_def unat_of_nat_small)
  have "unat (requests_sent s) = count_of ?P es"
    using le [of ?P] unfolding s_def stats_run_counters upstream_stats_default_def
    by (simp add: unat_of_nat_small del: of_nat_add)
  then show "unat (requests_sent s) = count_of is_success es + count_of is_failure es"
    by (simp add: sum)
qed

section \<open>The response-time average\<close>

lemma record_success_first:
  "avg_response_time_ns s = 0 \<Longrightarrow>
     avg_response_time_ns (record_success now d s) = word_of_nat d"
  by (simp add: record_success_def Let_def)

lemma record_success_avg:
  assumes "avg_response_time_ns s \<noteq> 0" "d < 2 ^ 64"
    and "unat (avg_response_time_ns s) * 7 + d < 2 ^ 64"
  shows "unat (avg_response_time_ns (record_success now d s)) =
     (unat (avg_response_time_ns s) * 7 + d) div 8"
proof -
  have "unat (avg_response_time_ns s * 7) = unat (avg_response_time_ns s) * 7"
    using assms(3) by (simp add: unat_word_ariths)
  moreover from this have
    "unat (avg_response_time_ns s * 7 + word_of_nat d) = unat (avg_response_time_ns s) * 7 + d"
    using assms by (subst unat_plus_no_wrap) (simp_all add: unat_of_nat_small)
  ultimately show ?thesis
    using assms(1) by (simp add: record_success_def Let_def unat_div)
qed

text \<open>The new average lies between the old one and the sample.\<close>

lemma ewma_between:
  fixes a d :: nat
  shows "min a d \<le> (a * 7 + d) div 8" "(a * 7 + d) div 8 \<le> max a d"
  by (simp_all add: min_def max_def) linarith+

section \<open>Success rate and health score\<close>

lemma f64_of_u64_le: "f64_of_u64 n \<le> 2 ^ 64"
proof -
  have "of_nat (unat n) \<le> (2 :: rat) ^ 64"
    using unat_u64_bound [of n] by (metis less_imp_le of_nat_le_iff of_nat_numeral of_nat_power)
  then have "f64_round (of_nat (unat n)) \<le> f64_round (2 ^ 64)" by (rule f64_round_mono)
  also have "f64_round (2 ^ 64) = (2 :: rat) ^ 64"
    by (rule f64_round_exact [of _ 1 "1074 + 64"]) (simp_all add: f64_quantum_def)
  finally show ?thesis by (simp add: f64_of_u64_def)
qed

lemma success_rate_nonneg: "0 \<le> success_rate s"
  by (simp add: success_rate_def Let_def f64_div_def f64_round_nonneg)

lemma success_rate_le_one:
  assumes "responses_received s \<le> requests_sent s"
  shows "success_rate s \<le> 1"
proof (cases "requests_sent s = 0")
  case False
  then have "0 < f64_of_u64 (requests_sent s)" using f64_of_u64_ge_one by fastforce
  with False assms show ?thesis
    using f64_unit_div [OF f64_of_u64_nonneg f64_of_u64_mono [OF assms]]
    by (simp add: success_rate_def Let_def)
qed (simp add: success_rate_def)

definition never_succeeded :: "upstream_stats \<Rightarrow> bool" where
  "never_succeeded s \<longleftrightarrow> requests_sent s \<noteq> 0 \<and> responses_received s = 0"

lemma success_rate_zero: "never_succeeded s \<Longrightarrow> success_rate s = 0"
  by (simp add: never_succeeded_def success_rate_def f64_div_def)

lemma success_rate_lower:
  assumes "\<not> never_succeeded s"
  shows "1 / 2 ^ 64 \<le> success_rate s"
proof (cases "requests_sent s = 0")
  case False
  with assms have "responses_received s \<noteq> 0" by (simp add: never_succeeded_def)
  then have r: "1 \<le> f64_of_u64 (responses_received s)" by (rule f64_of_u64_ge_one)
  have q: "1 \<le> f64_of_u64 (requests_sent s)" using False by (rule f64_of_u64_ge_one)
  have "1 / 2 ^ 64 \<le> f64_of_u64 (responses_received s) / f64_of_u64 (requests_sent s)"
    using r q f64_of_u64_le [of "requests_sent s"] by (intro frac_le) linarith+
  then have "f64_round (1 / 2 ^ 64) \<le> success_rate s"
    using False by (simp add: success_rate_def Let_def f64_div_def f64_round_mono)
  then show ?thesis using f64_round_dyadic [of 1 64] by simp
qed (simp add: success_rate_def)

lemma base_score_bounds: "1 / 2 ^ 4 \<le> base_score h" "base_score h \<le> 1"
proof -
  have "f64_round (1 / 2 ^ 4) \<le> f64_round (1 / 10)" "f64_round (1 / 10) \<le> f64_round 1"
    by (rule f64_round_mono; simp)+
  then show "1 / 2 ^ 4 \<le> base_score h" "base_score h \<le> 1"
    using f64_round_dyadic [of 1 4] by (auto simp: base_score_def split: health_state.splits)
qed

lemma latency_factor_bounds: "1 / 2 \<le> latency_factor t" "latency_factor t \<le> 1"
proof -
  have "f64_round (1 / 2) \<le> f64_round (7 / 10)" "f64_round (7 / 10) \<le> f64_round 1"
    "f64_round (1 / 2) \<le> f64_round (9 / 10)" "f64_round (9 / 10) \<le> f64_round 1"
    by (rule f64_round_mono; simp)+
  then show "1 / 2 \<le> latency_factor t" "latency_factor t \<le> 1"
    by (auto simp: latency_factor_def)
qed

lemma latency_factor_antimono: "s \<le> t \<Longrightarrow> latency_factor t \<le> latency_factor s"
proof -
  have "f64_round (7 / 10) \<le> f64_round (9 / 10)" by (rule f64_round_mono) simp
  then show "s \<le> t \<Longrightarrow> ?thesis"
    using latency_factor_bounds [of s] latency_factor_bounds [of t]
    by (auto simp: latency_factor_def split: if_splits)
qed

lemma health_score_nonneg: "0 \<le> health_score u"
  using base_score_bounds(1) [of "ui_health_state u"]
    latency_factor_bounds(1) [of "avg_response_time_ms (ui_stats u)"]
  by (simp add: health_score_def f64_mul_def f64_round_nonneg success_rate_nonneg)

lemma health_score_le_one:
  assumes "responses_received (ui_stats u) \<le> requests_sent (ui_stats u)"
  shows "health_score u \<le> 1"
proof -
  have b: "0 \<le> base_score (ui_health_state u)"
    using base_score_bounds(1) [of "ui_health_state u"] by (rule order_trans [rotated]) simp
  have l: "0 \<le> latency_factor (avg_response_time_ms (ui_stats u))"
    using latency_factor_bounds(1) by (rule order_trans [rotated]) simp
  show ?thesis
    unfolding health_score_def
    using f64_unit_mul b l base_score_bounds(2) latency_factor_bounds(2)
      success_rate_nonneg success_rate_le_one [OF assms] by blast
qed

lemma health_score_zero: "never_succeeded (ui_stats u) \<Longrightarrow> health_score u = 0"
  by (simp add: health_score_def success_rate_zero f64_mul_def)

text \<open>A product of lower bounds that are powers of two is not lost by rounding.\<close>

lemma f64_mul_dyadic_lower:
  assumes "1 / 2 ^ i \<le> x" "1 / 2 ^ j \<le> y" "i + j \<le> 1074"
  shows "1 / 2 ^ (i + j) \<le> f64_mul x y"
proof -
  have "1 / 2 ^ i * (1 / 2 ^ j) \<le> x * y"
    using assms order_trans [OF _ assms(1), of 0] by (intro mult_mono) simp_all
  then have "f64_round (1 / 2 ^ (i + j)) \<le> f64_mul x y"
    unfolding f64_mul_def by (intro f64_round_mono) (simp add: power_add)
  then show ?thesis using f64_round_dyadic [of 1 "i + j"] assms by simp
qed

lemma health_score_lower:
  assumes "\<not> never_succeeded (ui_stats u)"
  shows "1 / 2 ^ 69 \<le> health_score u"
proof -
  have "1 / 2 ^ (4 + 64) \<le> f64_mul (base_score (ui_health_state u)) (success_rate (ui_stats u))"
    using base_score_bounds(1) success_rate_lower [OF assms] by (rule f64_mul_dyadic_lower) simp
  then have "1 / 2 ^ (4 + 64 + 1) \<le> health_score u"
    unfolding health_score_def
    by (rule f64_mul_dyadic_lower) (use latency_factor_bounds(1) in simp_all)
  then show ?thesis by simp
qed

lemma health_score_pos_iff: "0 < health_score u \<longleftrightarrow> \<not> never_succeeded (ui_stats u)"
proof
  assume "0 < health_score u"
  then show "\<not> never_succeeded (ui_stats u)" using health_score_zero by force
next
  assume "\<not> never_succeeded (ui_stats u)"
  then have "1 / 2 ^ 69 \<le> health_score u" by (rule health_score_lower)
  then show "0 < health_score u" by (rule less_le_trans [rotated]) simp
qed

section \<open>Properties\<close>

text \<open>C32: The counters of an upstream tell its history: after any sequence of fewer than 2^64
recorded successes, failures, opened and closed connections, the three request counters are the
numbers of those events and the active count is openings minus closings, modulo 2^64.\<close>

theorem stats_tell_history:
  assumes "length es < 2 ^ 64"
  shows "let s = stats_run (upstream_stats_default now) es
    in unat (responses_received s) = count_of is_success es \<and>
       unat (failures s) = count_of is_failure es \<and>
       unat (requests_sent s) = count_of is_success es + count_of is_failure es \<and>
       active_connections s =
         word_of_nat (count_of ((=) Open) es) - word_of_nat (count_of ((=) Close) es)"
  using stats_run_unat [OF assms, of now] stats_run_counters(4) [of "upstream_stats_default now" es]
  by (simp add: Let_def upstream_stats_default_def)

lemma stats_tell_history_witness:
  "unat (requests_sent (stats_run (upstream_stats_default 0) [Success 1 5, Failure 2, Open])) = 2"
  using stats_tell_history [of "[Success 1 5, Failure 2, Open]" 0]
  by (simp add: Let_def count_of_def)

text \<open>C33: The health score of an upstream with such a history is between 0 and 1, and it is 0
exactly when requests were made and none of them succeeded.\<close>

theorem health_score_bounds:
  assumes "length es < 2 ^ 64" "ui_stats u = stats_run (upstream_stats_default now) es"
  shows "0 \<le> health_score u \<and> health_score u \<le> 1 \<and>
    (health_score u = 0 \<longleftrightarrow> never_succeeded (ui_stats u))"
proof -
  have "responses_received (ui_stats u) \<le> requests_sent (ui_stats u)"
    using stats_run_unat [OF assms(1), of now] by (simp add: assms(2) word_le_nat_alt)
  then show ?thesis
    using health_score_le_one [of u] health_score_pos_iff [of u] health_score_nonneg [of u]
    by force
qed

lemma health_score_bounds_witness:
  "health_score (upstream_info_new 0 (test_upstream ''a'' 1)) \<le> 1"
  using health_score_bounds [of "[]" "upstream_info_new 0 (test_upstream ''a'' 1)" 0]
  by (simp add: upstream_info_new_def stats_run_def)

text \<open>The response-time average never leaves the range of the old average and the new sample,
as long as seven times the average plus the sample fits into 64 bits.\<close>

lemma response_average_between:
  assumes "avg_response_time_ns s \<noteq> 0" "unat (avg_response_time_ns s) * 7 + d < 2 ^ 64"
  shows "min (unat (avg_response_time_ns s)) d \<le> unat (avg_response_time_ns (record_success now d s)) \<and>
    unat (avg_response_time_ns (record_success now d s)) \<le> max (unat (avg_response_time_ns s)) d"
  using record_success_avg [OF assms(1) _ assms(2), of now] assms(2) ewma_between
  by simp

end
