(* ===== verification/Hash_Ring.thy ===== *)
theory Hash_Ring
  imports Routing
begin

text \<open>
  The consistent-hash ring (\<open>ConsistentHashRing\<close> in \<open>src/routing.rs\<close>). The hash function (AHash)
  is the argument \<open>hasher\<close>; nothing is assumed of it, not even that it has no collisions. The map
  from hash to upstream index is an \<open>AHashMap\<close>, a wrapper of the standard \<open>HashMap\<close>.
\<close>

section \<open>The ring\<close>

record hash_ring =
  hr_ring :: "u64 \<rightharpoonup> nat"
  hr_sorted_hashes :: "u64 list"
  hr_virtual_nodes :: usize

definition hash_ring_new :: "usize \<Rightarrow> hash_ring" where
  "hash_ring_new virtual_nodes =
     \<lparr>hr_ring = Map.empty, hr_sorted_hashes = [], hr_virtual_nodes = virtual_nodes\<rparr>"

text \<open>The key \<open>name:n\<close> of a virtual node.\<close>

definition virtual_key :: "string \<Rightarrow> nat \<Rightarrow> string" where
  "virtual_key name n = name @ '':'' @ show_nat n"

fun add_virtual_nodes :: "(string \<Rightarrow> u64) \<Rightarrow> string \<Rightarrow> nat \<Rightarrow> nat list \<Rightarrow> hash_ring \<Rightarrow> hash_ring" where
  "add_virtual_nodes hasher name idx [] r = r"
| "add_virtual_nodes hasher name idx (n # ns) r =
     (let hash = hasher (virtual_key name n)
      in add_virtual_nodes hasher name idx ns
           (r\<lparr>hr_ring := (hr_ring r)(hash \<mapsto> idx),
              hr_sorted_hashes := hr_sorted_hashes r @ [hash]\<rparr>))"

fun add_upstreams ::
  "(string \<Rightarrow> u64) \<Rightarrow> upstream_heap \<Rightarrow> nat \<Rightarrow> arc list \<Rightarrow> hash_ring \<Rightarrow> hash_ring" where
  "add_upstreams hasher h idx [] r = r"
| "add_upstreams hasher h idx (p # ps) r =
     (if \<not> heap_available h p then add_upstreams hasher h (Suc idx) ps r
      else add_upstreams hasher h (Suc idx) ps
             (add_virtual_nodes hasher (up_name (ui_config (h ! p))) idx
                [0..<unat (hr_virtual_nodes r)] r))"

definition ring_update ::
  "(string \<Rightarrow> u64) \<Rightarrow> upstream_heap \<Rightarrow> arc list \<Rightarrow> hash_ring \<Rightarrow> hash_ring" where
  "ring_update hasher h ups r =
     (let r1 = add_upstreams hasher h 0 ups (r\<lparr>hr_ring := Map.empty, hr_sorted_hashes := []\<rparr>)
      in r1\<lparr>hr_sorted_hashes := sort (hr_sorted_hashes r1)\<rparr>)"

text \<open>
  \<open>binary_search\<close> of the standard library: \<open>Inr\<close> (\<open>Ok\<close>) with an index that holds the value, or
  \<open>Inl\<close> (\<open>Err\<close>) with the index where it would be inserted.
\<close>

function binary_search_loop :: "'a::linorder list \<Rightarrow> 'a \<Rightarrow> nat \<Rightarrow> nat \<Rightarrow> nat + nat" where
  "binary_search_loop xs x left right =
     (if left < right then
        (let mid = left + (right - left) div 2
         in if xs ! mid < x then binary_search_loop xs x (mid + 1) right
            else if x < xs ! mid then binary_search_loop xs x left mid
            else Inr mid)
      else Inl left)"
  by pat_completeness auto
termination
  by (relation "measure (\<lambda>(xs, x, left, right). right - left)") auto

declare binary_search_loop.simps [simp del]

definition binary_search :: "'a::linorder list \<Rightarrow> 'a \<Rightarrow> nat + nat" where
  "binary_search xs x = binary_search_loop xs x 0 (length xs)"

definition ring_get_upstream :: "(string \<Rightarrow> u64) \<Rightarrow> hash_ring \<Rightarrow> string \<Rightarrow> nat option" where
  "ring_get_upstream hasher r key =
     (if hr_sorted_hashes r = [] then None
      else
        let hash = hasher key;
            idx = (case binary_search (hr_sorted_hashes r) hash of
                     Inr idx \<Rightarrow> idx
                   | Inl idx \<Rightarrow> if idx = length (hr_sorted_hashes r) then 0 else idx);
            hash_value = hr_sorted_hashes r ! idx
        in hr_ring r hash_value)"

section \<open>Binary search\<close>

lemma binary_search_loop_spec:
  assumes "sorted xs" "left \<le> right" "right \<le> length xs"
    and "\<forall>j < left. xs ! j < x" "\<forall>j. right \<le> j \<longrightarrow> j < length xs \<longrightarrow> x < xs ! j"
  shows "case binary_search_loop xs x left right of
      Inr i \<Rightarrow> i < length xs \<and> xs ! i = x
    | Inl i \<Rightarrow> i \<le> length xs \<and> (\<forall>j < i. xs ! j < x) \<and> (\<forall>j. i \<le> j \<longrightarrow> j < length xs \<longrightarrow> x < xs ! j)"
  using assms
proof (induction xs x left right rule: binary_search_loop.induct)
  case (1 xs x left right)
  let ?mid = "left + (right - left) div 2"
  show ?case
  proof (cases "left < right")
    case True
    then have mid: "?mid < right" "?mid < length xs" using "1.prems" by auto
    note mono = sorted_nth_mono [OF "1.prems"(1)]
    consider "xs ! ?mid < x" | "x < xs ! ?mid" | "xs ! ?mid = x" by fastforce
    then show ?thesis
    proof cases
      case 1
      have "\<forall>j < ?mid + 1. xs ! j < x"
      proof (intro allI impI)
        fix j
        assume "j < ?mid + 1"
        then have "xs ! j \<le> xs ! ?mid" using mid(2) by (intro mono) simp_all
        with 1 show "xs ! j < x" by simp
      qed
      with "1.IH"(1) [OF True refl 1] "1.prems" mid True 1 show ?thesis
        by (simp add: binary_search_loop.simps [of xs x left right] Let_def)
    next
      case 2
      have "\<forall>j. ?mid \<le> j \<longrightarrow> j < length xs \<longrightarrow> x < xs ! j"
      proof (intro allI impI)
        fix j
        assume "?mid \<le> j" "j < length xs"
        then have "xs ! ?mid \<le> xs ! j" by (rule mono)
        with 2 show "x < xs ! j" by simp
      qed
      moreover have "\<not> xs ! ?mid < x" using 2 by simp
      ultimately show ?thesis using "1.IH"(2) [OF True refl _ 2] "1.prems" mid True 2
        by (simp add: binary_search_loop.simps [of xs x left right] Let_def)
    next
      case 3
      with True mid show ?thesis
        by (simp add: binary_search_loop.simps [of xs x left right] Let_def)
    qed
  next
    case False
    then have "left = right" using "1.prems" by simp
    moreover have "binary_search_loop xs x left right = Inl left"
      using False by (subst binary_search_loop.simps) simp
    ultimately show ?thesis using "1.prems" by simp
  qed
qed

lemma binary_search_Inr:
  assumes "sorted xs" "binary_search xs x = Inr i"
  shows "i < length xs" "xs ! i = x"
  using binary_search_loop_spec [OF assms(1), of 0 "length xs" x] assms(2)
  by (simp_all add: binary_search_def)

lemma binary_search_Inl:
  assumes "sorted xs" "binary_search xs x = Inl i"
  shows "i \<le> length xs" "j < i \<Longrightarrow> xs ! j < x" "i \<le> j \<Longrightarrow> j < length xs \<Longrightarrow> x < xs ! j"
  using binary_search_loop_spec [OF assms(1), of 0 "length xs" x] assms(2)
  by (simp_all add: binary_search_def)

section \<open>The ring as a list of entries\<close>

text \<open>
  The specification: the virtual nodes in insertion order, with their owners. A key belongs to the
  least node hash that is not below the key's hash, or to the least of all (the ring wraps); of two
  nodes with the same hash the later one owns it.
\<close>

definition node_entries :: "(string \<Rightarrow> u64) \<Rightarrow> nat \<Rightarrow> string \<Rightarrow> nat \<Rightarrow> (u64 \<times> nat) list" where
  "node_entries hasher v name idx = map (\<lambda>n. (hasher (virtual_key name n), idx)) [0..<v]"

fun ring_entries ::
  "(string \<Rightarrow> u64) \<Rightarrow> nat \<Rightarrow> upstream_heap \<Rightarrow> nat \<Rightarrow> arc list \<Rightarrow> (u64 \<times> nat) list" where
  "ring_entries hasher v h idx [] = []"
| "ring_entries hasher v h idx (p # ps) =
     (if heap_available h p then node_entries hasher v (up_name (ui_config (h ! p))) idx else []) @
     ring_entries hasher v h (Suc idx) ps"

definition ring_target :: "u64 list \<Rightarrow> u64 \<Rightarrow> u64" where
  "ring_target hs x =
     (let ge = filter ((\<le>) x) hs in if ge = [] then Min (set hs) else Min (set ge))"

definition ring_owner :: "(u64 \<times> nat) list \<Rightarrow> u64 \<Rightarrow> nat option" where
  "ring_owner es x = (if es = [] then None else map_of (rev es) (ring_target (map fst es) x))"

lemma add_virtual_nodes_eq:
  "add_virtual_nodes hasher name idx ns r =
     r\<lparr>hr_ring := hr_ring r ++ map_of (rev (map (\<lambda>n. (hasher (virtual_key name n), idx)) ns)),
       hr_sorted_hashes := hr_sorted_hashes r @ map (\<lambda>n. hasher (virtual_key name n)) ns\<rparr>"
  by (induction ns arbitrary: r) (simp_all add: Let_def map_add_def fun_eq_iff split: option.splits)

lemma add_upstreams_eq:
  "add_upstreams hasher h idx ps r =
     (let es = ring_entries hasher (unat (hr_virtual_nodes r)) h idx ps
      in r\<lparr>hr_ring := hr_ring r ++ map_of (rev es),
           hr_sorted_hashes := hr_sorted_hashes r @ map fst es\<rparr>)"
proof (induction ps arbitrary: idx r)
  case (Cons p ps)
  then show ?case
    by (simp add: add_virtual_nodes_eq node_entries_def Let_def o_def)
qed simp

lemma ring_update_eq:
  "ring_update hasher h ups r =
     (let es = ring_entries hasher (unat (hr_virtual_nodes r)) h 0 ups
      in r\<lparr>hr_ring := map_of (rev es), hr_sorted_hashes := sort (map fst es)\<rparr>)"
  by (simp add: ring_update_def add_upstreams_eq Let_def)

lemma ring_target_cong: "set xs = set ys \<Longrightarrow> ring_target xs x = ring_target ys x"
  by (simp add: ring_target_def Let_def filter_empty_conv)

lemma sorted_search_target:
  assumes "sorted xs" "xs \<noteq> []"
  shows "xs ! (case binary_search xs x of Inr i \<Rightarrow> i | Inl i \<Rightarrow> if i = length xs then 0 else i) =
    ring_target xs x"
proof (cases "binary_search xs x")
  case (Inr i)
  with binary_search_Inr [OF assms(1) Inr] have i: "i < length xs" "xs ! i = x" by simp_all
  then have "x \<in> set xs" by auto
  then have "filter ((\<le>) x) xs \<noteq> []" "Min (set (filter ((\<le>) x) xs)) = x"
    by (auto simp: filter_empty_conv intro!: Min_eqI)
  with Inr i show ?thesis by (simp add: ring_target_def Let_def)
next
  case (Inl i)
  note spec = binary_search_Inl [OF assms(1) Inl]
  show ?thesis
  proof (cases "i = length xs")
    case True
    with spec(2) have "filter ((\<le>) x) xs = []"
      by (force simp: filter_empty_conv in_set_conv_nth)
    moreover have "Min (set xs) = xs ! 0"
      using assms sorted_nth_mono [OF assms(1), of 0]
      by (intro Min_eqI) (auto simp: in_set_conv_nth)
    ultimately show ?thesis using Inl True by (simp add: ring_target_def)
  next
    case False
    with spec(1) have i: "i < length xs" by simp
    have mem: "xs ! i \<in> set (filter ((\<le>) x) xs)" using i spec(3) [of i] by (simp add: less_imp_le)
    moreover have "xs ! i \<le> y" if "y \<in> set (filter ((\<le>) x) xs)" for y
    proof -
      from that obtain j where j: "j < length xs" "xs ! j = y" "x \<le> y"
        by (auto simp: in_set_conv_nth)
      then have "i \<le> j" using spec(2) [of j] by (meson leD leI)
      then show ?thesis using sorted_nth_mono [OF assms(1)] j by blast
    qed
    ultimately have "Min (set (filter ((\<le>) x) xs)) = xs ! i" by (intro Min_eqI) auto
    moreover from mem have "filter ((\<le>) x) xs \<noteq> []" by (metis empty_iff list.set(1))
    ultimately show ?thesis using Inl False by (simp add: ring_target_def Let_def)
  qed
qed

section \<open>Lookup is ownership\<close>

lemma ring_get_upstream_owner:
  "ring_get_upstream hasher (ring_update hasher h ups r) key =
     ring_owner (ring_entries hasher (unat (hr_virtual_nodes r)) h 0 ups) (hasher key)"
proof -
  let ?es = "ring_entries hasher (unat (hr_virtual_nodes r)) h 0 ups"
  let ?hs = "sort (map fst ?es)"
  show ?thesis
  proof (cases "?es = []")
    case True
    then show ?thesis by (simp add: ring_get_upstream_def ring_update_eq ring_owner_def Let_def)
  next
    case False
    then have "?hs \<noteq> []" by (metis length_0_conv length_map length_sort)
    note search = sorted_search_target [OF sorted_sort this, of "hasher key"]
    have fields: "hr_sorted_hashes (ring_update hasher h ups r) = ?hs"
        "hr_ring (ring_update hasher h ups r) = map_of (rev ?es)"
      by (simp_all add: ring_update_eq Let_def)
    have "ring_get_upstream hasher (ring_update hasher h ups r) key =
        map_of (rev ?es) (ring_target ?hs (hasher key))"
      unfolding ring_get_upstream_def Let_def fields search using \<open>?hs \<noteq> []\<close> by (rule if_not_P)
    also have "ring_target ?hs (hasher key) = ring_target (map fst ?es) (hasher key)"
      by (rule ring_target_cong) simp
    finally show ?thesis using False by (simp add: ring_owner_def)
  qed
qed

lemma ring_target_in:
  assumes "hs \<noteq> []"
  shows "ring_target hs x \<in> set hs"
proof (cases "filter ((\<le>) x) hs = []")
  case True
  with assms show ?thesis by (simp add: ring_target_def)
next
  case False
  then have "Min (set (filter ((\<le>) x) hs)) \<in> set (filter ((\<le>) x) hs)"
    by (metis List.finite_set Min_in set_empty)
  with False show ?thesis by (simp add: ring_target_def Let_def)
qed

lemma ring_owner_entry:
  "ring_owner es x = Some i \<Longrightarrow> (ring_target (map fst es) x, i) \<in> set es"
  by (auto simp: ring_owner_def split: if_splits dest: map_of_SomeD)

lemma ring_owner_None: "ring_owner es x = None \<longleftrightarrow> es = []"
proof
  assume "ring_owner es x = None"
  then show "es = []"
    using ring_target_in [of "map fst es" x]
    by (auto simp: ring_owner_def map_of_eq_None_iff split: if_splits)
qed (simp add: ring_owner_def)

lemma ring_entries_index:
  "(t, i) \<in> set (ring_entries hasher v h idx ups) \<longleftrightarrow>
     idx \<le> i \<and> i < idx + length ups \<and> heap_available h (ups ! (i - idx)) \<and>
     (\<exists>n < v. t = hasher (virtual_key (up_name (ui_config (h ! (ups ! (i - idx))))) n))"
proof (induction ups arbitrary: idx t i)
  case (Cons p ups)
  have node: "(t, i) \<in> set (node_entries hasher v name idx) \<longleftrightarrow>
      i = idx \<and> (\<exists>n < v. t = hasher (virtual_key name n))" for name t i
    by (auto simp: node_entries_def)
  show ?case
  proof (cases "i = idx")
    case True
    then show ?thesis by (auto simp: Cons.IH node)
  next
    case False
    then show ?thesis by (auto simp: Cons.IH node nth_Cons' Suc_le_eq)
  qed
qed simp

lemma ring_get_upstream_Some:
  assumes "ring_get_upstream hasher (ring_update hasher h ups r) key = Some i"
  shows "i < length ups" "heap_available h (ups ! i)"
  using ring_owner_entry [OF assms [unfolded ring_get_upstream_owner]]
  by (simp_all add: ring_entries_index)

lemma ring_entries_Nil:
  "ring_entries hasher v h idx ups = [] \<longleftrightarrow> v = 0 \<or> (\<forall>p \<in> set ups. \<not> heap_available h p)"
  by (induction ups arbitrary: idx) (auto simp: node_entries_def)

lemma ring_get_upstream_None:
  "ring_get_upstream hasher (ring_update hasher h ups r) key = None \<longleftrightarrow>
     hr_virtual_nodes r = 0 \<or> (\<forall>p \<in> set ups. \<not> heap_available h p)"
  by (simp add: ring_get_upstream_owner ring_owner_None ring_entries_Nil unat_eq_0)

section \<open>Minimal disruption\<close>

lemma map_of_filter_keep:
  "map_of l t = Some i \<Longrightarrow> Q i \<Longrightarrow> map_of (filter (Q \<circ> snd) l) t = Some i"
  by (induction l) (auto split: if_splits)

lemma ring_target_subset:
  assumes "set hs' \<subseteq> set hs" "ring_target hs x \<in> set hs'"
  shows "ring_target hs' x = ring_target hs x"
proof (cases "filter ((\<le>) x) hs = []")
  case True
  with assms(1) have "filter ((\<le>) x) hs' = []" by (auto simp: filter_empty_conv)
  moreover have "Min (set hs') = Min (set hs)"
    using assms True by (intro Min_eqI) (auto simp: ring_target_def)
  ultimately show ?thesis using True by (simp add: ring_target_def)
next
  case False
  let ?t = "ring_target hs x"
  have t: "?t = Min (set (filter ((\<le>) x) hs))" using False by (simp add: ring_target_def Let_def)
  then have "?t \<in> set (filter ((\<le>) x) hs)" using False by (metis List.finite_set Min_in set_empty)
  then have mem: "?t \<in> set (filter ((\<le>) x) hs')" using assms(2) by simp
  moreover have "Min (set (filter ((\<le>) x) hs')) = ?t"
    unfolding t using assms(1) mem [unfolded t] by (intro Min_eqI) auto
  ultimately show ?thesis by (auto simp: ring_target_def Let_def filter_empty_conv)
qed

lemma ring_owner_filter:
  assumes "ring_owner es x = Some i" "Q i"
  shows "ring_owner (filter (Q \<circ> snd) es) x = Some i"
proof -
  let ?es = "filter (Q \<circ> snd) es" and ?t = "ring_target (map fst es) x"
  from assms have mem: "(?t, i) \<in> set ?es" using ring_owner_entry by fastforce
  then have "?t \<in> set (map fst ?es)" by force
  then have t: "ring_target (map fst ?es) x = ?t" by (intro ring_target_subset) auto
  from assms have "map_of (rev es) ?t = Some i" by (simp add: ring_owner_def split: if_splits)
  then have "map_of (rev ?es) ?t = Some i"
    using assms(2) map_of_filter_keep [of "rev es" ?t i Q] by (simp add: rev_filter)
  with mem t show ?thesis by (auto simp: ring_owner_def)
qed

lemma ring_entries_restrict:
  assumes "\<forall>p \<in> set ups. ui_config (h' ! p) = ui_config (h ! p) \<and>
      (heap_available h' p \<longrightarrow> heap_available h p)"
  shows "ring_entries hasher v h' idx ups =
    filter ((\<lambda>i. heap_available h' (ups ! (i - idx))) \<circ> snd) (ring_entries hasher v h idx ups)"
  using assms
proof (induction ups arbitrary: idx)
  case (Cons p ups)
  have tail: "filter (\<lambda>e. heap_available h' ((p # ups) ! (snd e - idx)))
      (ring_entries hasher v h (Suc idx) ups) =
    filter (\<lambda>e. heap_available h' (ups ! (snd e - Suc idx))) (ring_entries hasher v h (Suc idx) ups)"
    by (rule filter_cong) (auto simp: ring_entries_index nth_Cons' Suc_le_eq)
  have head: "filter (\<lambda>e. heap_available h' ((p # ups) ! (snd e - idx)))
      (node_entries hasher v name idx) =
    (if heap_available h' p then node_entries hasher v name idx else [])" for name
    by (simp add: node_entries_def o_def filter_empty_conv)
  from Cons have "ring_entries hasher v h' (Suc idx) ups =
    filter (\<lambda>e. heap_available h' (ups ! (snd e - Suc idx))) (ring_entries hasher v h (Suc idx) ups)"
    by (simp add: o_def)
  with Cons.prems show ?case
    by (cases "heap_available h p"; cases "heap_available h' p")
      (simp_all del: nth_Cons_Suc nth_Cons_0 add: o_def tail head)
qed simp

lemma ring_minimal_disruption:
  assumes "\<forall>p \<in> set ups. ui_config (h' ! p) = ui_config (h ! p) \<and>
      (heap_available h' p \<longrightarrow> heap_available h p)"
    and "ring_get_upstream hasher (ring_update hasher h ups r) key = Some i"
    and "heap_available h' (ups ! i)"
  shows "ring_get_upstream hasher (ring_update hasher h' ups r) key = Some i"
  using ring_owner_filter [of _ _ i "\<lambda>i. heap_available h' (ups ! (i - 0))"] assms(2,3)
    ring_entries_restrict [OF assms(1), of hasher "unat (hr_virtual_nodes r)" 0]
  by (simp add: ring_get_upstream_owner)

section \<open>Properties\<close>

text \<open>Searching a sorted list finds the value if it is there; otherwise the index returned
splits the list into smaller and greater elements.\<close>

theorem binary_search_correct:
  fixes xs :: "u64 list"
  assumes "sorted xs"
  shows "case binary_search xs x of
      Inr i \<Rightarrow> i < length xs \<and> xs ! i = x
    | Inl i \<Rightarrow> x \<notin> set xs \<and> i \<le> length xs \<and>
        (\<forall>j < i. xs ! j < x) \<and> (\<forall>j. i \<le> j \<longrightarrow> j < length xs \<longrightarrow> x < xs ! j)"
proof -
  have "x \<notin> set xs" if "binary_search xs x = Inl i" for i
    using binary_search_Inl [OF assms that] by (metis in_set_conv_nth less_irrefl linorder_not_less)
  then show ?thesis
    using binary_search_Inr [OF assms, of x] binary_search_Inl [OF assms, of x]
    by (auto split: sum.splits)
qed

lemma binary_search_correct_witness:
  "case binary_search [1, 3, 5 :: u64] 4 of Inr i \<Rightarrow> False | Inl i \<Rightarrow> i \<le> 3"
  using binary_search_correct [of "[1, 3, 5]" 4]
  by (auto simp: word_le_nat_alt less_Suc_eq nth_Cons' split: sum.splits if_splits)

text \<open>C11: The ring implements its specification. After an update, the lookup of a key gives the
owner of the key: of all virtual nodes of the available upstreams the one with the least hash not
below the key's hash, or with the least hash of all; hash collisions included.\<close>

theorem ring_lookup_refines_owner:
  "ring_get_upstream hasher (ring_update hasher h ups r) key =
     ring_owner (ring_entries hasher (unat (hr_virtual_nodes r)) h 0 ups) (hasher key)"
  by (rule ring_get_upstream_owner)

end
