(* ===== verification/Load_Balancer.thy ===== *)
theory Load_Balancer
  imports Hash_Ring "HOL-Library.Multiset"
begin

text \<open>
  The load balancer (\<open>Router\<close> in \<open>src/routing.rs\<close>): its list of upstreams, the five selection
  strategies over it and the health updates. The locks make each method one step on the record
  below and on the heap of upstreams.
\<close>

section \<open>The router\<close>

record balancer =
  lb_upstreams :: "arc list"
  lb_strategy :: load_balancing_strategy
  lb_rr_counter :: usize
  lb_hash_ring :: hash_ring

definition VIRTUAL_NODES :: usize where
  "VIRTUAL_NODES = 150"

definition balancer_new :: "load_balancing_strategy \<Rightarrow> balancer" where
  "balancer_new strategy =
     \<lparr>lb_upstreams = [], lb_strategy = strategy, lb_rr_counter = 0,
      lb_hash_ring = hash_ring_new VIRTUAL_NODES\<rparr>"

definition balancer_default :: balancer where
  "balancer_default = balancer_new HealthAware"

text \<open>One fresh \<open>Arc\<close> for every configuration.\<close>

fun alloc_upstreams ::
  "instant \<Rightarrow> upstream_config list \<Rightarrow> upstream_heap \<Rightarrow> arc list \<times> upstream_heap" where
  "alloc_upstreams now [] h = ([], h)"
| "alloc_upstreams now (c # cs) h =
     (let (p, h1) = arc_new (upstream_info_new now c) h;
          (ps, h2) = alloc_upstreams now cs h1
      in (p # ps, h2))"

text \<open>The two steps of \<open>update_upstreams\<close>; another thread may run between them.\<close>

definition refresh_ring :: "(string \<Rightarrow> u64) \<Rightarrow> upstream_heap \<Rightarrow> balancer \<Rightarrow> balancer" where
  "refresh_ring hasher h lb =
     (if lb_strategy lb = ConsistentHashing
      then lb\<lparr>lb_hash_ring := ring_update hasher h (lb_upstreams lb) (lb_hash_ring lb)\<rparr>
      else lb)"

definition set_upstreams ::
  "instant \<Rightarrow> upstream_config list \<Rightarrow> upstream_heap \<times> balancer \<Rightarrow> upstream_heap \<times> balancer" where
  "set_upstreams now configs s =
     (let (h, lb) = s; (ps, h1) = alloc_upstreams now configs h
      in (h1, lb\<lparr>lb_upstreams := ps\<rparr>))"

definition update_upstreams ::
  "(string \<Rightarrow> u64) \<Rightarrow> instant \<Rightarrow> upstream_config list \<Rightarrow> upstream_heap \<times> balancer \<Rightarrow>
   (upstream_heap \<times> balancer) result" where
  "update_upstreams hasher now configs s =
     (let (h, lb) = set_upstreams now configs s in Inr (h, refresh_ring hasher h lb))"

section \<open>The strategies\<close>

text \<open>\<open>rr_counter.fetch_add(1)\<close>: the old value and the router after it.\<close>

definition next_rr :: "balancer \<Rightarrow> usize \<times> balancer" where
  "next_rr lb = (lb_rr_counter lb, lb\<lparr>lb_rr_counter := lb_rr_counter lb + 1\<rparr>)"

definition select_round_robin ::
  "upstream_heap \<Rightarrow> arc list \<Rightarrow> balancer \<Rightarrow> arc option \<times> balancer" where
  "select_round_robin h ups lb =
     (let available_upstreams = filter (heap_available h) ups
      in if available_upstreams = [] then (None, lb)
         else let (n, lb1) = next_rr lb;
                  index = unat n mod length available_upstreams
              in (Some (available_upstreams ! index), lb1))"

definition upstream_weight :: "upstream_heap \<Rightarrow> arc \<Rightarrow> nat" where
  "upstream_weight h p = unat (max (up_weight (ui_config (h ! p))) 1)"

fun weighted_upstreams :: "upstream_heap \<Rightarrow> arc list \<Rightarrow> arc list" where
  "weighted_upstreams h [] = []"
| "weighted_upstreams h (p # ps) =
     (if heap_available h p then replicate (upstream_weight h p) p else []) @
     weighted_upstreams h ps"

definition select_weighted_round_robin ::
  "upstream_heap \<Rightarrow> arc list \<Rightarrow> balancer \<Rightarrow> arc option \<times> balancer" where
  "select_weighted_round_robin h ups lb =
     (let weighted = weighted_upstreams h ups
      in if weighted = [] then (None, lb)
         else let (n, lb1) = next_rr lb;
                  index = unat n mod length weighted
              in (Some (weighted ! index), lb1))"

text \<open>\<open>Iterator::min_by_key\<close>: the first of the minimal elements.\<close>

fun min_by_key :: "('a \<Rightarrow> 'k::linorder) \<Rightarrow> 'a list \<Rightarrow> 'a option" where
  "min_by_key key [] = None"
| "min_by_key key (x # xs) =
     (case min_by_key key xs of
        None \<Rightarrow> Some x
      | Some y \<Rightarrow> if key y < key x then Some y else Some x)"

definition select_least_connections :: "upstream_heap \<Rightarrow> arc list \<Rightarrow> arc option" where
  "select_least_connections h ups =
     min_by_key (\<lambda>p. active_connections (ui_stats (h ! p))) (filter (heap_available h) ups)"

definition select_consistent_hash ::
  "(string \<Rightarrow> u64) \<Rightarrow> hash_ring \<Rightarrow> arc list \<Rightarrow> string \<Rightarrow> arc option" where
  "select_consistent_hash hasher r ups key =
     (case ring_get_upstream hasher r key of
        Some idx \<Rightarrow> if idx < length ups then Some (ups ! idx) else None
      | None \<Rightarrow> None)"

definition combined_score :: "upstream_heap \<Rightarrow> arc \<Rightarrow> f64" where
  "combined_score h p =
     (let health_score = health_score (h ! p);
          weight = f64_of_u32 (up_weight (ui_config (h ! p)))
      in f64_mul health_score weight)"

definition candidates :: "upstream_heap \<Rightarrow> arc list \<Rightarrow> (arc \<times> f64) list" where
  "candidates h ups =
     filter (\<lambda>(_, score). 0 < score)
       (map (\<lambda>p. (p, combined_score h p)) (filter (heap_available h) ups))"

text \<open>The loop that subtracts the scores; \<open>None\<close> when it runs off the end.\<close>

fun weighted_pick :: "f64 \<Rightarrow> (arc \<times> f64) list \<Rightarrow> arc option" where
  "weighted_pick random_value [] = None"
| "weighted_pick random_value ((upstream, score) # cs) =
     (let random_value = f64_sub random_value score
      in if random_value \<le> 0 then Some upstream else weighted_pick random_value cs)"

definition ha_random_value :: "usize \<Rightarrow> f64 \<Rightarrow> f64" where
  "ha_random_value n total_score =
     f64_mul (f64_div (f64_of_u64 n) (f64_of_u64 (- 1))) total_score"

definition select_health_aware ::
  "upstream_heap \<Rightarrow> arc list \<Rightarrow> balancer \<Rightarrow> arc option \<times> balancer" where
  "select_health_aware h ups lb =
     (let cands = candidates h ups
      in if cands = [] then (None, lb)
         else
           let cands = sort_key (\<lambda>c. - snd c) cands;
               total_score = f64_sum (map snd cands);
               (n, lb1) = next_rr lb
           in (case weighted_pick (ha_random_value n total_score) cands of
                 Some p \<Rightarrow> (Some p, lb1)
               | None \<Rightarrow> (Some (fst (hd cands)), lb1)))"

definition select_upstream ::
  "(string \<Rightarrow> u64) \<Rightarrow> upstream_heap \<Rightarrow> string option \<Rightarrow> balancer \<Rightarrow> arc option \<times> balancer" where
  "select_upstream hasher h session_key lb =
     (let ups = lb_upstreams lb
      in if ups = [] then (None, lb)
         else case lb_strategy lb of
           RoundRobin \<Rightarrow> select_round_robin h ups lb
         | WeightedRoundRobin \<Rightarrow> select_weighted_round_robin h ups lb
         | LeastConnections \<Rightarrow> (select_least_connections h ups, lb)
         | ConsistentHashing \<Rightarrow>
             (case session_key of
                Some key \<Rightarrow> (select_consistent_hash hasher (lb_hash_ring lb) ups key, lb)
              | None \<Rightarrow> select_round_robin h ups lb)
         | HealthAware \<Rightarrow> select_health_aware h ups lb)"

section \<open>Lookup and health updates\<close>

definition get_upstreams :: "balancer \<Rightarrow> arc list" where
  "get_upstreams lb = lb_upstreams lb"

definition get_upstream_by_name :: "upstream_heap \<Rightarrow> string \<Rightarrow> balancer \<Rightarrow> arc option" where
  "get_upstream_by_name h name lb =
     find (\<lambda>p. up_name (ui_config (h ! p)) = name) (lb_upstreams lb)"

definition update_upstream_health ::
  "(string \<Rightarrow> u64) \<Rightarrow> instant \<Rightarrow> string \<Rightarrow> health_state \<Rightarrow> upstream_heap \<times> balancer \<Rightarrow>
   upstream_heap \<times> balancer" where
  "update_upstream_health hasher now name state s =
     (let (h, lb) = s
      in case get_upstream_by_name h name lb of
           Some p \<Rightarrow>
             (let h1 = h[p := set_health_state now state (h ! p)]
              in (h1, refresh_ring hasher h1 lb))
         | None \<Rightarrow> (h, lb))"

section \<open>Library lemmas on the strategies\<close>

lemma min_by_key_None [simp]: "min_by_key key xs = None \<longleftrightarrow> xs = []"
  by (cases xs) (simp_all split: option.splits)

lemma min_by_key_mem: "min_by_key key xs = Some x \<Longrightarrow> x \<in> set xs"
  by (induction xs arbitrary: x) (auto split: option.splits if_splits)

lemma min_by_key_least: "min_by_key key xs = Some x \<Longrightarrow> y \<in> set xs \<Longrightarrow> key x \<le> key y"
proof (induction xs arbitrary: x y)
  case (Cons a xs)
  show ?case
  proof (cases "min_by_key key xs")
    case None
    with Cons show ?thesis by auto
  next
    case (Some z)
    with Cons.prems Cons.IH [OF Some] show ?thesis by (fastforce split: if_splits)
  qed
qed simp

text \<open>The minimum is the first of its kind.\<close>

lemma min_by_key_first:
  "min_by_key key xs = Some x \<Longrightarrow>
     \<exists>ys zs. xs = ys @ x # zs \<and> (\<forall>y \<in> set ys. key x < key y)"
proof (induction xs arbitrary: x)
  case (Cons a xs)
  show ?case
  proof (cases "min_by_key key xs")
    case None
    with Cons.prems show ?thesis by (intro exI [of _ "[]"]) simp
  next
    case (Some z)
    show ?thesis
    proof (cases "key z < key a")
      case True
      from Cons.IH [OF Some] obtain ys zs where "xs = ys @ z # zs" "\<forall>y \<in> set ys. key z < key y"
        by blast
      with True Some Cons.prems show ?thesis by (intro exI [of _ "a # ys"] exI [of _ zs]) auto
    next
      case False
      with Some Cons.prems show ?thesis by (intro exI [of _ "[]"] exI [of _ xs]) simp
    qed
  qed
qed simp

lemma upstream_weight_pos [simp]: "0 < upstream_weight h p"
proof -
  have "(1 :: u32) \<le> max (up_weight (ui_config (h ! p))) 1" by simp
  then have "unat (1 :: u32) \<le> upstream_weight h p"
    unfolding upstream_weight_def by (simp only: word_le_nat_alt)
  then show ?thesis by simp
qed

lemma set_weighted_upstreams: "set (weighted_upstreams h ps) = {p \<in> set ps. heap_available h p}"
  by (induction ps) (auto simp: less_not_refl3 [OF upstream_weight_pos])

lemma weighted_upstreams_Nil:
  "weighted_upstreams h ps = [] \<longleftrightarrow> (\<forall>p \<in> set ps. \<not> heap_available h p)"
  using set_weighted_upstreams [of h ps] by (metis (mono_tags, lifting) empty_Collect_eq set_empty)

lemma set_candidates:
  "set (candidates h ups) =
     {(p, combined_score h p) | p. p \<in> set ups \<and> heap_available h p \<and> 0 < combined_score h p}"
  by (auto simp: candidates_def)

lemma weighted_pick_mem: "weighted_pick v cs = Some p \<Longrightarrow> p \<in> fst ` set cs"
  by (induction v cs rule: weighted_pick.induct) (auto simp: Let_def split: if_splits)

section \<open>What every strategy promises\<close>

text \<open>
  The contract the proxies rely on. \<open>good\<close> is the router's invariant. Whatever the strategy, a pick
  is one of the router's upstreams and available, and nothing but the round-robin counter moves.
\<close>

type_synonym pick_fun = "upstream_heap \<Rightarrow> string option \<Rightarrow> balancer \<Rightarrow> arc option \<times> balancer"

text \<open>A sequence of requests, each with its session key.\<close>

fun run_picks ::
  "pick_fun \<Rightarrow> upstream_heap \<Rightarrow> string option list \<Rightarrow> balancer \<Rightarrow> arc option list \<times> balancer" where
  "run_picks pick h [] lb = ([], lb)"
| "run_picks pick h (k # ks) lb =
     (let (r, lb1) = pick h k lb; (rs, lb2) = run_picks pick h ks lb1 in (r # rs, lb2))"

locale selector =
  fixes pick :: pick_fun
    and good :: "upstream_heap \<Rightarrow> balancer \<Rightarrow> bool"
  assumes pick_sound:
      "good h lb \<Longrightarrow> pick h key lb = (Some p, lb') \<Longrightarrow> p \<in> set (lb_upstreams lb) \<and> heap_available h p"
    and pick_frame:
      "good h lb \<Longrightarrow> pick h key lb = (r, lb') \<Longrightarrow>
         (\<exists>n. lb' = lb\<lparr>lb_rr_counter := n\<rparr>) \<and> good h lb'"
begin

lemma picks_frame:
  "good h lb \<Longrightarrow> run_picks pick h ks lb = (rs, lb') \<Longrightarrow>
     (\<exists>n. lb' = lb\<lparr>lb_rr_counter := n\<rparr>) \<and> good h lb' \<and> length rs = length ks"
proof (induction ks arbitrary: lb rs)
  case Nil
  then show ?case by (auto intro: exI [of _ "lb_rr_counter lb"])
next
  case (Cons k ks)
  obtain r lb1 where k: "pick h k lb = (r, lb1)" by fastforce
  from pick_frame [OF Cons.prems(1) k] obtain n where n: "lb1 = lb\<lparr>lb_rr_counter := n\<rparr>" "good h lb1"
    by blast
  obtain rs' where "run_picks pick h ks lb1 = (rs', lb')" "rs = r # rs'"
    using Cons.prems(2) k by (auto split: prod.splits)
  with Cons.IH [of lb1 rs'] n show ?case by fastforce
qed

lemma picks_sound:
  "good h lb \<Longrightarrow> run_picks pick h ks lb = (rs, lb') \<Longrightarrow>
     set rs \<subseteq> insert None (Some ` {p \<in> set (lb_upstreams lb). heap_available h p})"
proof (induction ks arbitrary: lb rs)
  case (Cons k ks)
  obtain r lb1 where k: "pick h k lb = (r, lb1)" by fastforce
  from pick_frame [OF Cons.prems(1) k] have lb1: "good h lb1" "lb_upstreams lb1 = lb_upstreams lb"
    by auto
  obtain rs' where rs': "run_picks pick h ks lb1 = (rs', lb')" "rs = r # rs'"
    using Cons.prems(2) k by (auto split: prod.splits)
  have "r \<in> insert None (Some ` {p \<in> set (lb_upstreams lb). heap_available h p})"
    using pick_sound [OF Cons.prems(1)] k by (cases r) auto
  with Cons.IH [OF lb1(1) rs'(1)] rs'(2) lb1(2) show ?case by auto
qed simp

end

section \<open>The invariant of the router\<close>

text \<open>
  The pointers are allocated and distinct, and under consistent hashing the ring is the one of the
  current list and health states.
\<close>

definition balancer_wf :: "(string \<Rightarrow> u64) \<Rightarrow> upstream_heap \<Rightarrow> balancer \<Rightarrow> bool" where
  "balancer_wf hasher h lb \<longleftrightarrow>
     (\<forall>p \<in> set (lb_upstreams lb). p < length h) \<and> distinct (lb_upstreams lb) \<and>
     hr_virtual_nodes (lb_hash_ring lb) = VIRTUAL_NODES \<and>
     (lb_strategy lb = ConsistentHashing \<longrightarrow>
        lb_hash_ring lb = ring_update hasher h (lb_upstreams lb) (hash_ring_new VIRTUAL_NODES))"

lemma balancer_wf_fields:
  assumes "balancer_wf hasher h lb"
  shows "p \<in> set (lb_upstreams lb) \<Longrightarrow> p < length h" "distinct (lb_upstreams lb)"
    "hr_virtual_nodes (lb_hash_ring lb) = VIRTUAL_NODES"
  using assms by (auto simp: balancer_wf_def)

lemma ring_update_virtual_nodes [simp]:
  "hr_virtual_nodes (ring_update hasher h ups r) = hr_virtual_nodes r"
  by (simp add: ring_update_eq Let_def)

lemma ring_update_only_nodes:
  "hr_virtual_nodes r = n \<Longrightarrow>
     ring_update hasher h ups r = ring_update hasher h ups (hash_ring_new n)"
  by (simp add: ring_update_eq Let_def hash_ring_new_def)

lemma balancer_new_wf: "balancer_wf hasher h (balancer_new strategy)"
  by (simp add: balancer_wf_def balancer_new_def ring_update_eq Let_def hash_ring_new_def)

lemma hash_ring_new_virtual_nodes [simp]: "hr_virtual_nodes (hash_ring_new n) = n"
  by (simp add: hash_ring_new_def)

lemma refresh_ring_simps [simp]:
  "lb_upstreams (refresh_ring hasher h lb) = lb_upstreams lb"
  "lb_strategy (refresh_ring hasher h lb) = lb_strategy lb"
  "lb_rr_counter (refresh_ring hasher h lb) = lb_rr_counter lb"
  by (simp_all add: refresh_ring_def)

lemma refresh_ring_wf:
  assumes "\<forall>p \<in> set (lb_upstreams lb). p < length h" "distinct (lb_upstreams lb)"
    and "hr_virtual_nodes (lb_hash_ring lb) = VIRTUAL_NODES"
  shows "balancer_wf hasher h (refresh_ring hasher h lb)"
  using assms ring_update_only_nodes [OF assms(3)]
  by (simp add: balancer_wf_def refresh_ring_def)

lemma alloc_upstreams_eq:
  "alloc_upstreams now cs h =
     ([length h..<length h + length cs], h @ map (upstream_info_new now) cs)"
  by (induction cs arbitrary: h)
    (simp_all add: arc_new_def Let_def upt_conv_Cons del: upt_Suc)

lemma set_upstreams_eq:
  "set_upstreams now cs (h, lb) =
     (h @ map (upstream_info_new now) cs,
      lb\<lparr>lb_upstreams := [length h..<length h + length cs]\<rparr>)"
  by (simp add: set_upstreams_def alloc_upstreams_eq)

lemma update_upstreams_eq:
  "update_upstreams hasher now cs (h, lb) =
     (let h1 = h @ map (upstream_info_new now) cs
      in Inr (h1, refresh_ring hasher h1 (lb\<lparr>lb_upstreams := [length h..<length h + length cs]\<rparr>)))"
  by (simp add: update_upstreams_def set_upstreams_eq Let_def)

lemma update_upstreams_wf:
  assumes "balancer_wf hasher h lb"
    and "update_upstreams hasher now cs (h, lb) = Inr (h1, lb1)"
  shows "balancer_wf hasher h1 lb1"
  using assms by (auto simp: update_upstreams_eq Let_def balancer_wf_fields intro!: refresh_ring_wf)

lemma update_upstream_health_wf:
  assumes "balancer_wf hasher h lb"
    and "update_upstream_health hasher now name state (h, lb) = (h1, lb1)"
  shows "balancer_wf hasher h1 lb1"
proof (cases "get_upstream_by_name h name lb")
  case None
  with assms show ?thesis by (simp add: update_upstream_health_def)
next
  case (Some p)
  with assms show ?thesis
    by (auto simp: update_upstream_health_def Let_def balancer_wf_fields intro!: refresh_ring_wf)
qed

lemma is_available_set_health_state [simp]:
  "is_available (set_health_state now state u) \<longleftrightarrow> state \<noteq> Unhealthy"
  by (cases state) (simp_all add: is_available_def set_health_state_def Let_def)

lemma set_health_state_keeps [simp]:
  "ui_config (set_health_state now state u) = ui_config u"
  "ui_stats (set_health_state now state u) = ui_stats u"
  by (cases state; simp add: set_health_state_def Let_def)+

lemma heap_available_update:
  "heap_available (h[q := u]) p \<longleftrightarrow>
     (if p = q \<and> q < length h then is_available u else heap_available h p)"
  by (auto simp: heap_available_def nth_list_update list_update_beyond)

text \<open>Statistics do not matter to the ring.\<close>

lemma ring_entries_cong:
  assumes "\<forall>p \<in> set ups. ui_config (h' ! p) = ui_config (h ! p) \<and>
      heap_available h' p = heap_available h p"
  shows "ring_entries hasher v h' idx ups = ring_entries hasher v h idx ups"
  using assms by (induction ups arbitrary: idx) simp_all

lemma balancer_wf_on_stats:
  "balancer_wf hasher h lb \<Longrightarrow> balancer_wf hasher (on_stats f p h) lb"
  by (simp add: balancer_wf_def ring_update_eq Let_def
      ring_entries_cong [of _ "on_stats f p h" h])

lemma balancer_wf_append:
  assumes "balancer_wf hasher h lb"
  shows "balancer_wf hasher (h @ h') lb"
proof -
  have "ring_entries hasher n (h @ h') i (lb_upstreams lb) = ring_entries hasher n h i (lb_upstreams lb)"
    for n i
    using balancer_wf_fields(1) [OF assms]
    by (intro ring_entries_cong) (simp add: nth_append heap_available_def)
  then show ?thesis
    using assms by (fastforce simp: balancer_wf_def ring_update_eq Let_def)
qed

text \<open>What a proxy may do to the heap: change the statistics of upstreams that are its own.\<close>

definition traffic_step :: "arc set \<Rightarrow> upstream_heap \<Rightarrow> upstream_heap \<Rightarrow> bool" where
  "traffic_step ps h h' \<longleftrightarrow> (\<exists>f. \<exists>p \<in> ps. h' = on_stats f p h)"

lemma traffic_step_on_stats: "p \<in> ps \<Longrightarrow> traffic_step ps h (on_stats f p h)"
  by (auto simp: traffic_step_def)

lemma traffic_wf: "(traffic_step ps)\<^sup>*\<^sup>* h h' \<Longrightarrow> balancer_wf hasher h lb \<Longrightarrow> balancer_wf hasher h' lb"
  by (induction rule: rtranclp_induct) (auto simp: traffic_step_def balancer_wf_on_stats)

section \<open>Soundness of the strategies\<close>

lemma select_round_robin_Some:
  assumes "select_round_robin h ups lb = (Some p, lb')"
  shows "p \<in> set ups" "heap_available h p"
proof -
  let ?as = "filter (heap_available h) ups"
  from assms have ne: "?as \<noteq> []" by (auto simp: select_round_robin_def split: if_splits)
  with assms have "p = ?as ! (unat (lb_rr_counter lb) mod length ?as)"
    by (auto simp: select_round_robin_def next_rr_def Let_def)
  then have "p \<in> set ?as" using nth_mod_mem [OF ne] by (simp only:)
  then show "p \<in> set ups" "heap_available h p" by simp_all
qed

lemma select_weighted_round_robin_Some:
  assumes "select_weighted_round_robin h ups lb = (Some p, lb')"
  shows "p \<in> set ups" "heap_available h p"
proof -
  let ?ws = "weighted_upstreams h ups"
  from assms have ne: "?ws \<noteq> []" by (auto simp: select_weighted_round_robin_def split: if_splits)
  with assms have "p = ?ws ! (unat (lb_rr_counter lb) mod length ?ws)"
    by (auto simp: select_weighted_round_robin_def next_rr_def Let_def)
  then have "p \<in> set ?ws" using nth_mod_mem [OF ne] by (simp only:)
  then show "p \<in> set ups" "heap_available h p" by (simp_all add: set_weighted_upstreams)
qed

lemma select_least_connections_Some:
  assumes "select_least_connections h ups = Some p"
  shows "p \<in> set ups" "heap_available h p"
  using min_by_key_mem [OF assms [unfolded select_least_connections_def]] by simp_all

lemma select_health_aware_mem:
  assumes "select_health_aware h ups lb = (Some p, lb')"
  shows "p \<in> fst ` set (candidates h ups)"
proof -
  let ?cs = "sort_key (\<lambda>c. - snd c) (candidates h ups)"
  from assms have ne: "candidates h ups \<noteq> []" by (auto simp: select_health_aware_def split: if_splits)
  then have "?cs \<noteq> []" by (metis length_0_conv length_sort)
  then have hd: "fst (hd ?cs) \<in> fst ` set ?cs" by (rule imageI [OF hd_in_set])
  from assms ne obtain v where "weighted_pick v ?cs = Some p \<or> p = fst (hd ?cs)"
    by (auto simp: select_health_aware_def Let_def next_rr_def split: option.splits)
  with hd weighted_pick_mem [of v ?cs p] have "p \<in> fst ` set ?cs" by blast
  then show ?thesis by simp
qed

lemma select_health_aware_Some:
  assumes "select_health_aware h ups lb = (Some p, lb')"
  shows "p \<in> set ups" "heap_available h p" "0 < combined_score h p"
  using select_health_aware_mem [OF assms] by (auto simp: set_candidates)

lemma select_consistent_hash_Some:
  assumes "select_consistent_hash hasher (ring_update hasher h ups r) ups key = Some p"
  shows "p \<in> set ups" "heap_available h p"
  using assms ring_get_upstream_Some [of hasher h ups r key]
  by (auto simp: select_consistent_hash_def split: option.splits if_splits)

text \<open>A ring that is out of date still yields a member of the list, or nothing.\<close>

lemma select_consistent_hash_stale:
  "select_consistent_hash hasher ring ups key = Some p \<Longrightarrow> p \<in> set ups"
  by (auto simp: select_consistent_hash_def split: option.splits if_splits)

lemmas select_strategy_Some =
  select_round_robin_Some select_weighted_round_robin_Some select_least_connections_Some
  select_consistent_hash_Some select_health_aware_Some

lemma select_upstream_sound:
  assumes "balancer_wf hasher h lb" "select_upstream hasher h key lb = (Some p, lb')"
  shows "p \<in> set (lb_upstreams lb) \<and> heap_available h p"
  using assms
  by (cases "lb_strategy lb"; cases key)
    (auto simp: select_upstream_def Let_def balancer_wf_def split: if_splits
      dest: select_strategy_Some)

lemma select_frames:
  "select_round_robin h ups lb = (r, lb') \<Longrightarrow>
     lb' = (if r = None then lb else lb\<lparr>lb_rr_counter := lb_rr_counter lb + 1\<rparr>)"
  "select_weighted_round_robin h ups lb = (r, lb') \<Longrightarrow>
     lb' = (if r = None then lb else lb\<lparr>lb_rr_counter := lb_rr_counter lb + 1\<rparr>)"
  "select_health_aware h ups lb = (r, lb') \<Longrightarrow>
     lb' = (if r = None then lb else lb\<lparr>lb_rr_counter := lb_rr_counter lb + 1\<rparr>)"
  by (auto simp: select_round_robin_def select_weighted_round_robin_def select_health_aware_def
      next_rr_def Let_def split: if_splits option.splits)

lemma select_upstream_frame:
  assumes "select_upstream hasher h key lb = (r, lb')"
  shows "\<exists>n. lb' = lb\<lparr>lb_rr_counter := n\<rparr>"
proof -
  have "lb' = lb \<or> lb' = lb\<lparr>lb_rr_counter := lb_rr_counter lb + 1\<rparr>"
    using assms
    by (cases "lb_strategy lb"; cases key)
      (auto simp: select_upstream_def Let_def dest!: select_frames split: if_splits)
  then show ?thesis
  proof
    assume "lb' = lb"
    then show ?thesis by (intro exI [of _ "lb_rr_counter lb"]) simp
  qed blast
qed

lemma balancer_wf_rr [simp]:
  "balancer_wf hasher h (lb\<lparr>lb_rr_counter := n\<rparr>) \<longleftrightarrow> balancer_wf hasher h lb"
  by (simp add: balancer_wf_def)

interpretation balancer_select:
  selector "select_upstream hasher" "balancer_wf hasher" for hasher
  by unfold_locales (use select_upstream_sound select_upstream_frame in \<open>fastforce+\<close>)

section \<open>When nothing is selected\<close>

definition some_available :: "upstream_heap \<Rightarrow> balancer \<Rightarrow> bool" where
  "some_available h lb \<longleftrightarrow> (\<exists>p \<in> set (lb_upstreams lb). heap_available h p)"

lemma select_round_robin_None:
  "fst (select_round_robin h ups lb) = None \<longleftrightarrow> (\<forall>p \<in> set ups. \<not> heap_available h p)"
  by (auto simp: select_round_robin_def next_rr_def Let_def filter_empty_conv)

lemma select_weighted_round_robin_None:
  "fst (select_weighted_round_robin h ups lb) = None \<longleftrightarrow> (\<forall>p \<in> set ups. \<not> heap_available h p)"
  by (auto simp: select_weighted_round_robin_def next_rr_def Let_def weighted_upstreams_Nil)

lemma select_least_connections_None:
  "select_least_connections h ups = None \<longleftrightarrow> (\<forall>p \<in> set ups. \<not> heap_available h p)"
  by (simp add: select_least_connections_def filter_empty_conv)

lemma select_consistent_hash_None:
  "select_consistent_hash hasher (ring_update hasher h ups (hash_ring_new VIRTUAL_NODES)) ups key =
     None \<longleftrightarrow> (\<forall>p \<in> set ups. \<not> heap_available h p)"
proof -
  let ?r = "ring_update hasher h ups (hash_ring_new VIRTUAL_NODES)"
  have "select_consistent_hash hasher ?r ups key = None \<longleftrightarrow> ring_get_upstream hasher ?r key = None"
    using ring_get_upstream_Some(1) [of hasher h ups "hash_ring_new VIRTUAL_NODES" key]
    by (auto simp: select_consistent_hash_def split: option.splits)
  then show ?thesis by (simp add: ring_get_upstream_None VIRTUAL_NODES_def)
qed

lemma select_health_aware_None:
  "fst (select_health_aware h ups lb) = None \<longleftrightarrow>
     (\<forall>p \<in> set ups. heap_available h p \<longrightarrow> combined_score h p \<le> 0)"
proof -
  have "fst (select_health_aware h ups lb) = None \<longleftrightarrow> candidates h ups = []"
    by (auto simp: select_health_aware_def next_rr_def Let_def split: option.splits)
  also have "\<dots> \<longleftrightarrow> (\<forall>p \<in> set ups. heap_available h p \<longrightarrow> combined_score h p \<le> 0)"
    by (auto simp: candidates_def filter_empty_conv not_less)
  finally show ?thesis .
qed

lemmas select_strategy_None =
  select_round_robin_None select_weighted_round_robin_None select_least_connections_None
  select_consistent_hash_None select_health_aware_None

lemma select_upstream_None:
  assumes "balancer_wf hasher h lb" "lb_strategy lb \<noteq> HealthAware"
  shows "fst (select_upstream hasher h key lb) = None \<longleftrightarrow> \<not> some_available h lb"
  using assms
  by (cases "lb_strategy lb"; cases key)
    (auto simp: select_upstream_def Let_def some_available_def balancer_wf_def select_strategy_None)


section \<open>Histories\<close>

text \<open>Everything the program can do to a router and to the upstreams it holds.\<close>

datatype lb_op =
  Set_Upstreams instant "upstream_config list"
| Set_Health instant string health_state
| Pick "string option"
| Record arc stats_event

fun lb_step ::
  "(string \<Rightarrow> u64) \<Rightarrow> upstream_heap \<times> balancer \<Rightarrow> lb_op \<Rightarrow> upstream_heap \<times> balancer" where
  "lb_step hasher s (Set_Upstreams now configs) =
     (case update_upstreams hasher now configs s of Inr s1 \<Rightarrow> s1 | Inl _ \<Rightarrow> s)"
| "lb_step hasher s (Set_Health now name state) = update_upstream_health hasher now name state s"
| "lb_step hasher (h, lb) (Pick key) = (h, snd (select_upstream hasher h key lb))"
| "lb_step hasher (h, lb) (Record p e) = (on_stats (\<lambda>st. stats_step st e) p h, lb)"

definition lb_exec ::
  "(string \<Rightarrow> u64) \<Rightarrow> load_balancing_strategy \<Rightarrow> lb_op list \<Rightarrow> upstream_heap \<times> balancer" where
  "lb_exec hasher strategy ops = foldl (lb_step hasher) ([], balancer_new strategy) ops"

lemma update_upstream_health_strategy:
  "lb_strategy (snd (update_upstream_health hasher now name state (h, lb))) = lb_strategy lb"
  by (simp add: update_upstream_health_def Let_def split: option.splits)

lemma lb_step_wf:
  assumes "balancer_wf hasher h lb" "lb_step hasher (h, lb) op = (h1, lb1)"
  shows "balancer_wf hasher h1 lb1 \<and> lb_strategy lb1 = lb_strategy lb"
proof (cases op)
  case (Set_Upstreams now configs)
  with assms have upd: "update_upstreams hasher now configs (h, lb) = Inr (h1, lb1)"
    by (auto simp: update_upstreams_eq Let_def)
  then have "lb_strategy lb1 = lb_strategy lb" by (auto simp: update_upstreams_eq Let_def)
  with update_upstreams_wf [OF assms(1) upd] show ?thesis by simp
next
  case (Set_Health now name state)
  with assms update_upstream_health_wf [OF assms(1)] update_upstream_health_strategy
  show ?thesis by (metis lb_step.simps(2) snd_conv)
next
  case (Pick key)
  with assms have h1: "h1 = h" "select_upstream hasher h key lb = (fst (select_upstream hasher h key lb), lb1)"
    by auto
  with select_upstream_frame [OF h1(2)] assms(1) show ?thesis by auto
next
  case (Record p e)
  with assms show ?thesis by (auto intro: balancer_wf_on_stats)
qed

lemma lb_exec_wf:
  assumes "lb_exec hasher strategy ops = (h, lb)"
  shows "balancer_wf hasher h lb \<and> lb_strategy lb = strategy"
  using assms
proof (induction ops arbitrary: h lb rule: rev_induct)
  case Nil
  then show ?case using balancer_new_wf [of hasher "[]" strategy]
    by (auto simp: lb_exec_def balancer_new_def)
next
  case (snoc op ops)
  obtain h1 lb1 where s: "lb_exec hasher strategy ops = (h1, lb1)" by fastforce
  with snoc have "lb_step hasher (h1, lb1) op = (h, lb)" by (simp add: lb_exec_def)
  from lb_step_wf [OF _ this] snoc.IH [OF s] show ?case by simp
qed

section \<open>Properties\<close>

text \<open>C2: After any history of list updates, health updates, picks and recorded requests, the
router's pointers are allocated and distinct, and under consistent hashing its ring is the one
computed from scratch for the current list and the current health states.\<close>

theorem balancer_invariant:
  "case lb_exec hasher strategy ops of (h, lb) \<Rightarrow>
     set (get_upstreams lb) \<subseteq> {..<length h} \<and> distinct (get_upstreams lb) \<and>
     lb_hash_ring lb =
       (if strategy = ConsistentHashing
        then ring_update hasher h (get_upstreams lb) (hash_ring_new VIRTUAL_NODES)
        else lb_hash_ring lb)"
proof -
  obtain h lb where s: "lb_exec hasher strategy ops = (h, lb)" by fastforce
  with lb_exec_wf [OF s] show ?thesis by (auto simp: balancer_wf_def get_upstreams_def)
qed

end
