(* ===== verification/Balancer_Fairness.thy ===== *)
theory Balancer_Fairness
  imports Load_Balancer
begin

text \<open>
  What the strategies of the load balancer achieve over several requests: the shares of (weighted)
  round robin, the minimality of least connections, the stickiness of consistent hashing across
  health changes, and the actual distribution of the health-aware strategy.
\<close>

section \<open>Rotation through a list\<close>

definition rotation :: "'a list \<Rightarrow> nat \<Rightarrow> nat \<Rightarrow> 'a list" where
  "rotation xs c n = map (\<lambda>i. xs ! ((c + i) mod length xs)) [0..<n]"

lemma rotation_cycle: "xs \<noteq> [] \<Longrightarrow> rotation xs c (length xs) = rotate c xs"
  by (rule nth_equalityI) (simp_all add: rotation_def nth_rotate)

lemma rotation_add: "rotation xs c (m + n) = rotation xs c m @ rotation xs (c + m) n"
  by (rule nth_equalityI) (auto simp: rotation_def nth_append add.assoc)

lemma mset_rotate [simp]: "mset (rotate n xs) = mset xs"
  by (simp add: rotate_drop_take) (metis append_take_drop_id mset_append union_commute)

lemma mset_rotation:
  assumes "xs \<noteq> []"
  shows "mset (rotation xs c (k * length xs)) = repeat_mset k (mset xs)"
proof (induction k arbitrary: c)
  case (Suc k)
  then show ?case by (simp add: rotation_add rotation_cycle [OF assms])
qed (simp add: rotation_def)

text \<open>A selection that steps through a fixed list, one entry per request.\<close>

lemma run_picks_rotation:
  assumes step: "\<And>k n. pick h k (lb\<lparr>lb_rr_counter := n\<rparr>) =
      (Some (xs ! (unat n mod length xs)), lb\<lparr>lb_rr_counter := n + 1\<rparr>)"
    and "unat n + length ks \<le> 2 ^ 64"
  shows "fst (run_picks pick h ks (lb\<lparr>lb_rr_counter := n\<rparr>)) =
    map Some (rotation xs (unat n) (length ks))"
  using assms(2)
proof (induction ks arbitrary: n)
  case (Cons k ks)
  have tl: "rotation xs c (Suc m) = xs ! (c mod length xs) # rotation xs (Suc c) m" for c m
    by (simp add: rotation_def upt_conv_Cons map_Suc_upt [symmetric] o_def del: upt_Suc)
  show ?case
  proof (cases "ks = []")
    case True
    then show ?thesis by (simp add: step Let_def rotation_def)
  next
    case False
    then have "unat n + 1 < 2 ^ 64" using Cons.prems by (cases ks) auto
    then have n: "unat (n + 1) = Suc (unat n)" by (simp add: unat_plus_no_wrap)
    then have "fst (run_picks pick h ks (lb\<lparr>lb_rr_counter := n + 1\<rparr>)) =
        map Some (rotation xs (Suc (unat n)) (length ks))"
      using Cons.IH [of "n + 1"] Cons.prems by simp
    then show ?thesis
      by (simp add: step Let_def tl split: prod.splits) (metis fst_conv)
  qed
qed (simp add: rotation_def)

lemma count_image_Some: "Multiset.count (image_mset Some M) (Some p) = Multiset.count M p"
  by (induction M) auto

section \<open>Round robin\<close>

lemma select_upstream_rr_step:
  assumes "lb_strategy lb = RoundRobin" "some_available h lb"
  defines "xs \<equiv> filter (heap_available h) (lb_upstreams lb)"
  shows "select_upstream hasher h k (lb\<lparr>lb_rr_counter := n\<rparr>) =
     (Some (xs ! (unat n mod length xs)), lb\<lparr>lb_rr_counter := n + 1\<rparr>)"
  using assms
  by (auto simp: select_upstream_def select_round_robin_def next_rr_def Let_def some_available_def
      filter_empty_conv)

lemma round_robin_run:
  assumes "lb_strategy lb = RoundRobin" "some_available h lb"
    and "unat (lb_rr_counter lb) + length ks \<le> 2 ^ 64"
  shows "fst (run_picks (select_upstream hasher) h ks lb) =
    map Some (rotation (filter (heap_available h) (lb_upstreams lb)) (unat (lb_rr_counter lb))
      (length ks))"
  using run_picks_rotation [where lb = lb and n = "lb_rr_counter lb" and pick = "select_upstream hasher"]
    select_upstream_rr_step [OF assms(1,2)] assms(3) by simp

lemma round_robin_shares:
  assumes "lb_strategy lb = RoundRobin" "some_available h lb"
    and "unat (lb_rr_counter lb) + length ks \<le> 2 ^ 64"
    and "length ks = k * length (filter (heap_available h) (lb_upstreams lb))"
  shows "mset (fst (run_picks (select_upstream hasher) h ks lb)) =
    image_mset Some (repeat_mset k (mset (filter (heap_available h) (lb_upstreams lb))))"
proof -
  have "filter (heap_available h) (lb_upstreams lb) \<noteq> []"
    using assms(2) by (auto simp: some_available_def filter_empty_conv)
  then show ?thesis
    unfolding round_robin_run [OF assms(1,2,3)] assms(4) mset_map
    by (intro arg_cong [OF mset_rotation])
qed

section \<open>Weighted round robin\<close>

lemma select_upstream_wrr_step:
  assumes "lb_strategy lb = WeightedRoundRobin" "some_available h lb"
  defines "xs \<equiv> weighted_upstreams h (lb_upstreams lb)"
  shows "select_upstream hasher h k (lb\<lparr>lb_rr_counter := n\<rparr>) =
     (Some (xs ! (unat n mod length xs)), lb\<lparr>lb_rr_counter := n + 1\<rparr>)"
  using assms
  by (auto simp: select_upstream_def select_weighted_round_robin_def next_rr_def Let_def
      some_available_def weighted_upstreams_Nil)

lemma weighted_round_robin_run:
  assumes "lb_strategy lb = WeightedRoundRobin" "some_available h lb"
    and "unat (lb_rr_counter lb) + length ks \<le> 2 ^ 64"
  shows "fst (run_picks (select_upstream hasher) h ks lb) =
    map Some (rotation (weighted_upstreams h (lb_upstreams lb)) (unat (lb_rr_counter lb))
      (length ks))"
  using run_picks_rotation [where lb = lb and n = "lb_rr_counter lb" and pick = "select_upstream hasher"]
    select_upstream_wrr_step [OF assms(1,2)] assms(3) by simp

definition total_weight :: "upstream_heap \<Rightarrow> arc list \<Rightarrow> nat" where
  "total_weight h ps = sum_list (map (upstream_weight h) (filter (heap_available h) ps))"

lemma length_weighted_upstreams: "length (weighted_upstreams h ps) = total_weight h ps"
  by (induction ps) (simp_all add: total_weight_def)

lemma count_weighted_upstreams:
  "distinct ps \<Longrightarrow> Multiset.count (mset (weighted_upstreams h ps)) p =
     (if p \<in> set ps \<and> heap_available h p then upstream_weight h p else 0)"
  by (induction ps) auto

lemma weighted_round_robin_shares:
  assumes "lb_strategy lb = WeightedRoundRobin" "some_available h lb" "distinct (lb_upstreams lb)"
    and "unat (lb_rr_counter lb) + length ks \<le> 2 ^ 64"
    and "length ks = k * total_weight h (lb_upstreams lb)"
    and "p \<in> set (lb_upstreams lb)" "heap_available h p"
  shows "Multiset.count (mset (fst (run_picks (select_upstream hasher) h ks lb))) (Some p) =
    k * upstream_weight h p"
proof -
  let ?ws = "weighted_upstreams h (lb_upstreams lb)"
  have "?ws \<noteq> []" using assms(2) by (auto simp: some_available_def weighted_upstreams_Nil)
  then have "mset (fst (run_picks (select_upstream hasher) h ks lb)) =
      image_mset Some (repeat_mset k (mset ?ws))"
    unfolding weighted_round_robin_run [OF assms(1,2,4)] assms(5) mset_map
      length_weighted_upstreams [symmetric]
    by (intro arg_cong [OF mset_rotation])
  then show ?thesis using assms by (simp add: count_weighted_upstreams count_image_Some)
qed

section \<open>Least connections\<close>

lemma least_connections_minimal:
  assumes "lb_strategy lb = LeastConnections" "select_upstream hasher h key lb = (Some p, lb')"
    and "q \<in> set (lb_upstreams lb)" "heap_available h q"
  shows "active_connections (ui_stats (h ! p)) \<le> active_connections (ui_stats (h ! q))"
  using assms
    min_by_key_least [of "\<lambda>p. active_connections (ui_stats (h ! p))"
      "filter (heap_available h) (lb_upstreams lb)" p q]
  by (auto simp: select_upstream_def Let_def select_least_connections_def split: if_splits)

section \<open>Consistent hashing\<close>

lemma consistent_hash_sticky:
  assumes "lb_strategy lb = ConsistentHashing"
    and "fst (select_upstream hasher h (Some key) lb) = Some p"
  shows "fst (select_upstream hasher h (Some key) (lb\<lparr>lb_rr_counter := n\<rparr>)) = Some p"
  using assms by (simp add: select_upstream_def Let_def split: if_splits)

text \<open>Taking an upstream down moves no key but its own.\<close>

lemma update_health_config:
  "update_upstream_health hasher now name state (h, lb) = (h1, lb1) \<Longrightarrow>
     ui_config (h1 ! p) = ui_config (h ! p) \<and> lb_upstreams lb1 = lb_upstreams lb \<and>
     lb_strategy lb1 = lb_strategy lb \<and> length h1 = length h"
  by (auto simp: update_upstream_health_def Let_def nth_list_update split: option.splits)
    (metis list_update_beyond not_less nth_list_update_eq nth_list_update_neq
      set_health_state_keeps(1))

lemma consistent_hash_minimal_disruption:
  assumes "balancer_wf hasher h lb" "lb_strategy lb = ConsistentHashing"
    and sel: "select_upstream hasher h (Some key) lb = (Some p, lb')"
    and upd: "update_upstream_health hasher now name Unhealthy (h, lb) = (h1, lb1)"
    and avail: "heap_available h1 p"
  shows "fst (select_upstream hasher h1 (Some key) lb1) = Some p"
proof -
  let ?ups = "lb_upstreams lb" and ?r = "hash_ring_new VIRTUAL_NODES"
  note wf = assms(1) [unfolded balancer_wf_def]
  note lb1 = update_health_config [OF upd]
  have "balancer_wf hasher h1 lb1" using assms(1) upd by (rule update_upstream_health_wf)
  then have ring1: "lb_hash_ring lb1 = ring_update hasher h1 ?ups ?r"
    using lb1 assms(2) by (simp add: balancer_wf_def)
  have less: "heap_available h1 q \<Longrightarrow> heap_available h q" for q
    using upd by (auto simp: update_upstream_health_def Let_def heap_available_update
        split: option.splits if_splits)
  from sel wf assms(2) obtain i where i: "ring_get_upstream hasher (ring_update hasher h ?ups ?r) key = Some i"
      "i < length ?ups" "p = ?ups ! i"
    by (auto simp: select_upstream_def Let_def select_consistent_hash_def
        split: if_splits option.splits)
  have "ring_get_upstream hasher (ring_update hasher h1 ?ups ?r) key = Some i"
    using i avail lb1 less by (intro ring_minimal_disruption [of _ h1 h]) auto
  then show ?thesis
    using i lb1 ring1 assms(2) by (auto simp: select_upstream_def Let_def select_consistent_hash_def)
qed

section \<open>The health-aware strategy\<close>

lemma f64_of_u32_ge_one: "w \<noteq> 0 \<Longrightarrow> 1 \<le> f64_of_u32 w"
  using f64_round_mono [of 1 "of_nat (unat w)"] unat_gt_0 [of w]
  unfolding f64_of_u32_def by (simp del: of_nat_unat)

lemma combined_score_lower:
  assumes "up_weight (ui_config (h ! p)) \<noteq> 0" "\<not> never_succeeded (ui_stats (h ! p))"
  shows "1 / 2 ^ 69 \<le> combined_score h p"
  using f64_mul_dyadic_lower [of 69 "health_score (h ! p)" 0] health_score_lower [OF assms(2)]
    f64_of_u32_ge_one [OF assms(1)]
  by (simp add: combined_score_def)

lemma combined_score_pos_iff:
  "0 < combined_score h p \<longleftrightarrow>
     up_weight (ui_config (h ! p)) \<noteq> 0 \<and> \<not> never_succeeded (ui_stats (h ! p))"
proof
  assume pos: "0 < combined_score h p"
  show "up_weight (ui_config (h ! p)) \<noteq> 0 \<and> \<not> never_succeeded (ui_stats (h ! p))"
    using pos health_score_zero [of "h ! p"]
    by (auto simp: combined_score_def f64_of_u32_def f64_mul_def)
next
  assume "up_weight (ui_config (h ! p)) \<noteq> 0 \<and> \<not> never_succeeded (ui_stats (h ! p))"
  then have "1 / 2 ^ 69 \<le> combined_score h p" by (intro combined_score_lower) simp_all
  then show "0 < combined_score h p" by (rule less_le_trans [rotated]) simp
qed

text \<open>An upstream the strategy can pick.\<close>

definition eligible :: "upstream_heap \<Rightarrow> arc \<Rightarrow> bool" where
  "eligible h p \<longleftrightarrow> heap_available h p \<and> up_weight (ui_config (h ! p)) \<noteq> 0 \<and>
     \<not> never_succeeded (ui_stats (h ! p))"

lemma set_candidates_eligible:
  "set (candidates h ups) = (\<lambda>p. (p, combined_score h p)) ` {p \<in> set ups. eligible h p}"
  by (auto simp: set_candidates combined_score_pos_iff eligible_def)

lemma length_candidates: "length (candidates h ups) \<le> length ups"
proof -
  have "length (candidates h ups) \<le> length (map (\<lambda>p. (p, combined_score h p)) (filter (heap_available h) ups))"
    unfolding candidates_def by (rule length_filter_le)
  also have "\<dots> \<le> length ups" unfolding length_map by (rule length_filter_le)
  finally show ?thesis .
qed

lemma health_aware_None:
  assumes "lb_strategy lb = HealthAware"
  shows "fst (select_upstream hasher h key lb) = None \<longleftrightarrow>
     (\<forall>p \<in> set (lb_upstreams lb). \<not> eligible h p)"
  using assms
  by (auto simp: select_upstream_def Let_def select_health_aware_None eligible_def not_less
      combined_score_pos_iff [symmetric] not_le [symmetric])

lemma health_aware_eligible:
  assumes "lb_strategy lb = HealthAware" "select_upstream hasher h key lb = (Some p, lb')"
  shows "p \<in> set (lb_upstreams lb)" "eligible h p"
  using assms select_health_aware_Some [of h "lb_upstreams lb" lb p lb']
  by (auto simp: select_upstream_def Let_def eligible_def combined_score_pos_iff split: if_splits)

text \<open>
  An upstream whose requests have all failed is not eligible, and neither a health update nor
  further failures change that.
\<close>

lemma never_succeeded_sticky:
  assumes "never_succeeded s" "requests_sent s \<noteq> - 1"
  shows "never_succeeded (record_failure now s)"
  using assms by (simp add: never_succeeded_def record_failure_def add_eq_0_iff2)

lemma health_aware_locked_out:
  assumes "lb_strategy lb = HealthAware"
    and "\<forall>p \<in> set (lb_upstreams lb). never_succeeded (ui_stats (h ! p))"
  shows "select_upstream hasher h key lb = (None, lb)"
  using assms
  by (auto simp: select_upstream_def select_health_aware_def candidates_def Let_def
      filter_empty_conv combined_score_pos_iff)

lemma update_health_stats:
  "update_upstream_health hasher now name state (h, lb) = (h1, lb1) \<Longrightarrow>
     ui_stats (h1 ! p) = ui_stats (h ! p)"
  by (auto simp: update_upstream_health_def Let_def nth_list_update split: option.splits)
    (metis list_update_beyond not_less nth_list_update_eq nth_list_update_neq
      set_health_state_keeps(2))

lemma health_aware_locked_out_for_good:
  assumes "lb_strategy lb = HealthAware"
    and "\<forall>p \<in> set (lb_upstreams lb). never_succeeded (ui_stats (h ! p))"
    and "update_upstream_health hasher now name state (h, lb) = (h1, lb1)"
  shows "select_upstream hasher h1 key lb1 = (None, lb1)"
  using assms update_health_config [OF assms(3)] update_health_stats [OF assms(3)]
  by (intro health_aware_locked_out) simp_all

section \<open>The random value of the health-aware strategy\<close>

text \<open>Sums of doubles.\<close>

lemma f64_round_upper:
  "1 / 2 ^ 1022 \<le> x \<Longrightarrow> f64_round x \<le> x * (1 + 1 / 2 ^ 53)"
  using f64_round_rel_error [of x]
  unfolding distrib_left times_divide_eq_right mult_1_right abs_le_iff by linarith

lemma f64_sum_from_upper:
  assumes "\<forall>x \<in> set xs. 1 / 2 ^ 1022 \<le> x \<and> x \<le> t" "0 \<le> acc" "0 \<le> t"
    and "acc \<le> of_nat j * t * (1 + 1 / 2 ^ 53) ^ j"
  shows "f64_sum_from acc xs \<le> of_nat (j + length xs) * t * (1 + 1 / 2 ^ 53) ^ (j + length xs)"
  using assms
proof (induction xs arbitrary: acc j)
  case (Cons x xs)
  let ?e = "1 + 1 / 2 ^ 53 :: rat"
  have "t * 1 \<le> t * ?e ^ j" using Cons.prems(3) by (intro mult_left_mono one_le_power) simp_all
  moreover have "x \<le> t" using Cons.prems(1) by simp
  moreover have "of_nat (Suc j) * t * ?e ^ j = t * ?e ^ j + of_nat j * t * ?e ^ j"
    by (simp only: of_nat_Suc distrib_right mult_1_left)
  ultimately have sum: "acc + x \<le> of_nat (Suc j) * t * ?e ^ j" using Cons.prems(4) by linarith
  have "f64_add acc x \<le> (acc + x) * ?e"
    unfolding f64_add_def using Cons.prems(1,2) by (intro f64_round_upper) auto
  also have "\<dots> \<le> of_nat (Suc j) * t * ?e ^ j * ?e"
    using sum by (rule mult_right_mono) simp
  also have "\<dots> = of_nat (Suc j) * t * ?e ^ Suc j" by (simp only: power_Suc2 mult.assoc)
  finally have "f64_sum_from (f64_add acc x) xs \<le>
      of_nat (Suc j + length xs) * t * ?e ^ (Suc j + length xs)"
    using Cons.prems by (intro Cons.IH) (auto simp: f64_add_def intro!: f64_round_nonneg)
  then show ?case by (simp only: f64_sum_from.simps add_Suc add_Suc_right length_Cons)
qed simp

lemma one_plus_eps_power:
  "n \<le> 2 ^ 52 \<Longrightarrow> (1 + 1 / 2 ^ 53 :: rat) ^ n \<le> 1 + of_nat n / 2 ^ 52"
proof (induction n)
  case (Suc n)
  then have n: "of_nat n \<le> (2 :: rat) ^ 52"
    by (metis Suc_leD of_nat_le_iff of_nat_numeral of_nat_power)
  have "(1 + 1 / 2 ^ 53 :: rat) ^ Suc n \<le> (1 + 1 / 2 ^ 53) * (1 + of_nat n / 2 ^ 52)"
    unfolding power_Suc using Suc by (intro mult_left_mono) simp_all
  also have "\<dots> \<le> 1 + of_nat (Suc n) / 2 ^ 52"
    using n by (simp add: field_simps)
  finally show ?case .
qed simp

lemma f64_sum_upper:
  assumes "\<forall>x \<in> set xs. 1 / 2 ^ 1022 \<le> x \<and> x \<le> t" "0 \<le> t" "length xs \<le> 2 ^ 52"
  shows "f64_sum xs \<le> of_nat (length xs) * t * 2"
proof -
  let ?n = "length xs"
  have "of_nat ?n \<le> (2 :: rat) ^ 52"
    using assms(3) by (metis of_nat_le_iff of_nat_numeral of_nat_power)
  then have e: "(1 + 1 / 2 ^ 53 :: rat) ^ ?n \<le> 2"
    by (intro order_trans [OF one_plus_eps_power [OF assms(3)]]) simp
  have "f64_sum xs \<le> of_nat ?n * t * (1 + 1 / 2 ^ 53) ^ ?n"
    using f64_sum_from_upper [of xs t 0 0] assms by (simp add: f64_sum_def)
  also have "\<dots> \<le> of_nat ?n * t * 2" using e assms(2) by (intro mult_left_mono) simp_all
  finally show ?thesis .
qed

lemma f64_of_u64_le_power:
  assumes "unat n \<le> 2 ^ 52"
  shows "f64_of_u64 n \<le> 2 ^ 52"
proof -
  have "f64_round (of_nat (unat n)) = of_nat (unat n)"
    using assms by (intro f64_round_of_nat) simp
  moreover have "(of_nat (unat n) :: rat) \<le> 2 ^ 52"
    using assms by (metis of_nat_le_iff of_nat_numeral of_nat_power)
  ultimately show ?thesis by (simp only: f64_of_u64_def)
qed

lemma f64_of_u64_max: "2 ^ 63 \<le> f64_of_u64 (- 1)"
proof -
  have "f64_round (2 ^ 63) = (2 :: rat) ^ 63"
    by (rule f64_round_exact [of _ 1 "1074 + 63"]) (simp_all add: f64_quantum_def)
  moreover have "f64_round (2 ^ 63) \<le> f64_of_u64 (- 1)"
    unfolding f64_of_u64_def by (rule f64_round_mono) (simp add: unsigned_minus_1_eq_mask mask_eq_exp_minus_1)
  ultimately show ?thesis by simp
qed

text \<open>The fraction the counter contributes is tiny for every counter that occurs in practice.\<close>

lemma counter_fraction:
  assumes "unat n \<le> 2 ^ 52"
  shows "f64_div (f64_of_u64 n) (f64_of_u64 (- 1)) \<le> 1 / 2 ^ 11"
proof -
  have "f64_of_u64 n / f64_of_u64 (- 1) \<le> 2 ^ 52 / 2 ^ 63"
    using f64_of_u64_le_power [OF assms] f64_of_u64_max by (intro frac_le) simp_all
  then have "f64_div (f64_of_u64 n) (f64_of_u64 (- 1)) \<le> f64_round (1 / 2 ^ 11)"
    unfolding f64_div_def by (intro f64_round_mono) simp
  then show ?thesis using f64_round_dyadic [of 1 11] by simp
qed

lemma ha_random_value_le_top:
  assumes "unat n \<le> 2 ^ 52" "length xs \<le> 1024" "is_f64 t"
    and "\<forall>x \<in> set xs. 1 / 2 ^ 1022 \<le> x \<and> x \<le> t" "0 \<le> t"
  shows "ha_random_value n (f64_sum xs) \<le> t"
proof -
  let ?f = "f64_div (f64_of_u64 n) (f64_of_u64 (- 1))"
  have nn: "0 \<le> f64_sum_from acc ys" if "0 \<le> acc" "\<forall>x \<in> set ys. 0 \<le> x" for acc ys
    using that by (induction ys arbitrary: acc) (simp_all add: f64_add_def f64_round_nonneg)
  have "0 \<le> x" if "x \<in> set xs" for x
    using that assms(4) by (meson divide_nonneg_nonneg order_trans zero_le_one zero_le_numeral zero_le_power)
  then have sum0: "0 \<le> f64_sum xs" by (simp add: f64_sum_def nn)
  have "f64_sum xs \<le> of_nat (length xs) * t * 2"
    using assms by (intro f64_sum_upper) simp_all
  also have "\<dots> \<le> 1024 * t * 2"
    using assms(2,5) by (intro mult_right_mono) simp_all
  finally have "?f * f64_sum xs \<le> 1 / 2 ^ 11 * (1024 * t * 2)"
    using sum0 counter_fraction [OF assms(1)] by (intro mult_mono) simp_all
  then have "f64_round (?f * f64_sum xs) \<le> f64_round t" by (intro f64_round_mono) simp
  then show ?thesis using assms(3) by (simp add: ha_random_value_def f64_mul_def is_f64_def)
qed

lemma sort_key_hd_least:
  assumes "xs \<noteq> []" "x \<in> set xs"
  shows "f (hd (sort_key f xs)) \<le> f x"
proof -
  have "sort_key f xs \<noteq> []" using assms(1) by (metis length_0_conv length_sort)
  then obtain y ys where ys: "sort_key f xs = y # ys" by (cases "sort_key f xs") auto
  have "sorted (map f (y # ys))" using sorted_sort_key [of f xs] by (simp only: ys)
  moreover have "x \<in> set (y # ys)" using assms(2) set_sort [of f xs] by (simp only: ys)
  ultimately show ?thesis by (auto simp: ys)
qed

lemma health_aware_top:
  assumes "lb_strategy lb = HealthAware" "select_upstream hasher h key lb = (Some p, lb')"
    and "length (lb_upstreams lb) \<le> 1024" "unat (lb_rr_counter lb) \<le> 2 ^ 52"
    and "q \<in> set (lb_upstreams lb)" "eligible h q"
  shows "combined_score h q \<le> combined_score h p"
proof -
  let ?ups = "lb_upstreams lb" and ?cs = "candidates h (lb_upstreams lb)"
  let ?ss = "sort_key (\<lambda>c. - snd c) ?cs"
  have sel: "select_health_aware h ?ups lb = (Some p, lb')"
    using assms(1,2) by (auto simp: select_upstream_def Let_def split: if_splits)
  then have ne: "?cs \<noteq> []" by (auto simp: select_health_aware_def split: if_splits)
  then have ne': "?ss \<noteq> []" by (metis length_0_conv length_sort)
  then obtain p' t cs where ss: "?ss = (p', t) # cs" by (metis list.exhaust surj_pair)
  have in_ss: "c \<in> set ?cs" if "c \<in> set ((p', t) # cs)" for c
    using that set_sort [of "\<lambda>c. - snd c" ?cs] by (simp only: ss)
  from in_ss [of "(p', t)"] have t: "t = combined_score h p'" "eligible h p'"
    by (auto simp: set_candidates_eligible)
  have top: "snd c \<le> t" if "c \<in> set ?cs" for c
    using sort_key_hd_least [OF ne that, of "\<lambda>c. - snd c"] by (simp add: ss)
  have low: "1 / 2 ^ 69 \<le> snd c" if "c \<in> set ?cs" for c
    using that combined_score_lower [of h] unfolding set_candidates_eligible eligible_def by auto
  have "length ?ss \<le> length ?ups"
    using length_candidates [of h ?ups] by simp
  then have len: "length (map snd ?ss) \<le> 1024" using assms(3) by simp
  have bounds: "\<forall>x \<in> set (map snd ?ss). 1 / 2 ^ 1022 \<le> x \<and> x \<le> t"
  proof
    fix x assume "x \<in> set (map snd ?ss)"
    then obtain c where "c \<in> set ?cs" "x = snd c" by auto
    moreover have "1 / 2 ^ 1022 \<le> (1 / 2 ^ 69 :: rat)" by simp
    ultimately show "1 / 2 ^ 1022 \<le> x \<and> x \<le> t"
      using top [of c] order_trans [OF _ low [of c]] by blast
  qed
  have t64: "is_f64 t" by (simp add: t(1) combined_score_def Let_def)
  have t0: "0 < t" using t by (simp add: eligible_def combined_score_pos_iff)
  have "ha_random_value (lb_rr_counter lb) (f64_sum (map snd ?ss)) \<le> t"
    using assms(4) len t64 bounds t0 by (intro ha_random_value_le_top) simp_all
  moreover have "is_f64 (ha_random_value (lb_rr_counter lb) (f64_sum (map snd ?ss)))"
    by (simp add: ha_random_value_def)
  ultimately have "weighted_pick (ha_random_value (lb_rr_counter lb) (f64_sum (map snd ?ss))) ?ss =
      Some p'"
    unfolding ss using t64 by (simp add: f64_sub_nonpos_iff)
  then have "p = p'" using sel ne by (simp add: select_health_aware_def Let_def next_rr_def)
  then show ?thesis using top [of "(q, combined_score h q)"] assms(5,6) t(1)
    by (auto simp: set_candidates_eligible)
qed


section \<open>Properties\<close>

text \<open>C1: After any history of the router, a selection returns an upstream of the current list
that is not unhealthy; it returns nothing only if there is no such upstream or, under the
health-aware strategy, none that also has a weight and has not failed all its requests.\<close>

theorem selection_after_any_history:
  "case lb_exec hasher strategy ops of (h, lb) \<Rightarrow>
     (case fst (select_upstream hasher h key lb) of
        Some p \<Rightarrow> p \<in> set (get_upstreams lb) \<and> heap_available h p
      | None \<Rightarrow> \<not> (\<exists>p \<in> set (get_upstreams lb).
          if strategy = HealthAware then eligible h p else heap_available h p))"
proof -
  obtain h lb where s: "lb_exec hasher strategy ops = (h, lb)" by fastforce
  note wf = lb_exec_wf [OF s]
  show ?thesis
  proof (cases "fst (select_upstream hasher h key lb)")
    case None
    then show ?thesis
      using wf s select_upstream_None [of hasher h lb key] health_aware_None [of lb hasher h key]
      by (auto simp: some_available_def get_upstreams_def)
  next
    case (Some p)
    then have "select_upstream hasher h key lb = (Some p, snd (select_upstream hasher h key lb))"
      by (simp add: prod_eq_iff)
    from select_upstream_sound [OF conjunct1 [OF wf] this] Some s show ?thesis
      by (simp add: get_upstreams_def)
  qed
qed

text \<open>C12: Round robin is fair: over k turns of the available upstreams, whatever the session keys
and wherever the counter stands, each available upstream is picked exactly k times, as long as the
64-bit counter does not wrap.\<close>

theorem round_robin_fair:
  assumes "lb_strategy lb = RoundRobin" "distinct (get_upstreams lb)"
    and "available = filter (heap_available h) (get_upstreams lb)" "p \<in> set available"
    and "length keys = k * length available"
    and "unat (lb_rr_counter lb) + length keys \<le> 2 ^ 64"
  shows "Multiset.count (mset (fst (run_picks (select_upstream hasher) h keys lb))) (Some p) = k"
proof -
  have some: "some_available h lb"
    using assms(3,4) by (auto simp: some_available_def get_upstreams_def)
  have "distinct available" using assms(2,3) by simp
  then have one: "Multiset.count (mset available) p = 1"
    using assms(4) unfolding distinct_count_atmost_1 by (simp only: if_True)
  have "mset (fst (run_picks (select_upstream hasher) h keys lb)) =
      image_mset Some (repeat_mset k (mset available))"
    using assms round_robin_shares [OF assms(1) some assms(6), of k hasher]
    by (simp only: get_upstreams_def)
  then show ?thesis by (simp only: count_image_Some count_repeat_mset one mult_1_right)
qed

text \<open>C13: Weighted round robin shares requests by weight: over k turns of the total weight, an
available upstream is picked exactly k times its weight (a weight of 0 counts as 1).\<close>

theorem weighted_round_robin_fair:
  assumes "lb_strategy lb = WeightedRoundRobin" "distinct (get_upstreams lb)"
    and "p \<in> set (get_upstreams lb)" "heap_available h p"
    and "length keys = k * total_weight h (get_upstreams lb)"
    and "unat (lb_rr_counter lb) + length keys \<le> 2 ^ 64"
  shows "Multiset.count (mset (fst (run_picks (select_upstream hasher) h keys lb))) (Some p) =
    k * unat (max (up_weight (ui_config (h ! p))) 1)"
  using weighted_round_robin_shares [of lb h keys k p hasher] assms
  by (auto simp: get_upstreams_def some_available_def upstream_weight_def)

text \<open>Least connections picks the first of the available upstreams with the fewest active
connections: whatever stands before it has strictly more, whatever stands after it at least as
many.\<close>

theorem least_connections_first_minimum:
  assumes "lb_strategy lb = LeastConnections"
    and "fst (select_upstream hasher h key lb) = Some p"
  shows "\<exists>before after. filter (heap_available h) (get_upstreams lb) = before @ p # after \<and>
    (\<forall>q \<in> set before. active_connections (ui_stats (h ! p)) < active_connections (ui_stats (h ! q))) \<and>
    (\<forall>q \<in> set after. active_connections (ui_stats (h ! p)) \<le> active_connections (ui_stats (h ! q)))"
proof -
  let ?key = "\<lambda>p. active_connections (ui_stats (h ! p))"
  have sel: "min_by_key ?key (filter (heap_available h) (lb_upstreams lb)) = Some p"
    using assms by (simp add: select_upstream_def Let_def select_least_connections_def split: if_splits)
  from min_by_key_first [OF sel] obtain before after where split:
      "filter (heap_available h) (lb_upstreams lb) = before @ p # after"
      "\<forall>q \<in> set before. ?key p < ?key q" by blast
  have "\<forall>q \<in> set after. ?key p \<le> ?key q"
    using min_by_key_least [OF sel] unfolding split(1) by simp
  with split show ?thesis unfolding get_upstreams_def by blast
qed

text \<open>C25: Consistent hashing disturbs little: when an upstream is marked unhealthy, a session key
that was served by another upstream is still served by that upstream.\<close>

theorem consistent_hash_disruption:
  assumes "lb_exec hasher ConsistentHashing ops = (h, lb)"
    and "fst (select_upstream hasher h (Some key) lb) = Some p"
    and "update_upstream_health hasher now name Unhealthy (h, lb) = (h1, lb1)"
    and "heap_available h1 p"
  shows "fst (select_upstream hasher h1 (Some key) lb1) = Some p"
proof -
  note wf = lb_exec_wf [OF assms(1)]
  have sel: "select_upstream hasher h (Some key) lb =
      (Some p, snd (select_upstream hasher h (Some key) lb))"
    using assms(2) by (simp add: prod_eq_iff)
  show ?thesis
    using consistent_hash_minimal_disruption [OF conjunct1 [OF wf] conjunct2 [OF wf] sel assms(3,4)] .
qed

text \<open>C24: The weighted random selection of the health-aware strategy is no random selection: with
at most 1024 upstreams and fewer than 2^52 requests so far, it always picks an upstream of maximal
score, because the value taken from the counter is too small to leave the first candidate.\<close>

theorem health_aware_takes_best:
  assumes "lb_strategy lb = HealthAware" "length (get_upstreams lb) \<le> 1024"
    and "unat (lb_rr_counter lb) \<le> 2 ^ 52"
    and "fst (select_upstream hasher h key lb) = Some p"
  shows "p \<in> set (get_upstreams lb) \<and> eligible h p \<and>
    (\<forall>q \<in> set (get_upstreams lb). eligible h q \<longrightarrow> combined_score h q \<le> combined_score h p)"
proof -
  have sel: "select_upstream hasher h key lb = (Some p, snd (select_upstream hasher h key lb))"
    using assms(4) by (simp add: prod_eq_iff)
  show ?thesis
    using health_aware_eligible [OF assms(1) sel] health_aware_top [OF assms(1) sel] assms(2,3)
    by (simp add: get_upstreams_def)
qed

text \<open>C22: Upstreams that have only failed are lost to the health-aware strategy: once every upstream
of the list has requests and no success, no request is served, and no sequence of health updates
(to healthy included) and picks changes that.\<close>

theorem health_aware_lock_out:
  assumes "lb_strategy lb = HealthAware"
    and "\<forall>p \<in> set (get_upstreams lb). never_succeeded (ui_stats (h ! p))"
    and "\<forall>op \<in> set ops. (\<exists>now name state. op = Set_Health now name state) \<or> (\<exists>key. op = Pick key)"
    and "foldl (lb_step hasher) (h, lb) ops = (h1, lb1)"
  shows "fst (select_upstream hasher h1 key lb1) = None"
proof -
  have "lb_strategy lb1 = HealthAware \<and>
      (\<forall>p \<in> set (lb_upstreams lb1). never_succeeded (ui_stats (h1 ! p)))"
    using assms unfolding get_upstreams_def
  proof (induction ops arbitrary: h lb)
    case (Cons op ops)
    obtain h2 lb2 where s: "lb_step hasher (h, lb) op = (h2, lb2)" by fastforce
    have "lb_strategy lb2 = HealthAware \<and>
        (\<forall>p \<in> set (lb_upstreams lb2). never_succeeded (ui_stats (h2 ! p)))"
    proof (cases "\<exists>key. op = Pick key")
      case True
      with Cons.prems s show ?thesis using health_aware_locked_out by fastforce
    next
      case False
      with Cons.prems(3) obtain now name state where "op = Set_Health now name state" by auto
      with s have upd: "update_upstream_health hasher now name state (h, lb) = (h2, lb2)" by simp
      from update_health_config [OF upd] update_health_stats [OF upd] Cons.prems show ?thesis by simp
    qed
    with Cons.IH [of lb2 h2] Cons.prems(3,4) s show ?case by simp
  qed simp
  then show ?thesis using health_aware_locked_out [of lb1 h1 hasher key] by simp
qed


section \<open>Witnesses\<close>

text \<open>Three fresh upstreams of weights 1, 2 and 1, and a router over them.\<close>

definition test_heap :: upstream_heap where
  "test_heap = map (upstream_info_new 0)
     [test_upstream ''a'' 1, test_upstream ''b'' 2, test_upstream ''c'' 1]"

definition test_balancer :: "load_balancing_strategy \<Rightarrow> balancer" where
  "test_balancer strategy = (balancer_new strategy)\<lparr>lb_upstreams := [0, 1, 2]\<rparr>"

lemmas test_defs =
  test_heap_def test_balancer_def balancer_new_def get_upstreams_def heap_available_def
  is_available_def upstream_info_new_def test_upstream_def upstream_stats_default_def

lemma round_robin_fair_witness:
  "Multiset.count (mset (fst (run_picks (select_upstream (\<lambda>_. 0)) test_heap
     (replicate 6 None) (test_balancer RoundRobin)))) (Some 1) = 2"
  using round_robin_fair [of "test_balancer RoundRobin" "[0, 1, 2]" test_heap 1
      "replicate 6 None" 2 "\<lambda>_. 0"]
  by (simp add: test_defs)

lemma weighted_round_robin_fair_witness:
  "Multiset.count (mset (fst (run_picks (select_upstream (\<lambda>_. 0)) test_heap
     (replicate 8 None) (test_balancer WeightedRoundRobin)))) (Some 1) = 4"
proof -
  have "Multiset.count (mset (fst (run_picks (select_upstream (\<lambda>_. 0)) test_heap
      (replicate 8 None) (test_balancer WeightedRoundRobin)))) (Some 1) =
      2 * unat (max (up_weight (ui_config (test_heap ! 1))) 1)"
    by (rule weighted_round_robin_fair)
      (simp_all add: test_defs total_weight_def upstream_weight_def max_def word_le_nat_alt)
  moreover have "max (2 :: u32) 1 = 2" by (rule max_absorb1) (simp add: word_le_nat_alt)
  ultimately show ?thesis
    by (simp add: test_heap_def upstream_info_new_def test_upstream_def)
qed

lemma least_connections_first_minimum_witness:
  "\<exists>before after. [0, 1, 2] = before @ 0 # after \<and> before = []"
proof -
  have "fst (select_upstream (\<lambda>_. 0) test_heap None (test_balancer LeastConnections)) = Some 0"
    by (simp add: select_upstream_def select_least_connections_def Let_def test_defs)
  from least_connections_first_minimum [OF _ this] show ?thesis
    by (auto simp: test_defs Cons_eq_append_conv)
qed

text \<open>Two upstreams under consistent hashing: whichever serves the key, the other one goes down.\<close>

lemma consistent_hash_disruption_witness:
  "case lb_exec (\<lambda>_. 0) ConsistentHashing
      [Set_Upstreams 0 [test_upstream ''a'' 1, test_upstream ''b'' 1]] of (h, lb) \<Rightarrow>
     \<exists>p. fst (select_upstream (\<lambda>_. 0) h (Some ''k'') lb) = Some p \<and>
       (case update_upstream_health (\<lambda>_. 0) 1 (if p = 0 then ''b'' else ''a'') Unhealthy (h, lb) of
          (h1, lb1) \<Rightarrow> fst (select_upstream (\<lambda>_. 0) h1 (Some ''k'') lb1) = Some p)"
proof -
  let ?s = "lb_exec (\<lambda>_. 0) ConsistentHashing
      [Set_Upstreams 0 [test_upstream ''a'' 1, test_upstream ''b'' 1]]"
  obtain h lb where s: "?s = (h, lb)" by fastforce
  note wf = lb_exec_wf [OF s]
  have h: "h = map (upstream_info_new 0) [test_upstream ''a'' 1, test_upstream ''b'' 1]"
      "lb_upstreams lb = [0, 1]"
    using s by (auto simp: lb_exec_def update_upstreams_eq Let_def)
  have "fst (select_upstream (\<lambda>_. 0) h (Some ''k'') lb) \<noteq> None"
    using wf h by (subst select_upstream_None) (auto simp: some_available_def test_defs)
  then obtain p where p: "fst (select_upstream (\<lambda>_. 0) h (Some ''k'') lb) = Some p" by blast
  then have mem: "p \<in> set (lb_upstreams lb)"
    using wf by (intro conjunct1 [OF select_upstream_sound]) (auto simp: prod_eq_iff)
  obtain h1 lb1 where u: "update_upstream_health (\<lambda>_. 0) 1 (if p = 0 then ''b'' else ''a'') Unhealthy
      (h, lb) = (h1, lb1)" by fastforce
  then have "heap_available h1 p"
    using mem h
    by (auto simp: update_upstream_health_def get_upstream_by_name_def Let_def test_defs
        heap_available_update split: if_splits)
  from consistent_hash_disruption [OF s p u this] show ?thesis unfolding s using p u by (auto intro!: exI [of _ p])
qed

lemma health_aware_takes_best_witness:
  "\<exists>p. fst (select_upstream (\<lambda>_. 0) test_heap None (test_balancer HealthAware)) = Some p \<and>
     (\<forall>q \<in> {0, 1, 2}. combined_score test_heap q \<le> combined_score test_heap p)"
proof -
  have el: "eligible test_heap q" if "q \<in> {0, 1, 2}" for q
    using that by (auto simp: eligible_def never_succeeded_def test_defs)
  have "fst (select_upstream (\<lambda>_. 0) test_heap None (test_balancer HealthAware)) \<noteq> None"
    using el [of 0] by (subst health_aware_None) (auto simp: test_balancer_def balancer_new_def)
  then obtain p where p: "fst (select_upstream (\<lambda>_. 0) test_heap None (test_balancer HealthAware)) = Some p"
    by blast
  from health_aware_takes_best [OF _ _ _ p] el p show ?thesis by (auto simp: test_defs)
qed

lemma health_aware_lock_out_witness:
  "case foldl (lb_step (\<lambda>_. 0)) ([(test_heap ! 0)\<lparr>ui_stats := record_failure 1 (ui_stats (test_heap ! 0))\<rparr>],
      (test_balancer HealthAware)\<lparr>lb_upstreams := [0]\<rparr>) [Set_Health 2 ''a'' Healthy, Pick None] of
     (h1, lb1) \<Rightarrow> fst (select_upstream (\<lambda>_. 0) h1 None lb1) = None"
proof -
  let ?s = "foldl (lb_step (\<lambda>_. 0)) ([(test_heap ! 0)\<lparr>ui_stats := record_failure 1 (ui_stats (test_heap ! 0))\<rparr>],
      (test_balancer HealthAware)\<lparr>lb_upstreams := [0]\<rparr>) [Set_Health 2 ''a'' Healthy, Pick None]"
  obtain h1 lb1 where s: "?s = (h1, lb1)" by fastforce
  have "fst (select_upstream (\<lambda>_. 0) h1 None lb1) = None"
    by (rule health_aware_lock_out [OF _ _ _ s])
      (simp_all add: test_defs never_succeeded_def record_failure_def)
  then show ?thesis unfolding s by simp
qed

end
