(* ===== verification/Proxy_Base.thy ===== *)
theory Proxy_Base
  imports Load_Balancer
begin

text \<open>
  What the three proxies share (\<open>src/proxy.rs\<close>): the metrics and health records, the utility
  functions and the contract of the \<open>Proxy\<close> trait. A \<open>Duration\<close> is its number of nanoseconds.
\<close>

section \<open>Metrics and health records\<close>

record proxy_metrics =
  pm_total_requests :: u64
  pm_active_connections :: u64
  pm_bytes_sent :: u64
  pm_bytes_received :: u64
  pm_request_rate :: f64
  pm_error_rate :: f64
  pm_avg_response_time_ms :: f64

definition proxy_metrics_default :: proxy_metrics where
  "proxy_metrics_default =
     \<lparr>pm_total_requests = 0, pm_active_connections = 0, pm_bytes_sent = 0, pm_bytes_received = 0,
      pm_request_rate = 0, pm_error_rate = 0, pm_avg_response_time_ms = 0\<rparr>"

record proxy_health =
  ph_status :: health_state
  ph_message :: string

section \<open>Utility functions\<close>

definition parse_address :: "string \<Rightarrow> socket_addr result" where
  "parse_address address =
     (case parse_socket_addr address of
        Some a \<Rightarrow> Inr a
      | None \<Rightarrow> Inl (err_config
          (''Invalid address '' @ quoted address @ '': '' @ addr_parse_error_text)))"

definition millis_to_duration :: "u64 \<Rightarrow> duration" where
  "millis_to_duration millis = unat millis * 1000000"

text \<open>\<open>Duration::as_secs_f64\<close>: the seconds and the nanoseconds are converted apart.\<close>

definition as_secs_f64 :: "duration \<Rightarrow> f64" where
  "as_secs_f64 d =
     f64_add (f64_of_u64 (word_of_nat (d div 1000000000)))
       (f64_div (f64_of_u32 (word_of_nat (d mod 1000000000))) 1000000000)"

definition duration_to_millis_f64 :: "duration \<Rightarrow> f64" where
  "duration_to_millis_f64 d = f64_mul (as_secs_f64 d) 1000"

definition validate_upstream_address :: "string \<Rightarrow> unit result" where
  "validate_upstream_address address =
     (if address = [] then Inl (err_config ''Upstream address cannot be empty'')
      else if CHR '':'' \<notin> set address then Inl (err_config ''Upstream address must include port'')
      else res_bind (parse_address address) (\<lambda>_. Inr ()))"

definition create_timeout :: "u64 \<Rightarrow> string \<Rightarrow> duration result" where
  "create_timeout timeout_ms operation =
     (if timeout_ms = 0 then Inl (err_config (operation @ '' timeout cannot be zero''))
      else if timeout_ms > 300000
        then Inl (err_config (operation @ '' timeout cannot exceed 5 minutes''))
      else Inr (millis_to_duration timeout_ms))"

lemma parse_address_ok: "parse_address s = Inr a \<longleftrightarrow> parse_socket_addr s = Some a"
  by (simp add: parse_address_def split: option.splits)

lemma parse_address_error: "parse_address s = Inl e \<Longrightarrow> is_config e"
  by (auto simp: parse_address_def split: option.splits)

text \<open>Every IPv4 endpoint is accepted in the form it is displayed in.\<close>

lemma parse_address_show_v4: "parse_address (show_socket_addr (V4 ip port)) = Inr (V4 ip port)"
  unfolding parse_address_ok by (rule parse_show_socket_addr_v4)

lemma validate_upstream_address_ok:
  "validate_upstream_address s = Inr () \<longleftrightarrow>
     s \<noteq> [] \<and> CHR '':'' \<in> set s \<and> (\<exists>a. parse_socket_addr s = Some a)"
  by (auto simp: validate_upstream_address_def res_bind_Inr_iff parse_address_ok)

lemma create_timeout_ok:
  "create_timeout t op = Inr d \<longleftrightarrow> 0 < unat t \<and> unat t \<le> 300000 \<and> d = unat t * 1000000"
  by (auto simp: create_timeout_def millis_to_duration_def word_less_nat_alt unat_gt_0)

text \<open>A host name is never an address.\<close>

lemma parse_address_host_name:
  assumes "to_digit 10 c = None" "c \<noteq> CHR ''[''"
  shows "parse_address (c # s) =
    Inl (err_config (''Invalid address '' @ quoted (c # s) @ '': '' @ addr_parse_error_text))"
  using parse_socket_addr_letter [OF assms] by (simp add: parse_address_def)

section \<open>The contract of the trait\<close>

text \<open>
  What the proxy manager relies on: a configuration that passes is of the proxy's own type, an
  error of \<open>validate_config\<close> is a configuration error, and the two status queries always answer.
\<close>

locale proxy =
  fixes type_of :: proxy_type
    and validate :: "proxy_instance_config \<Rightarrow> unit result"
    and metrics_of :: "'s \<Rightarrow> proxy_metrics result"
    and health_of :: "'s \<Rightarrow> proxy_health result"
  assumes validate_type: "validate c = Inr () \<Longrightarrow> inst_proxy_type c = type_of"
    and validate_error: "validate c = Inl e \<Longrightarrow> is_config e"
    and metrics_ok: "\<exists>m. metrics_of s = Inr m"
    and health_ok: "\<exists>h. health_of s = Inr h"
begin

lemma wrong_type_rejected:
  assumes "inst_proxy_type c \<noteq> type_of"
  obtains e where "validate c = Inl e" "is_config e"
  using assms validate_type validate_error by (cases "validate c") auto

end

text \<open>The trait's own bodies of the two queries, for an implementation that does not override them.\<close>

definition trait_get_metrics :: "proxy_metrics result" where
  "trait_get_metrics = Inr proxy_metrics_default"

definition trait_health_check :: "proxy_health result" where
  "trait_health_check = Inr \<lparr>ph_status = Healthy, ph_message = ''OK''\<rparr>"

interpretation trait_defaults: proxy t "\<lambda>c. if inst_proxy_type c = t then Inr () else Inl (err_config [])"
    "\<lambda>_. trait_get_metrics" "\<lambda>_. trait_health_check" for t
  by unfold_locales
    (auto simp: trait_get_metrics_def trait_health_check_def error_constructors error_predicates split: if_splits)

section \<open>Counting requests in flight\<close>

text \<open>
  The proxies bracket every request: \<open>start\<close> adds to the total and to the number of active
  requests, \<open>finish\<close> takes it off the active ones. The counters are atomics, so a history is any
  interleaving of the two.
\<close>

locale in_flight =
  fixes start :: "'m \<Rightarrow> 'm"
    and finish :: "'a \<Rightarrow> 'm \<Rightarrow> 'm"
    and total :: "'m \<Rightarrow> u64"
    and active :: "'m \<Rightarrow> usize"
  assumes start_total: "total (start m) = total m + 1"
    and start_active: "active (start m) = active m + 1"
    and finish_total: "total (finish a m) = total m"
    and finish_active: "active (finish a m) = active m - 1"
begin

definition run :: "'m \<Rightarrow> 'a option list \<Rightarrow> 'm" where
  "run = foldl (\<lambda>m e. case e of None \<Rightarrow> start m | Some a \<Rightarrow> finish a m)"

lemma run_total: "total (run m es) = total m + word_of_nat (count_of ((=) None) es)"
  by (induction es arbitrary: m)
    (auto simp: run_def count_of_def start_total finish_total split: option.splits)

lemma run_active:
  "active (run m es) =
     active m + word_of_nat (count_of ((=) None) es) - word_of_nat (count_of ((\<noteq>) None) es)"
  by (induction es arbitrary: m)
    (auto simp: run_def count_of_def start_active finish_active split: option.splits)

text \<open>Every finish belongs to a start, so the active counter is the number still running.\<close>

lemma run_active_unat:
  assumes "active m = 0" "count_of ((\<noteq>) None) es \<le> count_of ((=) None) es" "length es < 2 ^ 64"
  shows "unat (active (run m es)) = count_of ((=) None) es - count_of ((\<noteq>) None) es"
proof -
  let ?s = "count_of ((=) None) es" and ?f = "count_of ((\<noteq>) None) es"
  have "?s < 2 ^ 64" using count_of_le_length [of "(=) None" es] assms(3) by linarith
  moreover have "active (run m es) = word_of_nat (?s - ?f)"
    using assms(1,2) by (simp add: run_active)
  ultimately show ?thesis by (simp add: unat_of_nat_small)
qed

end


section \<open>Properties\<close>

text \<open>Every IPv4 socket address is accepted in the form it is displayed in and read back as
itself; the upstream check accepts it too.\<close>

theorem parse_address_roundtrip:
  "parse_address (show_socket_addr (V4 ip port)) = Inr (V4 ip port) \<and>
   validate_upstream_address (show_socket_addr (V4 ip port)) = Inr ()"
proof -
  have "CHR '':'' \<in> set (show_socket_addr (V4 ip port))" by simp
  then show ?thesis
    using parse_address_show_v4 [of ip port]
    by (auto simp: validate_upstream_address_ok parse_address_ok)
qed

text \<open>A timeout is accepted exactly between one millisecond and five minutes, as that many
milliseconds; anything else is a configuration error.\<close>

lemma create_timeout_exact:
  "case create_timeout timeout_ms operation of
     Inr d \<Rightarrow> unat timeout_ms \<in> {1..300000} \<and> d = unat timeout_ms * 1000000
   | Inl e \<Rightarrow> unat timeout_ms \<notin> {1..300000} \<and> is_config e"
proof (cases "create_timeout timeout_ms operation")
  case (Inl e)
  then have "\<not> (0 < unat timeout_ms \<and> unat timeout_ms \<le> 300000)"
    using create_timeout_ok [of timeout_ms operation "unat timeout_ms * 1000000"] by auto
  with Inl show ?thesis by (auto simp: create_timeout_def split: if_splits)
next
  case (Inr d)
  with create_timeout_ok [of timeout_ms operation d] show ?thesis by simp
qed

text \<open>An address that begins with a host name is refused by every parser of the proxies,
although the example configurations of the README name upstreams that way.\<close>

theorem host_name_refused:
  assumes "to_digit 10 c = None" "c \<noteq> CHR ''[''"
  shows "\<exists>e. parse_address (c # s) = Inl e \<and> is_config e \<and>
    (\<exists>e'. validate_upstream_address (c # s) = Inl e' \<and> is_config e')"
  using parse_address_host_name [OF assms, of s]
  by (auto simp: validate_upstream_address_def)

lemma host_name_refused_witness:
  "\<exists>e. parse_address ''postgres-primary:5432'' = Inl e \<and> is_config e"
proof -
  have "to_digit 10 (CHR ''p'') = None" by code_simp
  from host_name_refused [OF this, of "''ostgres-primary:5432''"] show ?thesis by auto
qed

end
