(* ===== verification/Http_Proxy.thy ===== *)
theory Http_Proxy
  imports Balancer_Fairness Proxy_Base
begin

text \<open>
  The HTTP proxy (\<open>src/proxy/http.rs\<close>): session keys, the upstream URI, header transformation, the
  request handler with its metrics, validation and the status queries. The hyper types are
  arguments: \<open>http_lib\<close> holds the parsers and the header-map operations the code calls, and a
  request to an upstream is answered by a function of the request and its timeout.
\<close>

section \<open>The HTTP library\<close>

record uri =
  uri_scheme :: "string option"
  uri_authority :: "string option"
  uri_path_and_query :: "string option"

record 'h http_request =
  rq_uri :: uri
  rq_headers :: 'h
  rq_body :: string

record 'h http_response =
  rs_status :: u16
  rs_headers :: 'h
  rs_body :: string

text \<open>
  A parser gives an error text or a value; the value of \<open>HeaderName::from_bytes\<close> is the name in its
  normal form. A header value is its text; \<open>lib_to_str\<close> is \<open>to_str().ok()\<close>.
\<close>

record 'h http_lib =
  lib_parse_uri :: "string \<Rightarrow> string + uri"
  lib_header_name :: "string \<Rightarrow> string + string"
  lib_header_value :: "string \<Rightarrow> string + string"
  lib_to_str :: "string \<Rightarrow> string option"
  lib_empty :: 'h
  lib_get :: "'h \<Rightarrow> string \<Rightarrow> string option"
  lib_insert :: "'h \<Rightarrow> string \<Rightarrow> string \<Rightarrow> 'h"
  lib_remove :: "'h \<Rightarrow> string \<Rightarrow> 'h"

text \<open>What \<open>timeout(request_timeout, client.request(req)).await\<close> gives.\<close>

datatype 'h client_outcome =
    Responded duration "'h http_response"
  | Client_Failed string
  | Timed_Out

section \<open>State\<close>

record http_metrics =
  hm_requests_total :: u64
  hm_connections_active :: usize
  hm_bytes_sent :: u64
  hm_bytes_received :: u64
  hm_request_durations :: "f64 list"
  hm_status_codes :: "(u16 \<times> u64) list"

definition http_metrics_default :: http_metrics where
  "http_metrics_default =
     \<lparr>hm_requests_total = 0, hm_connections_active = 0, hm_bytes_sent = 0, hm_bytes_received = 0,
      hm_request_durations = [], hm_status_codes = []\<rparr>"

type_synonym http_state = "http_metrics \<times> upstream_heap \<times> balancer"

section \<open>Requests\<close>

text \<open>The closure of \<open>find_map\<close> over the cookies.\<close>

definition session_cookie :: "string \<Rightarrow> string option" where
  "session_cookie cookie =
     (case split_once (CHR ''='') (trim cookie) of
        (name, Some value) \<Rightarrow> if name = ''session_id'' then Some value else None
      | (_, None) \<Rightarrow> None)"

definition extract_session_key :: "'h http_lib \<Rightarrow> 'h http_request \<Rightarrow> string option" where
  "extract_session_key lib req =
     (let get = lib_get lib (rq_headers req);
          from_cookie =
            Option.bind (Option.bind (get ''cookie'') (lib_to_str lib))
              (\<lambda>cookies. find_map session_cookie (split_on (CHR '';'') cookies))
      in case from_cookie of
           Some value \<Rightarrow> Some value
         | None \<Rightarrow>
             Option.bind
               (case get ''x-forwarded-for'' of Some v \<Rightarrow> Some v | None \<Rightarrow> get ''x-real-ip'')
               (lib_to_str lib))"

definition map_err :: "('e \<Rightarrow> 'f) \<Rightarrow> 'e + 'a \<Rightarrow> 'f + 'a" where
  "map_err f r = (case r of Inl e \<Rightarrow> Inl (f e) | Inr a \<Rightarrow> Inr a)"

definition unwrap_or :: "'a \<Rightarrow> 'a option \<Rightarrow> 'a" where
  "unwrap_or d x = (case x of Some a \<Rightarrow> a | None \<Rightarrow> d)"

definition build_upstream_uri :: "'h http_lib \<Rightarrow> upstream_info \<Rightarrow> uri \<Rightarrow> uri result" where
  "build_upstream_uri lib upstream original_uri =
     res_bind
       (map_err (\<lambda>e. err_config (''Invalid upstream address: '' @ e))
         (lib_parse_uri lib (up_address (ui_config upstream))))
       (\<lambda>upstream_base.
         let path_and_query = unwrap_or ''/'' (uri_path_and_query original_uri);
             upstream_uri =
               unwrap_or ''http'' (uri_scheme upstream_base) @ ''://'' @
               unwrap_or (up_address (ui_config upstream)) (uri_authority upstream_base) @
               path_and_query
         in map_err (\<lambda>e. err_internal (''Failed to build upstream URI: '' @ e))
              (lib_parse_uri lib upstream_uri))"

definition header_name :: "'h http_lib \<Rightarrow> string \<Rightarrow> string result" where
  "header_name lib name =
     map_err (\<lambda>e. err_config (''Invalid header name '' @ quoted name @ '': '' @ e))
       (lib_header_name lib name)"

definition header_value :: "'h http_lib \<Rightarrow> string \<Rightarrow> string result" where
  "header_value lib value =
     map_err (\<lambda>e. err_config (''Invalid header value '' @ quoted value @ '': '' @ e))
       (lib_header_value lib value)"

fun add_headers :: "'h http_lib \<Rightarrow> 'h \<Rightarrow> (string \<times> string) list \<Rightarrow> 'h result" where
  "add_headers lib headers [] = Inr headers"
| "add_headers lib headers ((name, value) # rest) =
     res_bind (header_name lib name) (\<lambda>n.
     res_bind (header_value lib value) (\<lambda>v.
     add_headers lib (lib_insert lib headers n v) rest))"

fun remove_headers :: "'h http_lib \<Rightarrow> 'h \<Rightarrow> string list \<Rightarrow> 'h result" where
  "remove_headers lib headers [] = Inr headers"
| "remove_headers lib headers (name # rest) =
     res_bind (header_name lib name) (\<lambda>n. remove_headers lib (lib_remove lib headers n) rest)"

definition transform_request ::
  "'h http_lib \<Rightarrow> 'h http_request \<Rightarrow> http_proxy_config \<Rightarrow> 'h http_request result" where
  "transform_request lib req config =
     res_bind (add_headers lib (rq_headers req) (http_add_headers config)) (\<lambda>headers.
     res_bind (remove_headers lib headers (http_remove_headers config)) (\<lambda>headers.
     Inr (req\<lparr>rq_headers := headers\<rparr>)))"

definition transform_response ::
  "'h http_lib \<Rightarrow> 'h http_response \<Rightarrow> http_proxy_config \<Rightarrow> 'h http_response result" where
  "transform_response lib response config =
     Inr (response\<lparr>rs_headers :=
            lib_insert lib (rs_headers response) ''X-Proxy-Server'' ''Harbr-Router''\<rparr>)"

definition estimate_body_size :: "string \<Rightarrow> u64" where
  "estimate_body_size body = 0"

definition create_error_response :: "'h http_lib \<Rightarrow> u16 \<Rightarrow> string \<Rightarrow> 'h http_response" where
  "create_error_response lib status message =
     \<lparr>rs_status = status,
      rs_headers = lib_insert lib (lib_empty lib) ''Content-Type'' ''text/plain'',
      rs_body = message\<rparr>"

section \<open>The request handler\<close>

text \<open>\<open>process_request\<close> up to its only suspension point, and from there on.\<close>

definition route_request ::
  "(string \<Rightarrow> u64) \<Rightarrow> 'h http_lib \<Rightarrow> http_proxy_config \<Rightarrow> 'h http_request \<Rightarrow> http_state \<Rightarrow>
   (arc \<times> 'h http_request) result \<times> http_state" where
  "route_request hasher lib config req s =
     (let (m, h, lb) = s;
          (selected, lb) = select_upstream hasher h (extract_session_key lib req) lb
      in case selected of
           None \<Rightarrow>
             (Inl (err_proxy ''No healthy upstream available'' ''http'' ''unknown''), (m, h, lb))
         | Some p \<Rightarrow>
             (case res_bind (build_upstream_uri lib (h ! p) (rq_uri req))
                     (\<lambda>u. transform_request lib (req\<lparr>rq_uri := u\<rparr>) config) of
                Inl e \<Rightarrow> (Inl e, (m, h, lb))
              | Inr req \<Rightarrow>
                  (Inr (p, req),
                   (m\<lparr>hm_bytes_sent := hm_bytes_sent m + estimate_body_size (rq_body req)\<rparr>, h, lb))))"

definition complete_request ::
  "'h http_lib \<Rightarrow> http_proxy_config \<Rightarrow> instant \<Rightarrow> arc \<Rightarrow> 'h client_outcome \<Rightarrow> http_state \<Rightarrow>
   'h http_response result \<times> http_state" where
  "complete_request lib config now p outcome s =
     (let (m, h, lb) = s; name = up_name (ui_config (h ! p))
      in case outcome of
           Responded elapsed response \<Rightarrow>
             (transform_response lib response config,
              (m\<lparr>hm_bytes_received := hm_bytes_received m + estimate_body_size (rs_body response)\<rparr>,
               on_stats (record_success now elapsed) p h, lb))
         | Client_Failed e \<Rightarrow>
             (Inl (err_network (''Request to upstream '' @ quoted name @ '' failed: '' @ e)
                ConnectionFailed),
              (m, on_stats (record_failure now) p h, lb))
         | Timed_Out \<Rightarrow>
             (Inl (err_network (''Request to upstream '' @ quoted name @ '' timed out'') Timeout),
              (m, on_stats (record_failure now) p h, lb)))"

text \<open>The environment of one request: the clock, the total time taken and the upstreams' answer.\<close>

record 'h exchange =
  ex_request :: "'h http_request"
  ex_now :: instant
  ex_elapsed :: duration
  ex_client :: "duration \<Rightarrow> 'h http_request \<Rightarrow> 'h client_outcome"

definition process_request ::
  "(string \<Rightarrow> u64) \<Rightarrow> 'h http_lib \<Rightarrow> http_proxy_config \<Rightarrow> 'h exchange \<Rightarrow> http_state \<Rightarrow>
   'h http_response result \<times> http_state" where
  "process_request hasher lib config x s =
     (case route_request hasher lib config (ex_request x) s of
        (Inl e, s1) \<Rightarrow> (Inl e, s1)
      | (Inr (p, req), s1) \<Rightarrow>
          (let request_timeout =
                 millis_to_duration (up_timeout_ms (ui_config (fst (snd s1) ! p)))
           in complete_request lib config (ex_now x) p (ex_client x request_timeout req) s1))"

definition http_begin :: "http_metrics \<Rightarrow> http_metrics" where
  "http_begin m =
     m\<lparr>hm_requests_total := hm_requests_total m + 1,
       hm_connections_active := hm_connections_active m + 1\<rparr>"

definition push_duration :: "f64 \<Rightarrow> f64 list \<Rightarrow> f64 list" where
  "push_duration d durations =
     (let durations = durations @ [d]
      in if length durations > 10000 then drop 1000 durations else durations)"

text \<open>\<open>*status_codes.entry(status).or_insert(0) += 1\<close>.\<close>

fun count_status :: "u16 \<Rightarrow> (u16 \<times> u64) list \<Rightarrow> (u16 \<times> u64) list" where
  "count_status status [] = [(status, 1)]"
| "count_status status ((s, n) # cs) =
     (if s = status then (s, n + 1) # cs else (s, n) # count_status status cs)"

definition http_end :: "duration \<Rightarrow> u16 \<Rightarrow> http_metrics \<Rightarrow> http_metrics" where
  "http_end elapsed status m =
     (let m = m\<lparr>hm_connections_active := hm_connections_active m - 1\<rparr>;
          m = m\<lparr>hm_request_durations :=
                  push_duration (duration_to_millis_f64 elapsed) (hm_request_durations m)\<rparr>
      in m\<lparr>hm_status_codes := count_status status (hm_status_codes m)\<rparr>)"

definition http_reply :: "'h http_lib \<Rightarrow> 'h http_response result \<Rightarrow> 'h http_response" where
  "http_reply lib r =
     (case r of Inr response \<Rightarrow> response | Inl e \<Rightarrow> create_error_response lib 502 ''Bad Gateway'')"

definition http_handle_request ::
  "(string \<Rightarrow> u64) \<Rightarrow> 'h http_lib \<Rightarrow> http_proxy_config \<Rightarrow> 'h exchange \<Rightarrow> http_state \<Rightarrow>
   'h http_response \<times> http_state" where
  "http_handle_request hasher lib config x s =
     (let (m, h, lb) = s;
          (result, (m, h, lb)) = process_request hasher lib config x (http_begin m, h, lb)
      in (http_reply lib result,
          (http_end (ex_elapsed x) (rs_status (http_reply lib result)) m, h, lb)))"

text \<open>Requests one after the other.\<close>

fun http_serve ::
  "(string \<Rightarrow> u64) \<Rightarrow> 'h http_lib \<Rightarrow> http_proxy_config \<Rightarrow> 'h exchange list \<Rightarrow> http_state \<Rightarrow>
   'h http_response list \<times> http_state" where
  "http_serve hasher lib config [] s = ([], s)"
| "http_serve hasher lib config (x # xs) s =
     (let (r, s1) = http_handle_request hasher lib config x s;
          (rs, s2) = http_serve hasher lib config xs s1
      in (r # rs, s2))"

section \<open>Validation and status\<close>

definition check_header_name :: "'h http_lib \<Rightarrow> string \<Rightarrow> unit result" where
  "check_header_name lib name = res_bind (header_name lib name) (\<lambda>_. Inr ())"

definition http_validate_config :: "'h http_lib \<Rightarrow> proxy_instance_config \<Rightarrow> unit result" where
  "http_validate_config lib config =
     (if inst_proxy_type config \<noteq> Http then Inl (err_config ''Invalid proxy type for HTTP proxy'')
      else
        let c = ps_http (inst_config config) in
        if http_max_request_size c = 0
          then Inl (err_config ''HTTP max_request_size must be greater than 0'')
        else if http_max_request_size c > 1024 * 1024 * 1024
          then Inl (err_config ''HTTP max_request_size cannot exceed 1GB'')
        else if http_request_timeout_secs c = 0
          then Inl (err_config ''HTTP request_timeout_secs must be greater than 0'')
        else
          res_bind (try_all (\<lambda>(name, _). check_header_name lib name) (http_add_headers c)) (\<lambda>_.
          try_all (check_header_name lib) (http_remove_headers c)))"

definition http_get_metrics :: "http_metrics \<Rightarrow> proxy_metrics result" where
  "http_get_metrics m =
     (let durations = hm_request_durations m;
          avg = (if durations = [] then 0
                 else f64_div (f64_sum durations) (f64_of_u64 (word_of_nat (length durations))));
          total_responses = sum_list (map snd (hm_status_codes m));
          error_responses =
            sum_list (map snd (filter (\<lambda>(status, _). status \<ge> 400) (hm_status_codes m)));
          error_rate = (if total_responses > 0
                        then f64_div (f64_of_u64 error_responses) (f64_of_u64 total_responses)
                        else 0)
      in Inr \<lparr>pm_total_requests = hm_requests_total m,
              pm_active_connections = hm_connections_active m,
              pm_bytes_sent = hm_bytes_sent m, pm_bytes_received = hm_bytes_received m,
              pm_request_rate = 0, pm_error_rate = error_rate, pm_avg_response_time_ms = avg\<rparr>)"

definition http_health_check :: "http_metrics \<Rightarrow> proxy_health result" where
  "http_health_check m =
     (let active_connections = hm_connections_active m; total_requests = hm_requests_total m;
          status = (if active_connections < 10000 \<and> total_requests > 0 then Healthy
                    else if active_connections \<ge> 10000 then Unhealthy else Unknown)
      in Inr \<lparr>ph_status = status,
              ph_message = ''Active connections: '' @ show_nat (unat active_connections) @
                '', Total requests: '' @ show_nat (unat total_requests)\<rparr>)"

section \<open>Lemmas: requests\<close>

lemma map_err_simps [simp]:
  "map_err f (Inl e) = Inl (f e)" "map_err f (Inr a) = Inr a"
  by (simp_all add: map_err_def)

lemma map_err_Inr_iff [res_simps]: "map_err f r = Inr a \<longleftrightarrow> r = Inr a"
  by (cases r) simp_all

lemma map_err_Inl_iff [res_simps]: "map_err f r = Inl e \<longleftrightarrow> (\<exists>e'. r = Inl e' \<and> e = f e')"
  by (cases r) auto

lemma header_name_error: "header_name lib n = Inl e \<Longrightarrow> is_config e"
  by (auto simp: header_name_def res_simps)

lemma header_value_error: "header_value lib n = Inl e \<Longrightarrow> is_config e"
  by (auto simp: header_value_def res_simps)

lemma build_upstream_uri_ok:
  assumes "lib_parse_uri lib (up_address (ui_config u)) = Inr base"
  shows "build_upstream_uri lib u uri =
    map_err (\<lambda>e. err_internal (''Failed to build upstream URI: '' @ e))
      (lib_parse_uri lib
        (unwrap_or ''http'' (uri_scheme base) @ ''://'' @
         unwrap_or (up_address (ui_config u)) (uri_authority base) @
         unwrap_or ''/'' (uri_path_and_query uri)))"
  using assms by (simp add: build_upstream_uri_def)

lemma build_upstream_uri_bad_address:
  "lib_parse_uri lib (up_address (ui_config u)) = Inl e \<Longrightarrow>
     build_upstream_uri lib u uri = Inl (err_config (''Invalid upstream address: '' @ e))"
  by (simp add: build_upstream_uri_def)

text \<open>The laws of the header map that the transformation needs, over the normal form of names.\<close>

definition header_laws :: "'h http_lib \<Rightarrow> (string \<Rightarrow> string) \<Rightarrow> bool" where
  "header_laws lib nf \<longleftrightarrow>
     (\<forall>h n v n'. lib_get lib (lib_insert lib h n v) n' =
        (if nf n' = nf n then Some v else lib_get lib h n')) \<and>
     (\<forall>h n n'. lib_get lib (lib_remove lib h n) n' =
        (if nf n' = nf n then None else lib_get lib h n')) \<and>
     (\<forall>n n'. lib_header_name lib n = Inr n' \<longrightarrow> n' = nf n) \<and>
     (\<forall>v v'. lib_header_value lib v = Inr v' \<longrightarrow> v' = v) \<and>
     (\<forall>n. nf (nf n) = nf n)"

lemma header_lawsD:
  assumes "header_laws lib nf"
  shows "lib_get lib (lib_insert lib h n v) n' = (if nf n' = nf n then Some v else lib_get lib h n')"
    "lib_get lib (lib_remove lib h n) n' = (if nf n' = nf n then None else lib_get lib h n')"
    "header_name lib n = Inr n' \<Longrightarrow> n' = nf n"
    "header_value lib v = Inr v' \<Longrightarrow> v' = v"
    "nf (nf n) = nf n"
  using assms by (simp_all add: header_laws_def header_name_def header_value_def res_simps)

definition configured_header ::
  "(string \<Rightarrow> string) \<Rightarrow> (string \<times> string) list \<Rightarrow> string \<Rightarrow> string option" where
  "configured_header nf hs n =
     map_of (rev (map (\<lambda>(name, value). (nf name, value)) hs)) (nf n)"

lemma add_headers_get:
  assumes "header_laws lib nf" "add_headers lib h hs = Inr h'"
  shows "lib_get lib h' n =
    (case configured_header nf hs n of Some v \<Rightarrow> Some v | None \<Rightarrow> lib_get lib h n)"
  using assms(2)
proof (induction hs arbitrary: h)
  case (Cons nv hs)
  obtain name val where nv: "nv = (name, val)" by fastforce
  from Cons.prems obtain n' v' where n': "header_name lib name = Inr n'" "header_value lib val = Inr v'"
    "add_headers lib (lib_insert lib h n' v') hs = Inr h'"
    by (auto simp: nv res_simps)
  then have "n' = nf name" "v' = val" using header_lawsD(3,4) [OF assms(1)] by blast+
  with Cons.IH [OF n'(3)] show ?case
    by (simp add: nv configured_header_def map_add_def header_lawsD [OF assms(1)] split: option.splits)
qed (simp add: configured_header_def)

lemma remove_headers_get:
  assumes "header_laws lib nf" "remove_headers lib h ns = Inr h'"
  shows "lib_get lib h' n = (if nf n \<in> nf ` set ns then None else lib_get lib h n)"
  using assms(2)
proof (induction ns arbitrary: h)
  case (Cons name ns)
  from Cons.prems obtain n' where n': "header_name lib name = Inr n'"
    "remove_headers lib (lib_remove lib h n') ns = Inr h'"
    by (auto simp: res_simps)
  then have "n' = nf name" using header_lawsD(3) [OF assms(1)] by blast
  with Cons.IH [OF n'(2)] show ?case by (auto simp: header_lawsD [OF assms(1)])
qed simp

lemma transform_request_headers:
  assumes "header_laws lib nf" "transform_request lib req config = Inr req'"
  shows "rq_uri req' = rq_uri req" "rq_body req' = rq_body req"
    and "lib_get lib (rq_headers req') n =
      (if nf n \<in> nf ` set (http_remove_headers config) then None
       else case configured_header nf (http_add_headers config) n of
              Some v \<Rightarrow> Some v | None \<Rightarrow> lib_get lib (rq_headers req) n)"
proof -
  from assms(2) obtain h1 h2 where h: "add_headers lib (rq_headers req) (http_add_headers config) = Inr h1"
    "remove_headers lib h1 (http_remove_headers config) = Inr h2" "req' = req\<lparr>rq_headers := h2\<rparr>"
    by (auto simp: transform_request_def res_simps)
  from h(3) show "rq_uri req' = rq_uri req" "rq_body req' = rq_body req" by simp_all
  from h show "lib_get lib (rq_headers req') n =
      (if nf n \<in> nf ` set (http_remove_headers config) then None
       else case configured_header nf (http_add_headers config) n of
              Some v \<Rightarrow> Some v | None \<Rightarrow> lib_get lib (rq_headers req) n)"
    by (simp add: remove_headers_get [OF assms(1) h(2)] add_headers_get [OF assms(1) h(1)])
qed

section \<open>Lemmas: the handler\<close>

text \<open>Which configuration fields a request sees.\<close>

lemma transform_request_fields:
  "http_add_headers c = http_add_headers c' \<Longrightarrow> http_remove_headers c = http_remove_headers c' \<Longrightarrow>
     transform_request lib req c = transform_request lib req c'"
  by (simp add: transform_request_def)

lemma http_handle_request_fields:
  assumes "http_add_headers c = http_add_headers c'" "http_remove_headers c = http_remove_headers c'"
  shows "http_handle_request hasher lib c x s = http_handle_request hasher lib c' x s"
  unfolding http_handle_request_def process_request_def route_request_def complete_request_def
    transform_response_def transform_request_fields [OF assms] by (rule refl)

definition heap_balanced :: "upstream_heap \<Rightarrow> bool" where
  "heap_balanced h \<longleftrightarrow> (\<forall>u \<in> set h. stats_balanced (ui_stats u))"

lemma heap_balanced_on_stats:
  assumes "heap_balanced h" "\<And>s. stats_balanced s \<Longrightarrow> stats_balanced (f s)"
  shows "heap_balanced (on_stats f p h)"
proof (cases "p < length h")
  case True
  with assms show ?thesis
    by (auto simp: heap_balanced_def on_stats_def dest!: subsetD [OF set_update_subset_insert])
next
  case False
  with assms show ?thesis by (simp add: on_stats_def list_update_beyond)
qed

text \<open>The router's part of the state stays well formed, whatever the upstream answers.\<close>

definition http_wf :: "(string \<Rightarrow> u64) \<Rightarrow> http_state \<Rightarrow> bool" where
  "http_wf hasher s = (case s of (m, h, lb) \<Rightarrow> balancer_wf hasher h lb \<and> heap_balanced h)"

lemma route_request_wf:
  assumes "http_wf hasher s" "route_request hasher lib config req s = (r, s1)"
  shows "http_wf hasher s1" "fst (snd s1) = fst (snd s)"
    "r = Inr (p, req') \<Longrightarrow> p \<in> set (lb_upstreams (snd (snd s1))) \<and> heap_available (fst (snd s1)) p"
proof -
  obtain m h lb where s: "s = (m, h, lb)" by (metis surj_pair)
  obtain q lb1 where q: "select_upstream hasher h (extract_session_key lib req) lb = (q, lb1)"
    by fastforce
  have wf: "balancer_wf hasher h lb" "heap_balanced h" using assms(1) by (simp_all add: s http_wf_def)
  from balancer_select.pick_frame [OF wf(1) q]
  have lb1: "balancer_wf hasher h lb1" "lb_upstreams lb1 = lb_upstreams lb" by auto
  note sound = balancer_select.pick_sound [OF wf(1), of "extract_session_key lib req"]
  show "http_wf hasher s1" "fst (snd s1) = fst (snd s)"
    using assms(2) lb1(1) wf(2)
    by (auto simp: route_request_def s q http_wf_def split: option.splits sum.splits prod.splits)
  show "p \<in> set (lb_upstreams (snd (snd s1))) \<and> heap_available (fst (snd s1)) p" if "r = Inr (p, req')"
    using assms(2) lb1(2) that sound
    by (auto simp: route_request_def s q split: option.splits sum.splits prod.splits)
qed

lemma complete_request_wf:
  assumes "http_wf hasher s" "complete_request lib config now p outcome s = (r, s1)"
  shows "http_wf hasher s1"
  using assms
  by (cases outcome)
    (auto simp: complete_request_def http_wf_def Let_def intro!: balancer_wf_on_stats
      heap_balanced_on_stats split: prod.splits)

lemma process_request_wf:
  assumes "http_wf hasher s" "process_request hasher lib config x s = (r, s1)"
  shows "http_wf hasher s1"
proof -
  obtain r1 s' where r1: "route_request hasher lib config (ex_request x) s = (r1, s')" by (metis surj_pair)
  note wf = route_request_wf(1) [OF assms(1) r1]
  show ?thesis
  proof (cases r1)
    case (Inl e)
    with assms(2) r1 wf show ?thesis by (simp add: process_request_def)
  next
    case (Inr pr)
    then obtain p req where pr: "r1 = Inr (p, req)" by (cases pr) simp
    with assms(2) r1 show ?thesis
      by (intro complete_request_wf [OF wf]) (simp add: process_request_def Let_def)
  qed
qed

lemma http_handle_request_wf:
  assumes "http_wf hasher s" "http_handle_request hasher lib config x s = (r, s1)"
  shows "http_wf hasher s1"
proof -
  obtain m h lb where s: "s = (m, h, lb)" by (metis surj_pair)
  obtain r1 m1 h1 lb1 where r1: "process_request hasher lib config x (http_begin m, h, lb) = (r1, m1, h1, lb1)"
    by (metis surj_pair)
  have "http_wf hasher (http_begin m, h, lb)" using assms(1) by (simp add: s http_wf_def)
  from process_request_wf [OF this r1] assms(2) show ?thesis
    by (auto simp: http_handle_request_def s r1 http_wf_def)
qed

lemma http_serve_wf:
  "http_wf hasher s \<Longrightarrow> http_serve hasher lib config xs s = (rs, s1) \<Longrightarrow>
     http_wf hasher s1 \<and> length rs = length xs"
proof (induction xs arbitrary: s rs)
  case (Cons x xs)
  obtain r s' where r: "http_handle_request hasher lib config x s = (r, s')" by (metis surj_pair)
  obtain rs' where "http_serve hasher lib config xs s' = (rs', s1)" "rs = r # rs'"
    using Cons.prems(2) r by (auto split: prod.splits)
  with Cons.IH [OF http_handle_request_wf [OF Cons.prems(1) r]] show ?case by fastforce
qed simp

section \<open>Lemmas: the metrics\<close>

definition status_total :: "(u16 \<times> u64) list \<Rightarrow> u64" where
  "status_total cs = sum_list (map snd cs)"

lemma status_total_count: "status_total (count_status s cs) = status_total cs + 1"
  by (induction cs) (auto simp: status_total_def)

lemma count_status_lookup:
  "map_of (count_status s cs) t =
     (if t = s then Some (unwrap_or 0 (map_of cs s) + 1) else map_of cs t)"
  by (induction cs) (auto simp: unwrap_or_def)

lemma count_status_keys: "fst ` set (count_status s cs) = insert s (fst ` set cs)"
  by (induction cs) force+

lemma count_status_distinct:
  "distinct (map fst cs) \<Longrightarrow> distinct (map fst (count_status s cs))"
proof (induction cs)
  case (Cons c cs)
  then show ?case using count_status_keys [of s cs] by (cases c) auto
qed simp

lemma push_duration_length: "length ds \<le> 10000 \<Longrightarrow> length (push_duration d ds) \<le> 10000"
  by (auto simp add: push_duration_def Let_def)

lemma push_duration_last: "last (push_duration d ds) = d"
  by (simp add: push_duration_def Let_def)

text \<open>
  The invariant of the metrics: every request is either running or counted under one status code,
  and the window of durations is bounded.
\<close>

definition http_metrics_inv :: "http_metrics \<Rightarrow> bool" where
  "http_metrics_inv m \<longleftrightarrow>
     hm_requests_total m = hm_connections_active m + status_total (hm_status_codes m) \<and>
     length (hm_request_durations m) \<le> 10000 \<and> distinct (map fst (hm_status_codes m))"

lemma http_metrics_inv_default: "http_metrics_inv http_metrics_default"
  by (simp add: http_metrics_inv_def http_metrics_default_def status_total_def)

lemma http_metrics_inv_begin: "http_metrics_inv m \<Longrightarrow> http_metrics_inv (http_begin m)"
  by (simp add: http_metrics_inv_def http_begin_def)

lemma http_metrics_inv_end: "http_metrics_inv m \<Longrightarrow> http_metrics_inv (http_end d status m)"
  by (simp add: http_metrics_inv_def http_end_def Let_def status_total_count push_duration_length
      count_status_distinct)

lemma http_metrics_inv_bytes [simp]:
  "http_metrics_inv (m\<lparr>hm_bytes_sent := a\<rparr>) = http_metrics_inv m"
  "http_metrics_inv (m\<lparr>hm_bytes_received := b\<rparr>) = http_metrics_inv m"
  by (simp_all add: http_metrics_inv_def)

interpretation http_requests:
  in_flight http_begin "\<lambda>(elapsed, status). http_end elapsed status" hm_requests_total
    hm_connections_active
  by unfold_locales (auto simp: http_begin_def http_end_def Let_def)

lemma process_request_metrics:
  assumes "process_request hasher lib config x (m, s) = (r, m1, s1)"
  shows "hm_requests_total m1 = hm_requests_total m"
    "hm_connections_active m1 = hm_connections_active m"
    "hm_status_codes m1 = hm_status_codes m"
    "hm_request_durations m1 = hm_request_durations m"
  using assms
  by (auto simp: process_request_def route_request_def complete_request_def Let_def
      split: prod.splits option.splits sum.splits client_outcome.splits)

section \<open>Lemmas: what a client sees\<close>

lemma http_handle_request_metrics_inv:
  assumes "http_metrics_inv m" "http_handle_request hasher lib config x (m, s) = (r, m1, s1)"
  shows "http_metrics_inv m1" "hm_requests_total m1 = hm_requests_total m + 1"
    "hm_connections_active m1 = hm_connections_active m"
    "hm_status_codes m1 = count_status (rs_status r) (hm_status_codes m)"
proof -
  obtain r' m' s' where p: "process_request hasher lib config x (http_begin m, s) = (r', m', s')"
    by (metis surj_pair)
  obtain h lb where s: "s = (h, lb)" by (metis surj_pair)
  from p assms(2) have m1: "m1 = http_end (ex_elapsed x) (rs_status (http_reply lib r')) m'"
    "r = http_reply lib r'"
    by (auto simp: http_handle_request_def s split: prod.splits)
  note fields = process_request_metrics [OF p]
  have "http_metrics_inv m'"
    using http_metrics_inv_begin [OF assms(1)] fields by (simp add: http_metrics_inv_def)
  then show "http_metrics_inv m1" unfolding m1(1) by (rule http_metrics_inv_end)
  show "hm_requests_total m1 = hm_requests_total m + 1"
    "hm_connections_active m1 = hm_connections_active m"
    "hm_status_codes m1 = count_status (rs_status r) (hm_status_codes m)"
    using fields by (simp_all add: m1 http_end_def http_begin_def Let_def)
qed

text \<open>A request that finds no upstream, or fails on the way, is answered 502.\<close>

definition bad_gateway :: "'h http_lib \<Rightarrow> 'h http_response" where
  "bad_gateway lib = create_error_response lib 502 ''Bad Gateway''"

lemma http_handle_request_reply:
  "fst (http_handle_request hasher lib config x (m, h, lb)) =
     (case fst (process_request hasher lib config x (http_begin m, h, lb)) of
        Inl e \<Rightarrow> bad_gateway lib | Inr response \<Rightarrow> response)"
  by (simp add: http_handle_request_def http_reply_def bad_gateway_def split: prod.splits sum.splits)

lemma process_request_no_upstream:
  assumes "select_upstream hasher h (extract_session_key lib (ex_request x)) lb = (None, lb1)"
  shows "process_request hasher lib config x (m, h, lb) =
    (Inl (err_proxy ''No healthy upstream available'' ''http'' ''unknown''), m, h, lb1)"
  using assms by (simp add: process_request_def route_request_def)

text \<open>The lock-out of the health-aware strategy, seen by the clients.\<close>

definition http_locked_out :: "upstream_heap \<Rightarrow> balancer \<Rightarrow> bool" where
  "http_locked_out h lb \<longleftrightarrow>
     lb_strategy lb = HealthAware \<and> (\<forall>p \<in> set (lb_upstreams lb). never_succeeded (ui_stats (h ! p)))"

lemma http_handle_request_locked_out:
  assumes "http_locked_out h lb"
  shows "\<exists>m1. http_handle_request hasher lib config x (m, h, lb) = (bad_gateway lib, m1, h, lb)"
proof -
  have "select_upstream hasher h (extract_session_key lib (ex_request x)) lb = (None, lb)"
    using assms by (intro health_aware_locked_out) (simp_all add: http_locked_out_def)
  then show ?thesis
    by (simp add: http_handle_request_def process_request_no_upstream http_reply_def bad_gateway_def)
qed

lemma http_serve_locked_out:
  assumes "http_locked_out h lb"
  shows "\<exists>m1. http_serve hasher lib config xs (m, h, lb) =
    (replicate (length xs) (bad_gateway lib), m1, h, lb)"
proof (induction xs arbitrary: m)
  case (Cons x xs)
  from http_handle_request_locked_out [OF assms] obtain m1 where
    "http_handle_request hasher lib config x (m, h, lb) = (bad_gateway lib, m1, h, lb)" by blast
  with Cons.IH [of m1] show ?case by auto
qed simp

text \<open>One failed request is enough when there is one upstream.\<close>

lemma http_single_failure:
  assumes "lb_strategy lb = HealthAware" "lb_upstreams lb = [p]" "p < length h"
    and "requests_sent (ui_stats (h ! p)) = 0" "responses_received (ui_stats (h ! p)) = 0"
    and "route_request hasher lib config (ex_request x) (http_begin m, h, lb) = (Inr (p, req'), s')"
    and "\<And>t r. ex_client x t r = Timed_Out \<or> (\<exists>e. ex_client x t r = Client_Failed e)"
    and "http_handle_request hasher lib config x (m, h, lb) = (r, m1, h1, lb1)"
  shows "http_locked_out h1 lb1"
proof -
  obtain n where s': "fst (snd s') = h" "snd (snd s') = lb\<lparr>lb_rr_counter := n\<rparr>"
    using assms(6) select_upstream_frame [of hasher h "extract_session_key lib (ex_request x)" lb]
    by (fastforce simp: route_request_def split: prod.splits option.splits sum.splits)
  obtain a where a: "s' = (a, h, lb\<lparr>lb_rr_counter := n\<rparr>)" using s' by (metis prod.collapse)
  let ?t = "millis_to_duration (up_timeout_ms (ui_config (h ! p)))"
  from assms(6,8) a have fin: "(m1, h1, lb1) =
      (let (m, h, lb) = snd (complete_request lib config (ex_now x) p (ex_client x ?t req') s')
       in (http_end (ex_elapsed x) (rs_status r) m, h, lb))"
    by (auto simp: http_handle_request_def process_request_def Let_def split: prod.splits)
  have "h1 = on_stats (record_failure (ex_now x)) p h \<and> lb1 = lb\<lparr>lb_rr_counter := n\<rparr>"
    using assms(7) [of ?t req'] fin by (auto simp: a complete_request_def Let_def)
  then show ?thesis
    using assms(1-5)
    by (simp add: http_locked_out_def on_stats_nth never_succeeded_def record_failure_def)
qed

section \<open>Lemmas: validation and status\<close>

definition valid_http_instance :: "'h http_lib \<Rightarrow> proxy_instance_config \<Rightarrow> bool" where
  "valid_http_instance lib config \<longleftrightarrow>
     (let c = ps_http (inst_config config);
          good_name = (\<lambda>n. is_ok (lib_header_name lib n))
      in inst_proxy_type config = Http \<and>
         0 < unat (http_max_request_size c) \<and> unat (http_max_request_size c) \<le> 2 ^ 30 \<and>
         http_request_timeout_secs c \<noteq> 0 \<and>
         (\<forall>(name, v) \<in> set (http_add_headers c). good_name name) \<and>
         (\<forall>name \<in> set (http_remove_headers c). good_name name))"

lemma check_header_name_ok: "check_header_name lib n = Inr () \<longleftrightarrow> is_ok (lib_header_name lib n)"
  by (cases "lib_header_name lib n") (simp_all add: check_header_name_def header_name_def)

lemma check_header_name_error: "check_header_name lib n = Inl e \<Longrightarrow> is_config e"
  by (auto simp: check_header_name_def res_simps dest: header_name_error)

lemma http_validate_config_ok:
  "http_validate_config lib config = Inr () \<longleftrightarrow> valid_http_instance lib config"
proof -
  have "unat (http_max_request_size c) \<le> 2 ^ 30 \<longleftrightarrow> \<not> http_max_request_size c > 1024 * 1024 * 1024"
    for c :: http_proxy_config
    by (simp add: word_less_nat_alt not_less)
  then show ?thesis
    by (auto simp: http_validate_config_def valid_http_instance_def Let_def res_bind_Inr_iff
        try_all_ok_iff check_header_name_ok unat_gt_0 split: prod.splits)
qed

lemma try_all_config_error:
  "try_all f xs = Inl e \<Longrightarrow> (\<And>x e. f x = Inl e \<Longrightarrow> is_config e) \<Longrightarrow> is_config e"
  by (induction xs) (auto simp: res_bind_Inl_iff split: sum.splits)

lemma http_validate_config_error:
  assumes "http_validate_config lib config = Inl e"
  shows "is_config e"
  using assms
  by (auto simp: http_validate_config_def Let_def res_bind_Inl_iff
      split: if_splits dest!: try_all_config_error dest: check_header_name_error)

lemma http_get_metrics_fields:
  "http_get_metrics m = Inr pm \<Longrightarrow>
     pm_total_requests pm = hm_requests_total m \<and> pm_active_connections pm = hm_connections_active m \<and>
     pm_bytes_sent pm = hm_bytes_sent m \<and> pm_bytes_received pm = hm_bytes_received m"
  by (auto simp: http_get_metrics_def Let_def)

lemma http_error_rate_bounds:
  assumes "http_get_metrics m = Inr pm"
    and "sum_list (map (unat \<circ> snd) (hm_status_codes m)) < 2 ^ 64"
  shows "0 \<le> pm_error_rate pm" "pm_error_rate pm \<le> 1"
proof -
  let ?e = "sum_list (map snd (filter (\<lambda>(status, _). status \<ge> 400) (hm_status_codes m)))"
  let ?t = "sum_list (map snd (hm_status_codes m))"
  have "?e \<le> ?t" using assms(2) by (rule sum_words_filter_le)
  then have "f64_of_u64 ?e \<le> f64_of_u64 ?t" by (rule f64_of_u64_mono)
  moreover have "1 \<le> f64_of_u64 ?t" if "0 < ?t" using that by (intro f64_of_u64_ge_one) auto
  moreover have "pm_error_rate pm = (if 0 < ?t then f64_div (f64_of_u64 ?e) (f64_of_u64 ?t) else 0)"
    using assms(1) by (auto simp: http_get_metrics_def Let_def)
  ultimately show "0 \<le> pm_error_rate pm" "pm_error_rate pm \<le> 1"
    using f64_unit_div [of "f64_of_u64 ?e" "f64_of_u64 ?t"] by (auto split: if_splits)
qed

lemma http_health_check_status:
  "http_health_check m = Inr ph \<Longrightarrow>
     ph_status ph = (if 10000 \<le> unat (hm_connections_active m) then Unhealthy
                     else if hm_requests_total m = 0 then Unknown else Healthy)"
  by (auto simp: http_health_check_def Let_def word_less_nat_alt word_le_nat_alt unat_gt_0
      split: if_splits)

interpretation http: proxy Http "http_validate_config lib" http_get_metrics http_health_check for lib
  by unfold_locales
    (auto simp: http_validate_config_ok valid_http_instance_def Let_def http_get_metrics_def
      http_health_check_def dest: http_validate_config_error)


section \<open>Lemmas: runs of requests\<close>

text \<open>A request moves nothing in the router but the round-robin counter.\<close>

lemma http_handle_request_frame:
  assumes "http_handle_request hasher lib config x (m, h, lb) = (r, m1, h1, lb1)"
  shows "\<exists>n. lb1 = lb\<lparr>lb_rr_counter := n\<rparr>"
proof -
  obtain q lb' where q: "select_upstream hasher h (extract_session_key lib (ex_request x)) lb = (q, lb')"
    by fastforce
  have "lb1 = lb'"
    using assms
    by (auto simp: http_handle_request_def process_request_def route_request_def complete_request_def
        q Let_def split: prod.splits option.splits sum.splits client_outcome.splits)
  with select_upstream_frame [OF q] show ?thesis by simp
qed

lemma http_serve_frame:
  "http_serve hasher lib config xs (m, h, lb) = (rs, m1, h1, lb1) \<Longrightarrow>
     \<exists>n. lb1 = lb\<lparr>lb_rr_counter := n\<rparr>"
proof (induction xs arbitrary: m h lb rs)
  case Nil
  then show ?case by (intro exI [of _ "lb_rr_counter lb"]) simp
next
  case (Cons x xs)
  obtain r m' h' lb' where r: "http_handle_request hasher lib config x (m, h, lb) = (r, m', h', lb')"
    by (metis surj_pair)
  from Cons.prems r obtain rs' where "http_serve hasher lib config xs (m', h', lb') = (rs', m1, h1, lb1)"
    by (auto split: prod.splits)
  from Cons.IH [OF this] http_handle_request_frame [OF r] show ?case by auto
qed

lemma route_request_picks:
  "route_request hasher lib config req (m, h, lb) = (Inr (p, req'), s1) \<Longrightarrow>
     fst (select_upstream hasher h (extract_session_key lib req) lb) = Some p"
  by (auto simp: route_request_def split: prod.splits option.splits sum.splits)

lemma consistent_hash_pick:
  "lb_strategy lb = ConsistentHashing \<Longrightarrow>
     fst (select_upstream hasher h (Some key) lb) =
       (if lb_upstreams lb = [] then None
        else select_consistent_hash hasher (lb_hash_ring lb) (lb_upstreams lb) key)"
  by (simp add: select_upstream_def Let_def)

text \<open>The status counters of a run are those of its replies.\<close>

lemma count_status_fold:
  "map_of (foldl (\<lambda>cs s. count_status s cs) cs ss) t =
     (let n = count_of ((=) t) ss
      in if n = 0 then map_of cs t else Some (unwrap_or 0 (map_of cs t) + word_of_nat n))"
  by (induction ss arbitrary: cs)
    (auto simp: Let_def count_of_def count_status_lookup unwrap_or_def ac_simps
      split: option.splits)

lemma http_serve_metrics:
  assumes "http_metrics_inv m" "http_serve hasher lib config xs (m, s) = (rs, m1, s1)"
  shows "http_metrics_inv m1 \<and> hm_requests_total m1 = hm_requests_total m + word_of_nat (length xs) \<and>
    hm_connections_active m1 = hm_connections_active m \<and> length rs = length xs \<and>
    hm_status_codes m1 = foldl (\<lambda>cs s. count_status s cs) (hm_status_codes m) (map rs_status rs)"
  using assms
proof (induction xs arbitrary: m s rs)
  case (Cons x xs)
  obtain r m' s' where r: "http_handle_request hasher lib config x (m, s) = (r, m', s')"
    by (metis surj_pair)
  with Cons.prems(2) obtain rs' where "http_serve hasher lib config xs (m', s') = (rs', m1, s1)" "rs = r # rs'"
    by (auto split: prod.splits)
  with Cons.IH [of m' s' rs'] http_handle_request_metrics_inv [OF Cons.prems(1) r] show ?case by simp
qed simp

section \<open>Properties\<close>

text \<open>The HTTP metrics account for every request: after any run from the initial metrics, every
request has one reply, the total is their number, none is active, the counter of a status code is
the number of replies with that code, and at most 10000 durations are kept.\<close>

theorem http_requests_accounted:
  "case http_serve hasher lib config xs (http_metrics_default, h, lb) of
     (replies, m, h1, lb1) \<Rightarrow>
       length replies = length xs \<and> hm_requests_total m = word_of_nat (length xs) \<and>
       hm_connections_active m = 0 \<and> length (hm_request_durations m) \<le> 10000 \<and>
       map_of (hm_status_codes m) status =
         (let n = count_of ((=) status) (map rs_status replies)
          in if n = 0 then None else Some (word_of_nat n))"
proof -
  obtain rs m h1 lb1 where s: "http_serve hasher lib config xs (http_metrics_default, h, lb) = (rs, m, h1, lb1)"
    by (metis surj_pair)
  from http_serve_metrics [OF http_metrics_inv_default s] show ?thesis
    unfolding s http_metrics_inv_def prod.case
    by (auto simp: count_status_fold http_metrics_default_def unwrap_or_def Let_def)
qed

text \<open>C31: Header transformation: with header operations that behave like a map over normalised
names, a transformed request keeps its URI and body; a header named in the configuration's remove
list is gone, any other header has the last value configured for it, or its old one.\<close>

theorem http_header_transformation:
  assumes "header_laws lib nf" "transform_request lib req config = Inr req'"
  shows "rq_uri req' = rq_uri req \<and> rq_body req' = rq_body req \<and>
    lib_get lib (rq_headers req') n =
      (if nf n \<in> nf ` set (http_remove_headers config) then None
       else case configured_header nf (http_add_headers config) n of
              Some v \<Rightarrow> Some v | None \<Rightarrow> lib_get lib (rq_headers req) n)"
  using transform_request_headers [OF assms] by simp

text \<open>Headers as a map over lower-case names; the empty name is invalid.\<close>

definition lower_char :: "char \<Rightarrow> char" where
  "lower_char c = (if c = CHR ''X'' then CHR ''x'' else if c = CHR ''A'' then CHR ''a'' else c)"

definition map_http_lib :: "(string \<rightharpoonup> string) http_lib" where
  "map_http_lib =
     \<lparr>lib_parse_uri = (\<lambda>s. Inr \<lparr>uri_scheme = None, uri_authority = Some s, uri_path_and_query = None\<rparr>),
      lib_header_name = (\<lambda>n. if n = [] then Inl ''invalid'' else Inr (map lower_char n)),
      lib_header_value = Inr, lib_to_str = Some, lib_empty = Map.empty,
      lib_get = (\<lambda>h n. h (map lower_char n)),
      lib_insert = (\<lambda>h n v. h(map lower_char n \<mapsto> v)),
      lib_remove = (\<lambda>h n. h(map lower_char n := None))\<rparr>"

lemma map_http_lib_laws: "header_laws map_http_lib (map lower_char)"
  by (auto simp: header_laws_def map_http_lib_def lower_char_def)

definition test_http_config :: http_proxy_config where
  "test_http_config =
     \<lparr>http_http2_enabled = False, http_compression_enabled = False, http_max_request_size = 1024,
      http_request_timeout_secs = 30,
      http_add_headers = [(''X-A'', ''1'')], http_remove_headers = [''Accept''],
      http_sticky_sessions = False\<rparr>"

definition test_http_request :: "(string \<rightharpoonup> string) http_request" where
  "test_http_request =
     \<lparr>rq_uri = \<lparr>uri_scheme = None, uri_authority = None, uri_path_and_query = Some ''/''\<rparr>,
      rq_headers = [''accept'' \<mapsto> ''text''], rq_body = []\<rparr>"

lemma http_header_transformation_witness:
  "case transform_request map_http_lib test_http_request test_http_config of
     Inr req' \<Rightarrow> lib_get map_http_lib (rq_headers req') ''accept'' = None
   | Inl e \<Rightarrow> False"
proof -
  obtain req' where r: "transform_request map_http_lib test_http_request test_http_config = Inr req'"
    by (simp add: transform_request_def header_name_def header_value_def map_http_lib_def
        test_http_config_def)
  have "map lower_char ''accept'' \<in> map lower_char ` set (http_remove_headers test_http_config)"
    by (simp add: test_http_config_def lower_char_def)
  with http_header_transformation [OF map_http_lib_laws r, of "''accept''"] show ?thesis
    unfolding r by simp
qed


text \<open>Session affinity end to end: under consistent hashing, two requests with the same session
key go to the same upstream, whatever requests, failures and timeouts come in between.\<close>

theorem http_session_affinity:
  assumes "lb_strategy lb = ConsistentHashing"
    and "extract_session_key lib req1 = Some key" "extract_session_key lib req2 = Some key"
    and "route_request hasher lib config req1 (m, h, lb) = (Inr (p1, out1), s1)"
    and "http_serve hasher lib config between s1 = (replies, s2)"
    and "route_request hasher lib config req2 s2 = (Inr (p2, out2), s3)"
  shows "p1 = p2"
proof -
  obtain n1 where s1: "fst (snd s1) = h" "snd (snd s1) = lb\<lparr>lb_rr_counter := n1\<rparr>"
    using assms(4) select_upstream_frame [of hasher h "extract_session_key lib req1" lb]
    by (fastforce simp: route_request_def split: prod.splits option.splits sum.splits)
  obtain m1 where m1: "s1 = (m1, h, lb\<lparr>lb_rr_counter := n1\<rparr>)" using s1 by (metis prod.collapse)
  obtain m2 h2 lb2 where s2: "s2 = (m2, h2, lb2)" by (metis surj_pair)
  from http_serve_frame [OF assms(5) [unfolded m1 s2]] obtain n2 where
    lb2: "lb2 = lb\<lparr>lb_rr_counter := n2\<rparr>" by auto
  show ?thesis
    using route_request_picks [OF assms(4)] route_request_picks [OF assms(6) [unfolded s2]]
      assms(1-3) by (auto simp: consistent_hash_pick lb2 split: if_splits)
qed

text \<open>C39: The request limits of an HTTP instance have no effect: two configurations that differ in
the maximal request size, the request timeout, sticky sessions, HTTP/2 or compression handle every
request alike.\<close>

theorem http_limits_unused:
  "http_handle_request hasher lib
     (config\<lparr>http_http2_enabled := a, http_compression_enabled := b, http_max_request_size := c,
       http_request_timeout_secs := d, http_sticky_sessions := e\<rparr>) x s =
   http_handle_request hasher lib config x s"
  by (rule http_handle_request_fields) simp_all

text \<open>With one upstream and the health-aware strategy, one request that fails before any has
succeeded is the end of the service: every later request is answered 502, whatever the upstream
would answer.\<close>

theorem http_first_failure_is_final:
  assumes "lb_strategy lb = HealthAware" "lb_upstreams lb = [p]" "p < length h"
    and "ui_stats (h ! p) = upstream_stats_default now"
    and "route_request hasher lib config (ex_request x) (http_begin m, h, lb) = (Inr (p, out), s')"
    and "ex_client x = (\<lambda>timeout request. Timed_Out)"
    and "http_handle_request hasher lib config x (m, h, lb) = (r, m1, h1, lb1)"
  shows "fst (http_serve hasher lib config later (m1, h1, lb1)) =
    replicate (length later) (create_error_response lib 502 ''Bad Gateway'')"
proof -
  have "http_locked_out h1 lb1"
    by (rule http_single_failure [OF assms(1-3) _ _ assms(5) _ assms(7)])
      (simp_all add: assms(4,6) upstream_stats_default_def)
  from http_serve_locked_out [OF this, of hasher lib config later m1] show ?thesis
    by (auto simp: bad_gateway_def)
qed


section \<open>Witnesses\<close>

lemma test_route:
  assumes "fst (select_upstream hasher h (extract_session_key map_http_lib req) lb) = Some p"
  shows "\<exists>out s1. route_request hasher map_http_lib test_http_config req (m, h, lb) = (Inr (p, out), s1)"
proof -
  obtain lb1 where "select_upstream hasher h (extract_session_key map_http_lib req) lb = (Some p, lb1)"
    using assms by (metis prod.collapse)
  then show ?thesis
    by (simp add: route_request_def build_upstream_uri_def transform_request_def header_name_def
        header_value_def map_http_lib_def test_http_config_def Let_def)
qed

text \<open>A client behind a known address, and an exchange that times out.\<close>

definition test_client_request :: "(string \<rightharpoonup> string) http_request" where
  "test_client_request = test_http_request\<lparr>rq_headers := [''x-real-ip'' \<mapsto> ''10.0.0.1'']\<rparr>"

definition test_timeout :: "(string \<rightharpoonup> string) exchange" where
  "test_timeout =
     \<lparr>ex_request = test_client_request, ex_now = 7, ex_elapsed = 5,
      ex_client = (\<lambda>timeout request. Timed_Out)\<rparr>"

lemma test_client_key: "extract_session_key map_http_lib test_client_request = Some ''10.0.0.1''"
  by (simp add: extract_session_key_def test_client_request_def map_http_lib_def lower_char_def Let_def)

lemma http_session_affinity_witness:
  "case lb_exec (\<lambda>_. 0) ConsistentHashing
      [Set_Upstreams 0 [test_upstream ''a'' 1, test_upstream ''b'' 1]] of (h, lb) \<Rightarrow>
     \<exists>p q out1 s1 replies s2 out2 s3.
       route_request (\<lambda>_. 0) map_http_lib test_http_config test_client_request
         (http_metrics_default, h, lb) = (Inr (p, out1), s1) \<and>
       http_serve (\<lambda>_. 0) map_http_lib test_http_config [test_timeout] s1 = (replies, s2) \<and>
       route_request (\<lambda>_. 0) map_http_lib test_http_config test_client_request s2 =
         (Inr (q, out2), s3) \<and> p = q"
proof -
  obtain h lb where s: "lb_exec (\<lambda>_. 0) ConsistentHashing
      [Set_Upstreams 0 [test_upstream ''a'' 1, test_upstream ''b'' 1]] = (h, lb)" by fastforce
  have wf: "balancer_wf (\<lambda>_. 0) h lb" and ch: "lb_strategy lb = ConsistentHashing"
    using lb_exec_wf [OF s] by simp_all
  have h: "h = map (upstream_info_new 0) [test_upstream ''a'' 1, test_upstream ''b'' 1]"
      "lb_upstreams lb = [0, 1]"
    using s by (auto simp: lb_exec_def update_upstreams_eq Let_def)
  let ?pick = "\<lambda>lb. fst (select_upstream (\<lambda>_. 0) h (Some ''10.0.0.1'') lb)"
  have "?pick lb \<noteq> None"
    using wf h ch by (subst select_upstream_None) (auto simp: some_available_def test_defs)
  then obtain p where p: "?pick lb = Some p" by blast
  from test_route [of "\<lambda>_. 0" h test_client_request lb p] p test_client_key obtain out1 s1 where
    r1: "route_request (\<lambda>_. 0) map_http_lib test_http_config test_client_request
      (http_metrics_default, h, lb) = (Inr (p, out1), s1)" by fastforce
  obtain m1 h1 lb1 where s1: "s1 = (m1, h1, lb1)" by (metis surj_pair)
  obtain n1 where lb1: "lb1 = lb\<lparr>lb_rr_counter := n1\<rparr>"
    using r1 s1 select_upstream_frame [of "\<lambda>_. 0" h "extract_session_key map_http_lib test_client_request" lb]
    by (fastforce simp: route_request_def split: prod.splits option.splits sum.splits)
  obtain replies m2 h2 lb2 where v: "http_serve (\<lambda>_. 0) map_http_lib test_http_config [test_timeout] s1 =
      (replies, m2, h2, lb2)" by (metis surj_pair)
  from http_serve_frame [OF v [unfolded s1]] obtain n2 where "lb2 = lb1\<lparr>lb_rr_counter := n2\<rparr>" by blast
  then have "fst (select_upstream (\<lambda>_. 0) h2 (Some ''10.0.0.1'') lb2) = Some p"
    using p ch by (simp add: consistent_hash_pick lb1 split: if_splits)
  from test_route [of "\<lambda>_. 0" h2 test_client_request lb2 p] this test_client_key obtain q out2 s3 where
    r2: "route_request (\<lambda>_. 0) map_http_lib test_http_config test_client_request (m2, h2, lb2) =
      (Inr (q, out2), s3)" by fastforce
  note pq = http_session_affinity [OF ch test_client_key test_client_key r1 v r2]
  show ?thesis
    unfolding s prod.case by (intro exI conjI, rule r1, rule v, rule r2, rule pq)
qed

lemma http_first_failure_is_final_witness:
  "case http_handle_request (\<lambda>_. 0) map_http_lib test_http_config test_timeout
      (http_metrics_default, test_heap, (test_balancer HealthAware)\<lparr>lb_upstreams := [0]\<rparr>) of
     (r, m1, h1, lb1) \<Rightarrow>
       fst (http_serve (\<lambda>_. 0) map_http_lib test_http_config [test_timeout] (m1, h1, lb1)) =
         [create_error_response map_http_lib 502 ''Bad Gateway'']"
proof -
  let ?lb = "(test_balancer HealthAware)\<lparr>lb_upstreams := [0]\<rparr>"
  let ?pick = "select_upstream (\<lambda>_. 0) test_heap (Some ''10.0.0.1'') ?lb"
  have "fst ?pick \<noteq> None"
    by (subst health_aware_None) (simp_all add: test_defs eligible_def never_succeeded_def)
  then obtain p lb1 where p: "?pick = (Some p, lb1)" by (cases ?pick) auto
  with health_aware_eligible(1) [OF _ p] have pick: "fst ?pick = Some 0"
    by (simp add: test_balancer_def balancer_new_def)
  from test_route [of "\<lambda>_. 0" test_heap test_client_request ?lb 0] pick test_client_key obtain out s' where
    r: "route_request (\<lambda>_. 0) map_http_lib test_http_config (ex_request test_timeout)
      (http_begin http_metrics_default, test_heap, ?lb) = (Inr (0, out), s')"
    unfolding test_timeout_def exchange.simps by fastforce
  obtain reply m1 h1 lb1 where f: "http_handle_request (\<lambda>_. 0) map_http_lib test_http_config test_timeout
      (http_metrics_default, test_heap, ?lb) = (reply, m1, h1, lb1)" by (metis surj_pair)
  have "fst (http_serve (\<lambda>_. 0) map_http_lib test_http_config [test_timeout] (m1, h1, lb1)) =
      replicate (length [test_timeout]) (create_error_response map_http_lib 502 ''Bad Gateway'')"
    by (rule http_first_failure_is_final [OF _ _ _ _ r _ f, of 0])
      (simp_all add: test_defs test_timeout_def)
  then show ?thesis by (simp add: f)
qed

end
