(* ===== verification/Buffers.thy ===== *)
theory Buffers
  imports Prelude "HOL-Library.Log_Nat"
begin

text \<open>
  Buffer sizes (\<open>src/buffers.rs\<close>). A buffer is represented by the capacity it is requested with;
  \<open>BytesMut\<close> itself is third-party. \<open>next_power_of_two\<close> is the standard library's, in the release
  profile: above 2^63 it wraps to 0.
\<close>

definition BUFFER_SIZES :: "usize list" where
  "BUFFER_SIZES = [1024, 4096, 8192, 16384, 32768, 65536]"

definition next_power_of_two :: "usize \<Rightarrow> usize" where
  "next_power_of_two n = word_of_nat (2 ^ floorlog 2 (unat n - 1))"

definition get_buffer :: "usize \<Rightarrow> usize" where
  "get_buffer min_size =
     (case find (\<lambda>sz. min_size \<le> sz) BUFFER_SIZES of
        Some sz \<Rightarrow> sz
      | None \<Rightarrow> max (next_power_of_two min_size) 4096)"

definition get_small_buffer :: usize where "get_small_buffer = get_buffer 4096"
definition get_medium_buffer :: usize where "get_medium_buffer = get_buffer 16384"
definition get_large_buffer :: usize where "get_large_buffer = get_buffer 65536"

section \<open>The next power of two\<close>

lemma floorlog_pred_bound: "n \<le> 2 ^ 63 \<Longrightarrow> floorlog 2 (n - 1) \<le> 63"
  by (rule floorlog_leI) (simp_all add: less_imp_le)

lemma unat_next_power_of_two:
  assumes "unat n \<le> 2 ^ 63"
  shows "unat (next_power_of_two n) = 2 ^ floorlog 2 (unat n - 1)"
proof -
  have "(2 :: nat) ^ floorlog 2 (unat n - 1) \<le> 2 ^ 63"
    using floorlog_pred_bound [OF assms] by (intro power_increasing) simp_all
  then have "(2 :: nat) ^ floorlog 2 (unat n - 1) < 2 ^ 64" by simp
  then show ?thesis unfolding next_power_of_two_def by (rule unat_of_nat_small)
qed

lemma power_of_two_bounds:
  assumes "1 < (n :: nat)"
  shows "n \<le> 2 ^ floorlog 2 (n - 1)" "2 ^ floorlog 2 (n - 1) < 2 * n"
proof -
  from floorlog_bounds [of "n - 1" 2] assms
  have b: "2 ^ (floorlog 2 (n - 1) - 1) \<le> n - 1" "n - 1 < 2 ^ floorlog 2 (n - 1)" by simp_all
  then show "n \<le> 2 ^ floorlog 2 (n - 1)" using assms by linarith
  have "floorlog 2 (n - 1) \<noteq> 0" using assms by (simp add: floorlog_eq_zero_iff)
  then have "(2 :: nat) ^ floorlog 2 (n - 1) = 2 * 2 ^ (floorlog 2 (n - 1) - 1)"
    by (cases "floorlog 2 (n - 1)") simp_all
  with b assms show "2 ^ floorlog 2 (n - 1) < 2 * n" by linarith
qed

lemma next_power_of_two_wraps:
  assumes "2 ^ 63 < unat n"
  shows "next_power_of_two n = 0"
proof -
  have "floorlog 2 (unat n - 1) = 64"
  proof (rule antisym)
    show "floorlog 2 (unat n - 1) \<le> 64"
      using unat_u64_bound [of n] by (intro floorlog_leI) simp_all
    show "64 \<le> floorlog 2 (unat n - 1)"
      using assms by (intro floorlog_geI) simp_all
  qed
  then show ?thesis by (simp add: next_power_of_two_def)
qed

section \<open>Size classes\<close>

lemma find_BUFFER_SIZES_None: "find (\<lambda>s. n \<le> s) BUFFER_SIZES = None \<longleftrightarrow> 65536 < n"
  by (auto simp: BUFFER_SIZES_def find_None_iff word_le_nat_alt word_less_nat_alt)

lemma sorted_find_least:
  "sorted xs \<Longrightarrow> find (\<lambda>s. n \<le> s) xs = Some r \<Longrightarrow>
     r \<in> set xs \<and> n \<le> r \<and> (\<forall>s \<in> set xs. n \<le> s \<longrightarrow> r \<le> s)"
  by (induction xs) (auto split: if_splits)

lemma sorted_BUFFER_SIZES: "sorted BUFFER_SIZES"
  by (simp add: BUFFER_SIZES_def word_le_nat_alt)

lemma get_buffer_small:
  assumes "n \<le> 65536"
  shows "get_buffer n \<in> set BUFFER_SIZES" "n \<le> get_buffer n"
    "s \<in> set BUFFER_SIZES \<Longrightarrow> n \<le> s \<Longrightarrow> get_buffer n \<le> s"
proof -
  from assms obtain r where r: "find (\<lambda>s. n \<le> s) BUFFER_SIZES = Some r"
    using find_BUFFER_SIZES_None [of n] by (cases "find (\<lambda>s. n \<le> s) BUFFER_SIZES") auto
  note least = sorted_find_least [OF sorted_BUFFER_SIZES r]
  from r have "get_buffer n = r" by (simp add: get_buffer_def)
  with least show "get_buffer n \<in> set BUFFER_SIZES" "n \<le> get_buffer n"
    "s \<in> set BUFFER_SIZES \<Longrightarrow> n \<le> s \<Longrightarrow> get_buffer n \<le> s" by auto
qed

lemma get_buffer_large:
  assumes "65536 < n" "unat n \<le> 2 ^ 63"
  shows "unat (get_buffer n) = 2 ^ floorlog 2 (unat n - 1)"
proof -
  have n: "65536 < unat n" using assms(1) by (simp add: word_less_nat_alt)
  then have "4096 \<le> unat (next_power_of_two n)"
    using power_of_two_bounds(1) [of "unat n"] unat_next_power_of_two [OF assms(2)] by simp
  then have "max (next_power_of_two n) 4096 = next_power_of_two n"
    by (simp add: max_def word_le_nat_alt word_unat_eq_iff)
  then show ?thesis
    using find_BUFFER_SIZES_None [of n] assms unat_next_power_of_two [OF assms(2)]
    by (simp add: get_buffer_def)
qed

section \<open>Property\<close>

text \<open>A buffer is never smaller than requested: up to 64 KiB it is the least size class that
suffices, above (up to 2^63) the least power of two, less than twice the request.\<close>

theorem get_buffer_sufficient:
  assumes "unat n \<le> 2 ^ 63"
  shows "n \<le> get_buffer n \<and>
    (if n \<le> 65536
     then get_buffer n \<in> set BUFFER_SIZES \<and>
       (\<forall>s \<in> set BUFFER_SIZES. n \<le> s \<longrightarrow> get_buffer n \<le> s)
     else unat (get_buffer n) < 2 * unat n \<and> (\<exists>k. unat (get_buffer n) = 2 ^ k))"
proof (cases "n \<le> 65536")
  case True
  with get_buffer_small [OF True] show ?thesis by simp
next
  case False
  then have n: "65536 < n" by simp
  then have "1 < unat n" by (simp add: word_less_nat_alt)
  from power_of_two_bounds [OF this] get_buffer_large [OF n assms] False show ?thesis
    by (auto simp: word_le_nat_alt)
qed

lemma get_buffer_sufficient_witness:
  "5000 \<le> get_buffer 5000 \<and> 100000 \<le> get_buffer 100000"
  using get_buffer_sufficient [of 5000] get_buffer_sufficient [of 100000] by simp

end
