(* ===== verification/Tcp_Proxy.thy ===== *)
theory Tcp_Proxy
  imports Balancer_Fairness Proxy_Base Buffers "HOL-Library.Sublist"
begin

text \<open>
  The TCP proxy (\<open>src/proxy/tcp.rs\<close>): pooled connections, the connection to the upstream, the
  bidirectional relay and the connection handler. A \<open>TcpStream\<close> is a handle; the pool's
  \<open>SegQueue\<close> (crossbeam) and the network (connecting, socket options, what the two peers send) are
  arguments.
\<close>

section \<open>State\<close>

type_synonym stream = nat

record pooled_connection =
  pc_stream :: stream
  pc_created_at :: instant
  pc_last_used :: instant

record 'q queue_lib =
  sq_new :: 'q
  sq_push :: "pooled_connection \<Rightarrow> 'q \<Rightarrow> 'q"
  sq_pop :: "'q \<Rightarrow> (pooled_connection \<times> 'q) option"
  sq_len :: "'q \<Rightarrow> nat"

record tcp_metrics =
  tm_connections_total :: u64
  tm_connections_active :: usize
  tm_bytes_transferred :: u64
  tm_connection_duration_sum :: u64
  tm_connection_duration_count :: u64
  tm_pool_hits :: u64
  tm_pool_misses :: u64

definition tcp_metrics_default :: tcp_metrics where
  "tcp_metrics_default =
     \<lparr>tm_connections_total = 0, tm_connections_active = 0, tm_bytes_transferred = 0,
      tm_connection_duration_sum = 0, tm_connection_duration_count = 0, tm_pool_hits = 0,
      tm_pool_misses = 0\<rparr>"

record 'q tcp_state =
  ts_metrics :: tcp_metrics
  ts_pools :: "string \<rightharpoonup> 'q"
  ts_heap :: upstream_heap
  ts_balancer :: balancer

section \<open>Pooled connections\<close>

definition pooled_connection_new :: "instant \<Rightarrow> stream \<Rightarrow> pooled_connection" where
  "pooled_connection_new now s = \<lparr>pc_stream = s, pc_created_at = now, pc_last_used = now\<rparr>"

text \<open>\<open>duration_since\<close> saturates at zero, as subtraction of naturals does.\<close>

definition pc_is_valid :: "instant \<Rightarrow> duration \<Rightarrow> duration \<Rightarrow> pooled_connection \<Rightarrow> bool" where
  "pc_is_valid now max_idle_time max_lifetime c =
     (let idle_time = now - pc_last_used c; lifetime = now - pc_created_at c
      in idle_time \<le> max_idle_time \<and> lifetime \<le> max_lifetime)"

definition pc_touch :: "instant \<Rightarrow> pooled_connection \<Rightarrow> pooled_connection" where
  "pc_touch now c = c\<lparr>pc_last_used := now\<rparr>"

definition max_idle_time :: duration where "max_idle_time = 300 * 1000000000"
definition max_lifetime :: duration where "max_lifetime = 3600 * 1000000000"

text \<open>The \<open>while let\<close> loop; \<open>None\<close> if the queue never runs empty.\<close>

partial_function (option) pop_valid ::
  "'q queue_lib \<Rightarrow> instant \<Rightarrow> 'q \<Rightarrow> (stream option \<times> 'q) option" where
  "pop_valid lib now q =
     (case sq_pop lib q of
        None \<Rightarrow> Some (None, q)
      | Some (c, q') \<Rightarrow>
          if pc_is_valid now max_idle_time max_lifetime c
          then Some (Some (pc_stream (pc_touch now c)), q')
          else pop_valid lib now q')"

definition try_get_pooled_connection ::
  "'q queue_lib \<Rightarrow> instant \<Rightarrow> string \<Rightarrow> (string \<rightharpoonup> 'q) \<Rightarrow> (stream option \<times> (string \<rightharpoonup> 'q)) option" where
  "try_get_pooled_connection lib now name pools =
     (case pools name of
        None \<Rightarrow> Some (None, pools)
      | Some q \<Rightarrow> map_option (\<lambda>(r, q'). (r, pools(name \<mapsto> q'))) (pop_valid lib now q))"

definition return_connection_to_pool ::
  "'q queue_lib \<Rightarrow> tcp_proxy_config \<Rightarrow> instant \<Rightarrow> string \<Rightarrow> stream \<Rightarrow> (string \<rightharpoonup> 'q) \<Rightarrow>
   (string \<rightharpoonup> 'q)" where
  "return_connection_to_pool lib config now upstream_name s pools =
     (if \<not> tcp_connection_pooling config then pools
      else
        let pool = (case pools upstream_name of Some q \<Rightarrow> q | None \<Rightarrow> sq_new lib)
        in if sq_len lib pool < 100
           then pools(upstream_name \<mapsto> sq_push lib (pooled_connection_new now s) pool)
           else pools(upstream_name \<mapsto> pool))"

section \<open>Connecting to the upstream\<close>

datatype connect_outcome = Connected stream | Connect_Failed string | Connect_Timed_Out

text \<open>
  What the sockets answer to \<open>copy_stream\<close>: a read returns at most so many of the bytes sent, or
  fails; one of the writes of \<open>write_all\<close> takes so many of the bytes offered, or fails.
\<close>

datatype io_step =
    Read nat
  | Read_Failed io_error
  | Wrote nat
  | Write_Failed string

datatype direction = To_Upstream | To_Client

text \<open>
  The environment of one connection: the clock, the results of connecting and of \<open>set_nodelay\<close>, all
  that the peers send (\<open>tx_sent d\<close> is what travels in direction \<open>d\<close>), the reads and writes of the two
  copy loops in the order they complete, and the durations measured.
\<close>

record tcp_exchange =
  tx_client_addr :: socket_addr
  tx_now :: instant
  tx_connect :: "duration \<Rightarrow> socket_addr \<Rightarrow> connect_outcome"
  tx_nodelay :: "stream \<Rightarrow> string option"
  tx_sent :: "direction \<Rightarrow> u8 list"
  tx_schedule :: "(direction \<times> io_step) list"
  tx_stream_elapsed :: duration
  tx_end :: instant
  tx_elapsed :: duration

definition configure_socket ::
  "(stream \<Rightarrow> string option) \<Rightarrow> tcp_proxy_config \<Rightarrow> stream \<Rightarrow> unit result" where
  "configure_socket set_nodelay config s =
     (if tcp_nodelay config then
        (case set_nodelay s of
           Some e \<Rightarrow> Inl (err_network (''Failed to set TCP_NODELAY: '' @ e) Protocol)
         | None \<Rightarrow> Inr ())
      else Inr ())"

definition connect_upstream ::
  "tcp_proxy_config \<Rightarrow> tcp_exchange \<Rightarrow> upstream_info \<Rightarrow> stream result" where
  "connect_upstream config x upstream =
     res_bind (parse_address (up_address (ui_config upstream))) (\<lambda>upstream_addr.
     let connect_timeout = millis_to_duration (up_timeout_ms (ui_config upstream));
         name = quoted (up_name (ui_config upstream))
     in res_bind
          (case tx_connect x connect_timeout upstream_addr of
             Connect_Timed_Out \<Rightarrow>
               Inl (err_network (''Connection to upstream '' @ name @ '' timed out'') Timeout)
           | Connect_Failed e \<Rightarrow>
               Inl (err_network (''Failed to connect to upstream '' @ name @ '': '' @ e)
                 ConnectionFailed)
           | Connected s \<Rightarrow> Inr s)
          (\<lambda>s. res_bind (configure_socket (tx_nodelay x) config s) (\<lambda>_. Inr s)))"

text \<open>The outer option is \<open>None\<close> only if the pool's loop does not end.\<close>

definition get_upstream_connection ::
  "'q queue_lib \<Rightarrow> tcp_proxy_config \<Rightarrow> tcp_exchange \<Rightarrow> upstream_info \<Rightarrow>
   tcp_metrics \<times> (string \<rightharpoonup> 'q) \<Rightarrow> (stream result \<times> tcp_metrics \<times> (string \<rightharpoonup> 'q)) option" where
  "get_upstream_connection lib config x upstream s =
     (let (m, pools) = s;
          miss = (\<lambda>pools. (connect_upstream config x upstream,
                           m\<lparr>tm_pool_misses := tm_pool_misses m + 1\<rparr>, pools))
      in if tcp_connection_pooling config then
           map_option
             (\<lambda>(pooled, pools). case pooled of
                Some st \<Rightarrow> (Inr st, m\<lparr>tm_pool_hits := tm_pool_hits m + 1\<rparr>, pools)
              | None \<Rightarrow> miss pools)
             (try_get_pooled_connection lib (tx_now x) (up_name (ui_config upstream)) pools)
         else Some (miss pools))"

section \<open>The relay\<close>

text \<open>Both peers' buffers: the large size, then resized to 65536.\<close>

definition RELAY_BUFFER :: usize where
  "RELAY_BUFFER = 65536"

text \<open>
  A copy loop: its byte counter, the bytes read and delivered so far, and its result once it has
  ended. Between a read and the end of the \<open>write_all\<close> that follows, \<open>cs_pending\<close> is the part of
  \<open>buffer[..bytes_read]\<close> that is still to be written and \<open>cs_chunk\<close> is \<open>bytes_read\<close>; while the loop
  waits for a read nothing is pending.
\<close>

record copy_state =
  cs_total :: u64
  cs_taken :: nat
  cs_written :: "u8 list"
  cs_pending :: "u8 list"
  cs_chunk :: nat
  cs_result :: "u64 result option"

definition copy_start :: copy_state where
  "copy_start =
     \<lparr>cs_total = 0, cs_taken = 0, cs_written = [], cs_pending = [], cs_chunk = 0, cs_result = None\<rparr>"

text \<open>
  The read of an iteration: a read that returns no byte is the end of the stream. A loop that reads
  lets the answers to a write pass, and the other way round.
\<close>

definition copy_read :: "u8 list \<Rightarrow> io_step \<Rightarrow> copy_state \<Rightarrow> copy_state" where
  "copy_read sent e c =
     (case e of
        Read n \<Rightarrow>
          (let bytes = take (min n (unat RELAY_BUFFER)) (drop (cs_taken c) sent)
           in if bytes = [] then c\<lparr>cs_result := Some (Inr (cs_total c))\<rparr>
              else c\<lparr>cs_taken := cs_taken c + length bytes, cs_pending := bytes,
                     cs_chunk := length bytes\<rparr>)
      | Read_Failed err \<Rightarrow>
          if io_kind err = UnexpectedEof then c\<lparr>cs_result := Some (Inr (cs_total c))\<rparr>
          else c\<lparr>cs_result :=
                 Some (Inl (err_network (''Read failed: '' @ io_text err) ConnectionFailed))\<rparr>
      | _ \<Rightarrow> c)"

text \<open>
  One write of \<open>write_all\<close>. The last one ends it, and the loop counts the bytes of the iteration, its
  own and in \<open>bytes_transferred\<close>, before it waits again.
\<close>

definition write_failed :: "string \<Rightarrow> copy_state \<Rightarrow> copy_state" where
  "write_failed text c =
     c\<lparr>cs_result := Some (Inl (err_network (''Write failed: '' @ text) ConnectionFailed))\<rparr>"

definition copy_write :: "io_step \<Rightarrow> copy_state \<times> u64 \<Rightarrow> copy_state \<times> u64" where
  "copy_write e s =
     (let (c, transferred) = s in
      case e of
        Wrote n \<Rightarrow>
          if n = 0 then (write_failed ''write zero'' c, transferred)
          else
            let c1 = c\<lparr>cs_written := cs_written c @ take n (cs_pending c),
                       cs_pending := drop n (cs_pending c)\<rparr>
            in if cs_pending c1 = []
               then (c1\<lparr>cs_total := cs_total c1 + word_of_nat (cs_chunk c1)\<rparr>,
                     transferred + word_of_nat (cs_chunk c1))
               else (c1, transferred)
      | Write_Failed text \<Rightarrow> (write_failed text c, transferred)
      | _ \<Rightarrow> (c, transferred))"

text \<open>One answer to a loop whose peer sends \<open>sent\<close>, with the counter \<open>bytes_transferred\<close>.\<close>

definition copy_step :: "u8 list \<Rightarrow> io_step \<Rightarrow> copy_state \<times> u64 \<Rightarrow> copy_state \<times> u64" where
  "copy_step sent e s =
     (if cs_pending (fst s) = [] then (copy_read sent e (fst s), snd s) else copy_write e s)"

fun copy_stream :: "u8 list \<Rightarrow> io_step list \<Rightarrow> copy_state \<times> u64 \<Rightarrow> copy_state \<times> u64" where
  "copy_stream sent [] s = s"
| "copy_stream sent (e # es) s =
     (let s1 = copy_step sent e s
      in if cs_result (fst s1) = None then copy_stream sent es s1 else s1)"

text \<open>
  The two loops under \<open>select!\<close>: their reads and writes complete in some order, and the first loop to
  end ends the relay; the other one is dropped where it stands, be it between two writes.
\<close>

record relay_state =
  rl_up :: copy_state
  rl_down :: copy_state
  rl_transferred :: u64

definition relay_start :: "u64 \<Rightarrow> relay_state" where
  "relay_start transferred =
     \<lparr>rl_up = copy_start, rl_down = copy_start, rl_transferred = transferred\<rparr>"

definition relay_step ::
  "(direction \<Rightarrow> u8 list) \<Rightarrow> direction \<Rightarrow> io_step \<Rightarrow> relay_state \<Rightarrow> relay_state" where
  "relay_step sent d e r =
     (case d of
        To_Upstream \<Rightarrow>
          (let (c, t) = copy_step (sent To_Upstream) e (rl_up r, rl_transferred r)
           in r\<lparr>rl_up := c, rl_transferred := t\<rparr>)
      | To_Client \<Rightarrow>
          (let (c, t) = copy_step (sent To_Client) e (rl_down r, rl_transferred r)
           in r\<lparr>rl_down := c, rl_transferred := t\<rparr>))"

definition relay_result :: "relay_state \<Rightarrow> u64 result option" where
  "relay_result r = (case cs_result (rl_up r) of Some x \<Rightarrow> Some x | None \<Rightarrow> cs_result (rl_down r))"

fun relay ::
  "(direction \<Rightarrow> u8 list) \<Rightarrow> (direction \<times> io_step) list \<Rightarrow> relay_state \<Rightarrow> relay_state" where
  "relay sent [] r = r"
| "relay sent ((d, e) # es) r =
     (let r1 = relay_step sent d e r in if relay_result r1 = None then relay sent es r1 else r1)"

text \<open>\<open>None\<close> while neither loop has ended: the connection is open and counted.\<close>

definition stream_bidirectional ::
  "tcp_exchange \<Rightarrow> arc \<Rightarrow> tcp_metrics \<times> upstream_heap \<Rightarrow>
   unit result option \<times> tcp_metrics \<times> upstream_heap" where
  "stream_bidirectional x p s =
     (let (m, h) = s;
          h = on_stats (\<lambda>st. snd (increment_connections st)) p h;
          r = relay (tx_sent x) (tx_schedule x) (relay_start (tm_bytes_transferred m));
          m = m\<lparr>tm_bytes_transferred := rl_transferred r\<rparr>
      in case relay_result r of
           None \<Rightarrow> (None, m, h)
         | Some result \<Rightarrow>
             (let h = on_stats (\<lambda>st. snd (decrement_connections st)) p h
              in case result of
                   Inr bytes \<Rightarrow>
                     (Some (Inr ()), m, on_stats (record_success (tx_end x) (tx_stream_elapsed x)) p h)
                 | Inl e \<Rightarrow> (Some (Inl e), m, on_stats (record_failure (tx_end x)) p h)))"

section \<open>The connection handler\<close>

text \<open>
  The result of a connection: not finished (the pool's loop or the relay still runs), or the result
  of \<open>process_connection\<close>, which the handler only logs.
\<close>

definition process_connection ::
  "(string \<Rightarrow> u64) \<Rightarrow> 'q queue_lib \<Rightarrow> tcp_proxy_config \<Rightarrow> tcp_exchange \<Rightarrow> 'q tcp_state \<Rightarrow>
   unit result option \<times> 'q tcp_state" where
  "process_connection hasher lib config x s =
     (let (selected, lb) =
            select_upstream hasher (ts_heap s) (Some (show_socket_addr (tx_client_addr x)))
              (ts_balancer s);
          s = s\<lparr>ts_balancer := lb\<rparr>
      in case selected of
           None \<Rightarrow> (Some (Inl (err_proxy ''No healthy upstream available'' ''tcp'' ''unknown'')), s)
         | Some p \<Rightarrow>
             (case get_upstream_connection lib config x (ts_heap s ! p) (ts_metrics s, ts_pools s) of
                None \<Rightarrow> (None, s)
              | Some (Inl e, m, pools) \<Rightarrow> (Some (Inl e), s\<lparr>ts_metrics := m, ts_pools := pools\<rparr>)
              | Some (Inr st, m, pools) \<Rightarrow>
                  (let (r, m, h) = stream_bidirectional x p (m, ts_heap s)
                   in (r, s\<lparr>ts_metrics := m, ts_pools := pools, ts_heap := h\<rparr>))))"

definition tcp_begin :: "tcp_metrics \<Rightarrow> tcp_metrics" where
  "tcp_begin m =
     m\<lparr>tm_connections_total := tm_connections_total m + 1,
       tm_connections_active := tm_connections_active m + 1\<rparr>"

definition tcp_end :: "duration \<Rightarrow> tcp_metrics \<Rightarrow> tcp_metrics" where
  "tcp_end elapsed m =
     m\<lparr>tm_connections_active := tm_connections_active m - 1,
       tm_connection_duration_sum :=
         tm_connection_duration_sum m + word_of_nat (elapsed div 1000000),
       tm_connection_duration_count := tm_connection_duration_count m + 1\<rparr>"

definition tcp_handle_connection ::
  "(string \<Rightarrow> u64) \<Rightarrow> 'q queue_lib \<Rightarrow> tcp_proxy_config \<Rightarrow> tcp_exchange \<Rightarrow> 'q tcp_state \<Rightarrow>
   unit result option \<times> 'q tcp_state" where
  "tcp_handle_connection hasher lib config x s =
     (let (r, s) = process_connection hasher lib config x
                     (s\<lparr>ts_metrics := tcp_begin (ts_metrics s)\<rparr>)
      in case r of
           None \<Rightarrow> (None, s)
         | Some result \<Rightarrow> (Some result, s\<lparr>ts_metrics := tcp_end (tx_elapsed x) (ts_metrics s)\<rparr>))"

text \<open>Connections one after the other.\<close>

fun tcp_serve ::
  "(string \<Rightarrow> u64) \<Rightarrow> 'q queue_lib \<Rightarrow> tcp_proxy_config \<Rightarrow> tcp_exchange list \<Rightarrow> 'q tcp_state \<Rightarrow>
   unit result option list \<times> 'q tcp_state" where
  "tcp_serve hasher lib config [] s = ([], s)"
| "tcp_serve hasher lib config (x # xs) s =
     (let (r, s1) = tcp_handle_connection hasher lib config x s;
          (rs, s2) = tcp_serve hasher lib config xs s1
      in (r # rs, s2))"

section \<open>Validation and status\<close>

definition tcp_validate_config :: "proxy_instance_config \<Rightarrow> unit result" where
  "tcp_validate_config config =
     (if inst_proxy_type config \<noteq> Tcp then Inl (err_config ''Invalid proxy type for TCP proxy'')
      else
        let c = ps_tcp (inst_config config) in
        if tcp_buffer_size c = 0 then Inl (err_config ''TCP buffer_size must be greater than 0'')
        else if tcp_buffer_size c > 1024 * 1024
          then Inl (err_config ''TCP buffer_size cannot exceed 1MB'')
        else (case tcp_keep_alive c of
                None \<Rightarrow> Inr ()
              | Some k \<Rightarrow>
                  if \<not> ka_enabled k then Inr ()
                  else if ka_idle_secs k = 0
                    then Inl (err_config ''TCP keep-alive idle_secs must be greater than 0'')
                  else if ka_interval_secs k = 0
                    then Inl (err_config ''TCP keep-alive interval_secs must be greater than 0'')
                  else if ka_retries k = 0
                    then Inl (err_config ''TCP keep-alive retries must be greater than 0'')
                  else Inr ()))"

definition tcp_get_metrics :: "tcp_metrics \<Rightarrow> proxy_metrics result" where
  "tcp_get_metrics m =
     (let duration_sum = tm_connection_duration_sum m;
          duration_count = tm_connection_duration_count m;
          avg = (if duration_count > 0
                 then f64_div (f64_of_u64 duration_sum) (f64_of_u64 duration_count) else 0)
      in Inr \<lparr>pm_total_requests = tm_connections_total m,
              pm_active_connections = tm_connections_active m,
              pm_bytes_sent = tm_bytes_transferred m, pm_bytes_received = tm_bytes_transferred m,
              pm_request_rate = 0, pm_error_rate = 0, pm_avg_response_time_ms = avg\<rparr>)"

definition tcp_health_check :: "tcp_metrics \<Rightarrow> proxy_health result" where
  "tcp_health_check m =
     (let active_connections = tm_connections_active m; total_connections = tm_connections_total m;
          status = (if active_connections < 5000 then Healthy
                    else if active_connections \<ge> 10000 then Unhealthy else Unknown)
      in Inr \<lparr>ph_status = status,
              ph_message = ''Active connections: '' @ show_nat (unat active_connections) @
                '', Total connections: '' @ show_nat (unat total_connections)\<rparr>)"

section \<open>Lemmas: the pool\<close>

text \<open>The queue is first in, first out; \<open>contents\<close> is its abstract state.\<close>

definition queue_laws :: "'q queue_lib \<Rightarrow> ('q \<Rightarrow> pooled_connection list) \<Rightarrow> bool" where
  "queue_laws lib contents \<longleftrightarrow>
     contents (sq_new lib) = [] \<and>
     (\<forall>c q. contents (sq_push lib c q) = contents q @ [c]) \<and>
     (\<forall>q. sq_len lib q = length (contents q)) \<and>
     (\<forall>q. contents q = [] \<longrightarrow> sq_pop lib q = None) \<and>
     (\<forall>q c cs. contents q = c # cs \<longrightarrow> (\<exists>q'. sq_pop lib q = Some (c, q') \<and> contents q' = cs))"

lemma queue_lawsD:
  assumes "queue_laws lib contents"
  shows "contents (sq_new lib) = []" "contents (sq_push lib c q) = contents q @ [c]"
    "sq_len lib q = length (contents q)" "contents q = [] \<Longrightarrow> sq_pop lib q = None"
    "contents q = c # cs \<Longrightarrow> \<exists>q'. sq_pop lib q = Some (c, q') \<and> contents q' = cs"
  using assms by (simp_all add: queue_laws_def)

text \<open>The loop ends; it drops the expired connections and takes the first valid one.\<close>

lemma pop_valid_spec:
  assumes "queue_laws lib contents"
  shows "\<exists>q'. pop_valid lib now q =
      Some (case dropWhile (\<lambda>c. \<not> pc_is_valid now max_idle_time max_lifetime c) (contents q) of
              [] \<Rightarrow> None | c # _ \<Rightarrow> Some (pc_stream c), q') \<and>
    contents q' = tl (dropWhile (\<lambda>c. \<not> pc_is_valid now max_idle_time max_lifetime c) (contents q))"
proof (induction "contents q" arbitrary: q)
  case Nil
  then have "contents q = []" by simp
  with queue_lawsD(4) [OF assms, of q] show ?case
    by (subst pop_valid.simps) (simp add: exI [of _ q])
next
  case (Cons c cs)
  from queue_lawsD(5) [OF assms Cons.hyps(2) [symmetric]]
  obtain q' where q': "sq_pop lib q = Some (c, q')" "contents q' = cs" by blast
  show ?case
  proof (cases "pc_is_valid now max_idle_time max_lifetime c")
    case True
    with q' show ?thesis
      by (subst pop_valid.simps) (auto simp: Cons.hyps(2) [symmetric] pc_touch_def)
  next
    case False
    with q' Cons.hyps(1) [of q'] show ?thesis
      by (subst pop_valid.simps) (auto simp: Cons.hyps(2) [symmetric])
  qed
qed

definition pool_contents :: "('q \<Rightarrow> pooled_connection list) \<Rightarrow> (string \<rightharpoonup> 'q) \<Rightarrow> string \<Rightarrow> pooled_connection list" where
  "pool_contents contents pools name = (case pools name of None \<Rightarrow> [] | Some q \<Rightarrow> contents q)"

lemma return_connection_contents:
  assumes "queue_laws lib contents" "tcp_connection_pooling config"
  shows "pool_contents contents (return_connection_to_pool lib config now name s pools) name =
    (if length (pool_contents contents pools name) < 100
     then pool_contents contents pools name @ [pooled_connection_new now s]
     else pool_contents contents pools name)"
  using assms queue_lawsD [OF assms(1)]
  by (simp add: pool_contents_def return_connection_to_pool_def Let_def split: option.splits)

lemma try_get_pooled_contents:
  assumes "queue_laws lib contents"
  shows "\<exists>pools'. try_get_pooled_connection lib now name pools =
      Some (case dropWhile (\<lambda>c. \<not> pc_is_valid now max_idle_time max_lifetime c)
                   (pool_contents contents pools name) of
              [] \<Rightarrow> None | c # _ \<Rightarrow> Some (pc_stream c), pools') \<and>
    pool_contents contents pools' name =
      tl (dropWhile (\<lambda>c. \<not> pc_is_valid now max_idle_time max_lifetime c)
           (pool_contents contents pools name))"
proof (cases "pools name")
  case None
  then show ?thesis by (simp add: try_get_pooled_connection_def pool_contents_def)
next
  case (Some q)
  from pop_valid_spec [OF assms, of now q] show ?thesis
    by (auto simp: try_get_pooled_connection_def pool_contents_def Some)
qed

text \<open>A returned connection comes back, as long as it is fresh and first in the queue.\<close>

lemma pool_round_trip:
  assumes "queue_laws lib contents" "tcp_connection_pooling config"
    and "pool_contents contents pools name = []" "now \<le> later" "later - now \<le> max_idle_time"
  shows "\<exists>pools'. try_get_pooled_connection lib later name
      (return_connection_to_pool lib config now name s pools) = Some (Some s, pools')"
proof -
  have "pc_is_valid later max_idle_time max_lifetime (pooled_connection_new now s)"
    using assms(5) by (simp add: pc_is_valid_def pooled_connection_new_def max_idle_time_def max_lifetime_def)
  then show ?thesis
    using try_get_pooled_contents [OF assms(1), of later name
        "return_connection_to_pool lib config now name s pools"]
      return_connection_contents [OF assms(1,2), of now name s pools] assms(3)
    by (auto simp: pooled_connection_new_def)
qed

section \<open>Lemmas: the relay\<close>

definition relay_side :: "direction \<Rightarrow> relay_state \<Rightarrow> copy_state" where
  "relay_side d r = (case d of To_Upstream \<Rightarrow> rl_up r | To_Client \<Rightarrow> rl_down r)"

lemma relay_sides:
  "rl_up r = relay_side To_Upstream r" "rl_down r = relay_side To_Client r"
  by (simp_all add: relay_side_def)

lemma relay_result_None:
  "relay_result r = None \<longleftrightarrow> (\<forall>d. cs_result (relay_side d r) = None)"
  by (auto simp: relay_result_def relay_side_def split: option.splits direction.splits)

lemma relay_step_side:
  "relay_side d' (relay_step sent d e r) =
     (if d' = d then fst (copy_step (sent d) e (relay_side d r, rl_transferred r))
      else relay_side d' r)"
  by (cases d; cases d') (simp_all add: relay_side_def relay_step_def split: prod.splits)

lemma relay_step_transferred:
  "rl_transferred (relay_step sent d e r) =
     snd (copy_step (sent d) e (relay_side d r, rl_transferred r))"
  by (cases d) (simp_all add: relay_side_def relay_step_def split: prod.splits)

lemma copy_step_transferred_irrelevant:
  "fst (copy_step sent e (c, t)) = fst (copy_step sent e (c, t'))"
  by (cases e) (simp_all add: copy_step_def copy_write_def Let_def)

text \<open>The bytes delivered in an iteration that has not been counted, and those that have been.\<close>

definition uncounted :: "copy_state \<Rightarrow> nat" where
  "uncounted c = (if cs_pending c = [] then 0 else cs_chunk c - length (cs_pending c))"

definition counted :: "copy_state \<Rightarrow> nat" where
  "counted c = length (cs_written c) - uncounted c"

text \<open>
  What has been delivered and what is pending are together what has been read, a prefix of what the
  peer sends; the counter of the loop lacks only what \<open>write_all\<close> has delivered of the iteration.
\<close>

definition copy_ok :: "u8 list \<Rightarrow> copy_state \<Rightarrow> bool" where
  "copy_ok sent c \<longleftrightarrow>
     cs_written c @ cs_pending c = take (cs_taken c) sent \<and> cs_taken c \<le> length sent \<and>
     length (cs_pending c) \<le> cs_chunk c \<and> cs_chunk c \<le> unat RELAY_BUFFER \<and>
     uncounted c \<le> length (cs_written c) \<and> cs_total c = word_of_nat (counted c)"

lemma copy_start_ok: "copy_ok sent copy_start"
  by (simp add: copy_ok_def copy_start_def uncounted_def counted_def)

lemma copy_read_ok:
  assumes "copy_ok sent c" "cs_pending c = []"
  shows "copy_ok sent (copy_read sent e c)" "counted (copy_read sent e c) = counted c"
  using assms
  by (cases e; auto simp: copy_read_def copy_ok_def counted_def uncounted_def Let_def
      take_add min_def)+

lemma copy_write_ok:
  assumes "copy_ok sent c" "cs_pending c \<noteq> []"
  shows "copy_ok sent (fst (copy_write e (c, t)))"
    "snd (copy_write e (c, t)) + word_of_nat (counted c) =
     t + word_of_nat (counted (fst (copy_write e (c, t))))"
proof -
  have len: "length (cs_pending c) \<le> cs_chunk c"
    "cs_chunk c - length (cs_pending c) \<le> length (cs_written c)"
    using assms by (simp_all add: copy_ok_def uncounted_def)
  have "length (cs_written c @ cs_pending c) = cs_taken c"
    using assms(1) by (simp add: copy_ok_def del: length_append)
  then have taken: "cs_taken c = length (cs_written c) + length (cs_pending c)" by simp
  show "copy_ok sent (fst (copy_write e (c, t)))"
    using assms len taken
    by (cases e) (auto simp: copy_write_def write_failed_def copy_ok_def counted_def uncounted_def
        Let_def simp flip: of_nat_add)
  show "snd (copy_write e (c, t)) + word_of_nat (counted c) =
     t + word_of_nat (counted (fst (copy_write e (c, t))))"
    using assms len
    by (cases e) (auto simp: copy_write_def write_failed_def counted_def uncounted_def Let_def
        add.assoc simp flip: of_nat_add)
qed

lemma copy_step_ok:
  assumes "copy_ok sent c"
  shows "copy_ok sent (fst (copy_step sent e (c, t)))"
    "snd (copy_step sent e (c, t)) + word_of_nat (counted c) =
     t + word_of_nat (counted (fst (copy_step sent e (c, t))))"
  using copy_read_ok [OF assms, of e] copy_write_ok [OF assms, of e t]
  by (simp_all add: copy_step_def)

text \<open>A relay is in order if both its loops are.\<close>

definition relay_ordered :: "(direction \<Rightarrow> u8 list) \<Rightarrow> relay_state \<Rightarrow> bool" where
  "relay_ordered sent r \<longleftrightarrow> (\<forall>d. copy_ok (sent d) (relay_side d r))"

definition counted_bytes :: "relay_state \<Rightarrow> nat" where
  "counted_bytes r = counted (rl_up r) + counted (rl_down r)"

definition delivered_bytes :: "relay_state \<Rightarrow> nat" where
  "delivered_bytes r = length (cs_written (rl_up r)) + length (cs_written (rl_down r))"

lemma relay_start_side [simp]: "relay_side d (relay_start t) = copy_start"
  by (cases d) (simp_all add: relay_side_def relay_start_def)

lemma relay_start_facts [simp]:
  "relay_result (relay_start t) = None" "relay_ordered sent (relay_start t)"
  "rl_transferred (relay_start t) = t" "counted_bytes (relay_start t) = 0"
proof -
  show "relay_result (relay_start t) = None" by (simp add: relay_result_None copy_start_def)
  show "relay_ordered sent (relay_start t)" by (simp add: relay_ordered_def copy_start_ok)
  show "rl_transferred (relay_start t) = t" "counted_bytes (relay_start t) = 0"
    by (simp_all add: counted_bytes_def relay_start_def counted_def copy_start_def)
qed

lemma relay_step_ok:
  assumes "relay_ordered sent r"
  shows "relay_ordered sent (relay_step sent d e r)"
    "rl_transferred (relay_step sent d e r) + word_of_nat (counted_bytes r) =
     rl_transferred r + word_of_nat (counted_bytes (relay_step sent d e r))"
proof -
  have c: "copy_ok (sent d) (relay_side d r)" using assms by (simp add: relay_ordered_def)
  note step = copy_step_ok [OF c, of e "rl_transferred r"]
  show "relay_ordered sent (relay_step sent d e r)"
    using assms step(1) by (simp add: relay_ordered_def relay_step_side)
  show "rl_transferred (relay_step sent d e r) + word_of_nat (counted_bytes r) =
     rl_transferred r + word_of_nat (counted_bytes (relay_step sent d e r))"
    using step(2) by (cases d)
      (simp_all add: counted_bytes_def relay_sides relay_step_side relay_step_transferred algebra_simps)
qed

lemma shift_balance:
  fixes a b c :: "'a::ab_group_add"
  assumes "c + b1 = b + b2" "b + b0 = a + b1"
  shows "c + b0 = a + b2"
proof -
  have "c = b + b2 - b1" "b = a + b1 - b0" using assms by (simp_all add: eq_diff_eq)
  then show ?thesis by simp
qed

lemma relay_ok:
  "relay_ordered sent r \<Longrightarrow>
     relay_ordered sent (relay sent es r) \<and>
     rl_transferred (relay sent es r) + word_of_nat (counted_bytes r) =
     rl_transferred r + word_of_nat (counted_bytes (relay sent es r))"
proof (induction sent es r rule: relay.induct)
  case (2 sent d e es r)
  note step = relay_step_ok [OF "2.prems", of d e]
  show ?case
  proof (cases "relay_result (relay_step sent d e r) = None")
    case True
    with "2.IH" [OF refl True step(1)] step(2) show ?thesis
      by (auto simp: Let_def intro: shift_balance)
  next
    case False
    with step show ?thesis by (auto simp: Let_def)
  qed
qed simp

text \<open>Less than a buffer is delivered and not counted.\<close>

lemma copy_ok_uncounted:
  assumes "copy_ok sent c"
  shows "length (cs_written c) = counted c + uncounted c" "uncounted c < unat RELAY_BUFFER"
proof -
  show "length (cs_written c) = counted c + uncounted c"
    using assms by (simp add: copy_ok_def counted_def)
  have "unat RELAY_BUFFER > 0" by (simp add: RELAY_BUFFER_def)
  moreover have "cs_chunk c - length (cs_pending c) < unat RELAY_BUFFER" if "length (cs_pending c) > 0"
    using assms that unfolding copy_ok_def by linarith
  ultimately show "uncounted c < unat RELAY_BUFFER" by (simp add: uncounted_def)
qed

lemma copy_ok_prefix: "copy_ok sent c \<Longrightarrow> prefix (cs_written c) sent"
  by (metis copy_ok_def prefixI prefix_order.trans take_is_prefix)

lemma relay_ordered_delivered:
  assumes "relay_ordered sent r"
  shows "counted_bytes r \<le> delivered_bytes r" "delivered_bytes r < counted_bytes r + 2 * unat RELAY_BUFFER"
proof -
  have "copy_ok (sent d) (relay_side d r)" for d using assms by (simp add: relay_ordered_def)
  from copy_ok_uncounted [OF this [of To_Upstream]] copy_ok_uncounted [OF this [of To_Client]]
  show "counted_bytes r \<le> delivered_bytes r" "delivered_bytes r < counted_bytes r + 2 * unat RELAY_BUFFER"
    by (simp_all add: counted_bytes_def delivered_bytes_def relay_sides)
qed

lemma relay_append:
  "relay_result (relay sent es r) = None \<Longrightarrow>
     relay sent (es @ es') r = relay sent es' (relay sent es r)"
  by (induction sent es r rule: relay.induct) (auto simp: Let_def split: if_splits)

text \<open>The first loop to end ends the relay: what the other peer sends afterwards is lost.\<close>

lemma copy_end_of_stream:
  assumes "cs_pending c = []" "length sent \<le> cs_taken c"
  shows "copy_step sent (Read n) (c, t) = (c\<lparr>cs_result := Some (Inr (cs_total c))\<rparr>, t)"
  using assms by (simp add: copy_step_def copy_read_def)

lemma relay_half_close:
  fixes sent es t
  defines "r \<equiv> relay sent es (relay_start t)"
  assumes "relay_result r = None" "cs_pending (relay_side d r) = []"
    "length (sent d) \<le> cs_taken (relay_side d r)"
  shows "relay sent (es @ (d, Read n) # rest) (relay_start t) = relay_step sent d (Read n) r"
    "relay_result (relay_step sent d (Read n) r) = Some (Inr (cs_total (relay_side d r)))"
    "cs_written (relay_side d' (relay_step sent d (Read n) r)) = cs_written (relay_side d' r)"
proof -
  have none: "cs_result (relay_side d' r) = None" for d'
    using assms(2) by (simp add: relay_result_None)
  note eof = copy_end_of_stream [OF assms(3,4), of n]
  show res: "relay_result (relay_step sent d (Read n) r) = Some (Inr (cs_total (relay_side d r)))"
    using none [of To_Upstream] none [of To_Client] eof
    by (cases d) (simp_all add: relay_result_def relay_sides relay_step_side)
  show "relay sent (es @ (d, Read n) # rest) (relay_start t) = relay_step sent d (Read n) r"
    using res relay_append [of sent es "relay_start t" "(d, Read n) # rest"] assms(2)
    by (simp add: r_def Let_def)
  show "cs_written (relay_side d' (relay_step sent d (Read n) r)) = cs_written (relay_side d' r)"
    using eof by (simp add: relay_step_side)
qed

section \<open>Lemmas: connections\<close>

lemma stream_bidirectional_heap:
  assumes "stream_bidirectional x p (m, h) = (r, m1, h1)" "p < length h"
  shows "active_connections (ui_stats (h1 ! q)) =
      active_connections (ui_stats (h ! q)) + (if q = p \<and> r = None then 1 else 0)"
    "length h1 = length h"
proof -
  have q: "q < length h \<or> q \<noteq> p" using assms(2) by auto
  show "length h1 = length h"
    using assms(1) by (auto simp: stream_bidirectional_def Let_def split: option.splits sum.splits)
  show "active_connections (ui_stats (h1 ! q)) =
      active_connections (ui_stats (h ! q)) + (if q = p \<and> r = None then 1 else 0)"
  proof (cases "q = p")
    case True
    with assms show ?thesis
      by (auto simp: stream_bidirectional_def Let_def on_stats_nth increment_connections_def
          decrement_connections_def record_success_def record_failure_def
          split: option.splits sum.splits)
  next
    case False
    then have "on_stats f p h' ! q = h' ! q" for f h' by (simp add: on_stats_def)
    with False assms(1) show ?thesis
      by (auto simp: stream_bidirectional_def Let_def split: option.splits sum.splits)
  qed
qed

definition tcp_wf :: "(string \<Rightarrow> u64) \<Rightarrow> 'q tcp_state \<Rightarrow> bool" where
  "tcp_wf hasher s \<longleftrightarrow> balancer_wf hasher (ts_heap s) (ts_balancer s)"

lemma stream_bidirectional_wf:
  assumes "balancer_wf hasher h lb" "stream_bidirectional x p (m, h) = (r, m1, h1)"
  shows "balancer_wf hasher h1 lb"
  using assms by (auto simp: stream_bidirectional_def Let_def intro!: balancer_wf_on_stats
      split: option.splits sum.splits)

lemma process_connection_wf:
  assumes "tcp_wf hasher s" "process_connection hasher lib config x s = (r, s1)"
  shows "tcp_wf hasher s1"
proof -
  obtain sel lb where sel: "select_upstream hasher (ts_heap s)
      (Some (show_socket_addr (tx_client_addr x))) (ts_balancer s) = (sel, lb)" by fastforce
  have "balancer_wf hasher (ts_heap s) lb"
    using balancer_select.pick_frame [OF _ sel] assms(1) by (auto simp: tcp_wf_def)
  with sel assms(2) show ?thesis
    by (auto simp: process_connection_def Let_def tcp_wf_def dest: stream_bidirectional_wf
        split: option.splits prod.splits sum.splits)
qed

lemma tcp_handle_connection_wf:
  assumes "tcp_wf hasher s" "tcp_handle_connection hasher lib config x s = (r, s1)"
  shows "tcp_wf hasher s1"
proof -
  obtain r' s' where p: "process_connection hasher lib config x
      (s\<lparr>ts_metrics := tcp_begin (ts_metrics s)\<rparr>) = (r', s')" by (metis surj_pair)
  have "tcp_wf hasher (s\<lparr>ts_metrics := tcp_begin (ts_metrics s)\<rparr>)"
    using assms(1) by (simp add: tcp_wf_def)
  from process_connection_wf [OF this p] p assms(2) show ?thesis
    by (auto simp: tcp_handle_connection_def tcp_wf_def split: option.splits)
qed

text \<open>
  The metrics: every connection is either running or measured once, and nothing decreases the
  active count but the end of a connection.
\<close>

definition tcp_metrics_inv :: "tcp_metrics \<Rightarrow> bool" where
  "tcp_metrics_inv m \<longleftrightarrow>
     tm_connections_total m = tm_connections_active m + tm_connection_duration_count m"

interpretation tcp_connections:
  in_flight tcp_begin tcp_end tm_connections_total tm_connections_active
  by unfold_locales (simp_all add: tcp_begin_def tcp_end_def)

lemma tcp_metrics_inv_default: "tcp_metrics_inv tcp_metrics_default"
  by (simp add: tcp_metrics_inv_def tcp_metrics_default_def)

lemma tcp_metrics_inv_bracket:
  "tcp_metrics_inv m \<Longrightarrow> tcp_metrics_inv (tcp_begin m)"
  "tcp_metrics_inv m \<Longrightarrow> tcp_metrics_inv (tcp_end d m)"
  by (simp_all add: tcp_metrics_inv_def tcp_begin_def tcp_end_def)

text \<open>Least connections, when the chosen upstream refuses every connection.\<close>

lemma select_least_connections_frame:
  "lb_strategy lb = LeastConnections \<Longrightarrow> snd (select_upstream hasher h key lb) = lb"
  by (simp add: select_upstream_def Let_def)

lemma select_least_connections_key:
  "lb_strategy lb = LeastConnections \<Longrightarrow>
     select_upstream hasher h key lb = select_upstream hasher h key' lb"
  by (simp add: select_upstream_def Let_def)

definition refused :: "upstream_info \<Rightarrow> tcp_exchange \<Rightarrow> bool" where
  "refused u x \<longleftrightarrow>
     (\<forall>t a s. parse_address (up_address (ui_config u)) = Inr a \<longrightarrow> tx_connect x t a \<noteq> Connected s)"

lemma connect_upstream_refused:
  assumes "refused u x"
  shows "\<exists>e. connect_upstream config x u = Inl e"
proof (cases "parse_address (up_address (ui_config u))")
  case (Inr a)
  with assms have "tx_connect x t a \<noteq> Connected s" for t s by (simp add: refused_def)
  with Inr show ?thesis
    by (cases "tx_connect x (millis_to_duration (up_timeout_ms (ui_config u))) a")
      (auto simp: connect_upstream_def Let_def)
qed (simp add: connect_upstream_def)

text \<open>No pool ever holds a connection: nothing in the handler returns one.\<close>

lemma get_upstream_connection_empty:
  "pools = Map.empty \<Longrightarrow>
     get_upstream_connection lib config x u (m, pools) =
       Some (connect_upstream config x u, m\<lparr>tm_pool_misses := tm_pool_misses m + 1\<rparr>, pools)"
  by (simp add: get_upstream_connection_def try_get_pooled_connection_def)

lemma stream_bidirectional_pool_metrics:
  "stream_bidirectional x p (m, h) = (r, m1, h1) \<Longrightarrow>
     tm_pool_hits m1 = tm_pool_hits m \<and> tm_pool_misses m1 = tm_pool_misses m"
  by (auto simp: stream_bidirectional_def Let_def split: option.splits sum.splits)

lemma tcp_handle_connection_pool:
  assumes "ts_pools s = Map.empty" "tcp_handle_connection hasher lib config x s = (r, s1)"
  shows "ts_pools s1 = Map.empty" "tm_pool_hits (ts_metrics s1) = tm_pool_hits (ts_metrics s)"
  using assms
  by (auto simp: tcp_handle_connection_def process_connection_def Let_def tcp_begin_def tcp_end_def
      get_upstream_connection_empty dest!: stream_bidirectional_pool_metrics
      split: option.splits prod.splits sum.splits)

lemma tcp_serve_pool:
  "ts_pools s = Map.empty \<Longrightarrow> tcp_serve hasher lib config xs s = (rs, s1) \<Longrightarrow>
     ts_pools s1 = Map.empty \<and> tm_pool_hits (ts_metrics s1) = tm_pool_hits (ts_metrics s)"
proof (induction xs arbitrary: s rs)
  case (Cons x xs)
  obtain r s' where r: "tcp_handle_connection hasher lib config x s = (r, s')" by (metis surj_pair)
  obtain rs' where "tcp_serve hasher lib config xs s' = (rs', s1)"
    using Cons.prems(2) r by (auto split: prod.splits)
  with Cons.IH [of s' rs'] tcp_handle_connection_pool [OF Cons.prems(1) r] show ?case by simp
qed simp

text \<open>
  A failed connection leaves no trace in the upstream's statistics, so the upstream keeps the least
  connections and is chosen again.
\<close>

lemma tcp_handle_connection_refused:
  assumes "lb_strategy (ts_balancer s) = LeastConnections" "ts_pools s = Map.empty"
    and "fst (select_upstream hasher (ts_heap s) None (ts_balancer s)) = Some p"
    and "refused (ts_heap s ! p) x"
  shows "\<exists>e m1. tcp_handle_connection hasher lib config x s = (Some (Inl e), s\<lparr>ts_metrics := m1\<rparr>)"
proof -
  obtain e where e: "connect_upstream config x (ts_heap s ! p) = Inl e"
    using connect_upstream_refused [OF assms(4)] by blast
  have "select_upstream hasher (ts_heap s) k (ts_balancer s) = (Some p, ts_balancer s)" for k
    using select_least_connections_frame [OF assms(1), of hasher "ts_heap s" None]
      select_least_connections_key [OF assms(1), of hasher "ts_heap s" k None] assms(3)
    by (metis prod.collapse)
  with e assms(2) show ?thesis
    by (cases s)
      (simp add: tcp_handle_connection_def process_connection_def get_upstream_connection_empty)
qed

lemma tcp_serve_refused:
  assumes "lb_strategy (ts_balancer s) = LeastConnections" "ts_pools s = Map.empty"
    and "fst (select_upstream hasher (ts_heap s) None (ts_balancer s)) = Some p"
    and "\<forall>x \<in> set xs. refused (ts_heap s ! p) x"
    and "tcp_serve hasher lib config xs s = (rs, s1)"
  shows "(\<forall>r \<in> set rs. \<exists>e. r = Some (Inl e)) \<and> ts_heap s1 = ts_heap s \<and>
    ts_balancer s1 = ts_balancer s"
  using assms
proof (induction xs arbitrary: s rs)
  case (Cons x xs)
  have "refused (ts_heap s ! p) x" using Cons.prems(4) by simp
  from tcp_handle_connection_refused [OF Cons.prems(1-3) this, of lib config]
  obtain e m1 where r: "tcp_handle_connection hasher lib config x s = (Some (Inl e), s\<lparr>ts_metrics := m1\<rparr>)"
    by blast
  obtain rs' where "tcp_serve hasher lib config xs (s\<lparr>ts_metrics := m1\<rparr>) = (rs', s1)"
    "rs = Some (Inl e) # rs'"
    using Cons.prems(5) r by (auto split: prod.splits)
  with Cons.IH [of "s\<lparr>ts_metrics := m1\<rparr>" rs'] Cons.prems(1-4) show ?case by simp
qed simp

section \<open>Lemmas: validation and status\<close>

definition valid_keep_alive :: "tcp_keep_alive_config \<Rightarrow> bool" where
  "valid_keep_alive k \<longleftrightarrow>
     (ka_enabled k \<longrightarrow> ka_idle_secs k \<noteq> 0 \<and> ka_interval_secs k \<noteq> 0 \<and> ka_retries k \<noteq> 0)"

definition valid_tcp_instance :: "proxy_instance_config \<Rightarrow> bool" where
  "valid_tcp_instance config \<longleftrightarrow>
     (let c = ps_tcp (inst_config config)
      in inst_proxy_type config = Tcp \<and>
         0 < unat (tcp_buffer_size c) \<and> unat (tcp_buffer_size c) \<le> 2 ^ 20 \<and>
         (\<forall>k. tcp_keep_alive c = Some k \<longrightarrow> valid_keep_alive k))"

lemma tcp_validate_config_ok: "tcp_validate_config config = Inr () \<longleftrightarrow> valid_tcp_instance config"
proof -
  have "unat (tcp_buffer_size c) \<le> 2 ^ 20 \<longleftrightarrow> \<not> tcp_buffer_size c > 1024 * 1024"
    for c :: tcp_proxy_config
    by (simp add: word_less_nat_alt not_less)
  then show ?thesis
    by (auto simp: tcp_validate_config_def valid_tcp_instance_def valid_keep_alive_def Let_def
        unat_gt_0 split: option.splits)
qed

lemma tcp_validate_config_error: "tcp_validate_config config = Inl e \<Longrightarrow> is_config e"
  by (auto simp: tcp_validate_config_def Let_def split: if_splits option.splits)

lemma tcp_health_check_status:
  "tcp_health_check m = Inr ph \<Longrightarrow>
     ph_status ph = (if unat (tm_connections_active m) < 5000 then Healthy
                     else if 10000 \<le> unat (tm_connections_active m) then Unhealthy else Unknown)"
  by (auto simp: tcp_health_check_def Let_def word_less_nat_alt word_le_nat_alt split: if_splits)

interpretation tcp: proxy Tcp tcp_validate_config tcp_get_metrics tcp_health_check
  by unfold_locales
    (auto simp: tcp_validate_config_ok valid_tcp_instance_def Let_def tcp_get_metrics_def
      tcp_health_check_def dest: tcp_validate_config_error)


section \<open>Lemmas: runs of connections\<close>

definition same_connections :: "tcp_metrics \<Rightarrow> tcp_metrics \<Rightarrow> bool" where
  "same_connections m m1 \<longleftrightarrow>
     tm_connections_total m1 = tm_connections_total m \<and>
     tm_connections_active m1 = tm_connections_active m \<and>
     tm_connection_duration_count m1 = tm_connection_duration_count m"

lemma get_upstream_connection_metrics:
  "get_upstream_connection lib config x u (m, pools) = Some (r, m1, pools1) \<Longrightarrow> same_connections m m1"
  by (auto simp: get_upstream_connection_def same_connections_def
      split: if_splits option.splits)

lemma stream_bidirectional_metrics:
  "stream_bidirectional x p (m, h) = (r, m1, h1) \<Longrightarrow> same_connections m m1"
  by (auto simp: stream_bidirectional_def same_connections_def Let_def split: option.splits sum.splits)

lemma same_connections_trans:
  "same_connections m m1 \<Longrightarrow> same_connections m1 m2 \<Longrightarrow> same_connections m m2"
  by (simp add: same_connections_def)

lemma process_connection_metrics:
  assumes "process_connection hasher lib config x s = (r, s1)"
  shows "same_connections (ts_metrics s) (ts_metrics s1)"
proof -
  have refl: "same_connections m m" for m by (simp add: same_connections_def)
  obtain sel lb where sel: "select_upstream hasher (ts_heap s)
      (Some (show_socket_addr (tx_client_addr x))) (ts_balancer s) = (sel, lb)" by fastforce
  show ?thesis
  proof (cases sel)
    case None
    with assms sel refl show ?thesis by (auto simp: process_connection_def)
  next
    case (Some p)
    let ?c = "get_upstream_connection lib config x (ts_heap s ! p) (ts_metrics s, ts_pools s)"
    show ?thesis
    proof (cases ?c)
      case None
      with assms sel Some refl show ?thesis by (auto simp: process_connection_def)
    next
      case c: (Some rest)
      obtain r' m' pools' where rest: "rest = (r', m', pools')" by (metis surj_pair)
      note m' = get_upstream_connection_metrics [OF c [unfolded rest]]
      show ?thesis
      proof (cases r')
        case (Inl e)
        with assms sel Some c rest m' show ?thesis by (auto simp: process_connection_def)
      next
        case (Inr st)
        obtain r2 m2 h2 where b: "stream_bidirectional x p (m', ts_heap s) = (r2, m2, h2)"
          by (metis surj_pair)
        have "s1 = s\<lparr>ts_balancer := lb, ts_metrics := m2, ts_pools := pools', ts_heap := h2\<rparr>"
          using assms sel Some c rest Inr b by (simp add: process_connection_def)
        then show ?thesis
          using same_connections_trans [OF m' stream_bidirectional_metrics [OF b]] by simp
      qed
    qed
  qed
qed

lemma tcp_handle_connection_metrics:
  assumes "tcp_handle_connection hasher lib config x s = (r, s1)"
  shows "tm_connections_total (ts_metrics s1) = tm_connections_total (ts_metrics s) + 1 \<and>
    tm_connections_active (ts_metrics s1) =
      tm_connections_active (ts_metrics s) + (if r = None then 1 else 0) \<and>
    tm_connection_duration_count (ts_metrics s1) =
      tm_connection_duration_count (ts_metrics s) + (if r = None then 0 else 1)"
proof -
  obtain r' s' where p: "process_connection hasher lib config x
      (s\<lparr>ts_metrics := tcp_begin (ts_metrics s)\<rparr>) = (r', s')" by (metis surj_pair)
  note m = process_connection_metrics [OF p, unfolded same_connections_def]
  show ?thesis
  proof (cases r')
    case None
    with p assms m show ?thesis by (auto simp: tcp_handle_connection_def tcp_begin_def)
  next
    case (Some res)
    with p assms have "r = Some res" "s1 = s'\<lparr>ts_metrics := tcp_end (tx_elapsed x) (ts_metrics s')\<rparr>"
      by (auto simp: tcp_handle_connection_def)
    with m show ?thesis by (simp add: tcp_begin_def tcp_end_def)
  qed
qed

lemma tcp_serve_metrics:
  assumes "tcp_serve hasher lib config xs s = (rs, s1)"
  shows "length rs = length xs \<and>
    tm_connections_total (ts_metrics s1) = tm_connections_total (ts_metrics s) + word_of_nat (length xs) \<and>
    tm_connections_active (ts_metrics s1) =
      tm_connections_active (ts_metrics s) + word_of_nat (count_of ((=) None) rs) \<and>
    tm_connection_duration_count (ts_metrics s1) =
      tm_connection_duration_count (ts_metrics s) + word_of_nat (count_of ((\<noteq>) None) rs)"
  using assms
proof (induction xs arbitrary: s rs)
  case (Cons x xs)
  obtain r s' where r: "tcp_handle_connection hasher lib config x s = (r, s')" by (metis surj_pair)
  with Cons.prems obtain rs' where "tcp_serve hasher lib config xs s' = (rs', s1)" "rs = r # rs'"
    by (auto split: prod.splits)
  with Cons.IH [of s' rs'] tcp_handle_connection_metrics [OF r] show ?case
    by (auto simp: count_of_def)
qed (simp add: count_of_def)

lemma process_connection_released:
  assumes "tcp_wf hasher s" "process_connection hasher lib config x s = (Some r, s1)"
  shows "active_connections (ui_stats (ts_heap s1 ! q)) = active_connections (ui_stats (ts_heap s ! q))"
proof -
  let ?key = "Some (show_socket_addr (tx_client_addr x))"
  obtain sel lb where sel: "select_upstream hasher (ts_heap s) ?key (ts_balancer s) = (sel, lb)"
    by fastforce
  show ?thesis
  proof (cases sel)
    case None
    with sel assms(2) show ?thesis by (auto simp: process_connection_def)
  next
    case (Some p)
    have wf: "balancer_wf hasher (ts_heap s) (ts_balancer s)" using assms(1) by (simp add: tcp_wf_def)
    from balancer_select.pick_sound [OF wf sel [unfolded Some]] balancer_wf_fields(1) [OF wf]
    have p: "p < length (ts_heap s)" by blast
    have stream: "active_connections (ui_stats (h ! q)) = active_connections (ui_stats (ts_heap s ! q))"
      if "stream_bidirectional x p (m, ts_heap s) = (Some r, m1, h)" for m m1 h
      using stream_bidirectional_heap(1) [OF that p] by simp
    show ?thesis
      using sel assms(2) Some
      by (auto simp: process_connection_def Let_def dest: stream
          split: option.splits prod.splits sum.splits)
  qed
qed

lemma tcp_handle_connection_released:
  assumes "tcp_wf hasher s" "tcp_handle_connection hasher lib config x s = (Some r, s1)"
  shows "active_connections (ui_stats (ts_heap s1 ! q)) = active_connections (ui_stats (ts_heap s ! q))"
proof -
  obtain r' s' where p: "process_connection hasher lib config x
      (s\<lparr>ts_metrics := tcp_begin (ts_metrics s)\<rparr>) = (r', s')" by (metis surj_pair)
  have "tcp_wf hasher (s\<lparr>ts_metrics := tcp_begin (ts_metrics s)\<rparr>)" using assms(1) by (simp add: tcp_wf_def)
  with p assms(2) show ?thesis
    by (auto simp: tcp_handle_connection_def dest: process_connection_released split: option.splits)
qed

lemma tcp_serve_released:
  "tcp_wf hasher s \<Longrightarrow> tcp_serve hasher lib config xs s = (rs, s1) \<Longrightarrow> None \<notin> set rs \<Longrightarrow>
     active_connections (ui_stats (ts_heap s1 ! q)) = active_connections (ui_stats (ts_heap s ! q))"
proof (induction xs arbitrary: s rs)
  case (Cons x xs)
  obtain r s' where r: "tcp_handle_connection hasher lib config x s = (r, s')" by (metis surj_pair)
  with Cons.prems(2) obtain rs' where rs: "tcp_serve hasher lib config xs s' = (rs', s1)" "rs = r # rs'"
    by (auto split: prod.splits)
  with Cons.prems(3) r obtain v where "tcp_handle_connection hasher lib config x s = (Some v, s')"
    by (cases r) auto
  from tcp_handle_connection_released [OF Cons.prems(1) this]
    Cons.IH [OF tcp_handle_connection_wf [OF Cons.prems(1) r] rs(1)] Cons.prems(3) rs(2)
  show ?case by simp
qed simp


section \<open>Properties\<close>

text \<open>C3: The relay corrupts nothing, whatever the order in which the reads and the partial writes of
the two copy loops complete, and wherever the relay is when it ends: what a peer has received and
what the router still holds for it (at most a buffer) are together the first bytes the other peer
sent, and the loop's counter and bytes_transferred have grown by what was delivered, short only of
the part of an unfinished write_all, less than a buffer, that is delivered and not yet counted, or
never counted if the relay has ended (modulo 2^64).\<close>

theorem relay_delivers_prefix:
  "let r = relay sent schedule (relay_start transferred); c = relay_side d r
   in cs_written c @ cs_pending c = take (cs_taken c) (sent d) \<and>
      length (cs_pending c) \<le> 65536 \<and>
      uncounted c \<le> length (cs_written c) \<and> uncounted c < 65536 \<and>
      cs_total c + word_of_nat (uncounted c) = word_of_nat (length (cs_written c)) \<and>
      rl_transferred r + word_of_nat (uncounted (rl_up r) + uncounted (rl_down r)) =
        transferred + word_of_nat (length (cs_written (rl_up r)) + length (cs_written (rl_down r)))"
proof -
  let ?r = "relay sent schedule (relay_start transferred)"
  note ok = relay_ok [of sent "relay_start transferred" schedule, simplified]
  then have sides: "copy_ok (sent d) (relay_side d ?r)" for d by (simp add: relay_ordered_def)
  note up = copy_ok_uncounted [OF sides [of To_Upstream]]
    and down = copy_ok_uncounted [OF sides [of To_Client]]
  have "rl_transferred ?r + word_of_nat (uncounted (rl_up ?r) + uncounted (rl_down ?r)) =
      transferred + word_of_nat (length (cs_written (rl_up ?r)) + length (cs_written (rl_down ?r)))"
    using ok up(1) down(1) by (simp add: counted_bytes_def relay_sides algebra_simps)
  with sides [of d] copy_ok_uncounted [OF sides [of d]] show ?thesis
    by (simp add: Let_def copy_ok_def RELAY_BUFFER_def)
qed

text \<open>C27: A half-closed connection loses data: when all that one peer has sent has been passed on and
its sending side is closed, the relay ends successfully at the next read, and whatever the other peer
still has to send, such as its answer, is never delivered, not even what the router has already read.\<close>

theorem relay_half_close_drops:
  assumes "relay_result (relay sent before (relay_start transferred)) = None"
    and "cs_written (relay_side d (relay sent before (relay_start transferred))) = sent d"
  shows "let r = relay sent (before @ (d, Read n) # rest) (relay_start transferred)
    in (\<exists>bytes. relay_result r = Some (Inr bytes)) \<and>
       cs_written (relay_side d' r) =
         cs_written (relay_side d' (relay sent before (relay_start transferred)))"
proof -
  let ?c = "relay_side d (relay sent before (relay_start transferred))"
  have "relay_ordered sent (relay sent before (relay_start transferred))"
    using relay_ok [of sent "relay_start transferred" before] by simp
  then have "copy_ok (sent d) ?c" by (simp add: relay_ordered_def)
  then have "sent d @ cs_pending ?c = take (cs_taken ?c) (sent d)"
    using assms(2) by (simp add: copy_ok_def)
  from arg_cong [OF this, of length] have "cs_pending ?c = []" "length (sent d) \<le> cs_taken ?c"
    by (simp_all add: min_def split: if_splits)
  from relay_half_close [OF assms(1) this] show ?thesis unfolding Let_def by (metis (no_types))
qed

definition test_sent :: "direction \<Rightarrow> u8 list" where
  "test_sent d = (case d of To_Upstream \<Rightarrow> [1, 2] | To_Client \<Rightarrow> [3, 4])"

lemmas relay_eval =
  relay_step_def relay_result_def copy_step_def copy_read_def copy_write_def write_failed_def
  relay_start_def copy_start_def relay_side_def test_sent_def RELAY_BUFFER_def Let_def

lemma relay_half_close_drops_witness:
  "cs_written (relay_side To_Client (relay test_sent
     [(To_Upstream, Read 2), (To_Upstream, Wrote 2), (To_Client, Read 2), (To_Client, Wrote 1),
      (To_Upstream, Read 2), (To_Client, Wrote 1)] (relay_start 0))) = [3]"
proof -
  let ?before = "[(To_Upstream, Read 2), (To_Upstream, Wrote 2), (To_Client, Read 2), (To_Client, Wrote 1)]"
  let ?r = "relay test_sent ?before (relay_start 0)"
  have "relay_result ?r = None" "cs_written (relay_side To_Upstream ?r) = test_sent To_Upstream"
    "cs_written (relay_side To_Client ?r) = [3]"
    by (simp_all add: relay_eval)
  from relay_half_close_drops [OF this(1,2), of 2 "[(To_Client, Wrote 1)]" To_Client] this(3)
  show ?thesis by (simp add: Let_def)
qed

text \<open>The TCP metrics account for every connection: after any run from the initial metrics, the
total is the number of connections, the active ones are those whose relay has not ended, and every
other one has its duration measured.\<close>

theorem tcp_connections_accounted:
  "case tcp_serve hasher lib config xs (s\<lparr>ts_metrics := tcp_metrics_default\<rparr>) of
     (results, s1) \<Rightarrow>
       length results = length xs \<and>
       tm_connections_total (ts_metrics s1) = word_of_nat (length xs) \<and>
       tm_connections_active (ts_metrics s1) = word_of_nat (count_of ((=) None) results) \<and>
       tm_connection_duration_count (ts_metrics s1) = word_of_nat (count_of ((\<noteq>) None) results)"
proof -
  obtain rs s1 where s1: "tcp_serve hasher lib config xs (s\<lparr>ts_metrics := tcp_metrics_default\<rparr>) = (rs, s1)"
    by fastforce
  from tcp_serve_metrics [OF s1] show ?thesis
    unfolding s1 prod.case by (simp add: tcp_metrics_default_def)
qed

text \<open>No connection leaks: once every connection of a run has ended, for whatever reason, the
active-connection counter of every upstream is back where it was.\<close>

theorem upstream_connections_released:
  assumes "lb_exec hasher strategy ops = (ts_heap s, ts_balancer s)"
    and "tcp_serve hasher lib config xs s = (results, s1)" "None \<notin> set results"
  shows "active_connections (ui_stats (ts_heap s1 ! q)) = active_connections (ui_stats (ts_heap s ! q))"
proof -
  have "tcp_wf hasher s" using lb_exec_wf [OF assms(1)] by (simp add: tcp_wf_def)
  from tcp_serve_released [OF this assms(2,3)] show ?thesis .
qed

text \<open>The connection pool is never used: whether pooling is configured or not, no connection is
ever put into a pool, and no request is a pool hit.\<close>

theorem pool_never_filled:
  "case tcp_serve hasher lib config xs (s\<lparr>ts_pools := Map.empty\<rparr>) of
     (results, s1) \<Rightarrow>
       ts_pools s1 = Map.empty \<and> tm_pool_hits (ts_metrics s1) = tm_pool_hits (ts_metrics s)"
  using tcp_serve_pool [of "s\<lparr>ts_pools := Map.empty\<rparr>" hasher lib config xs]
  by (simp split: prod.splits)

text \<open>C26: An upstream that refuses connections swallows all traffic under least connections: its
failures are not recorded and it keeps the fewest connections, so every connection is sent to it and
fails, and neither the router nor any statistic changes.\<close>

theorem refusing_upstream_black_hole:
  assumes "lb_strategy (ts_balancer s) = LeastConnections" "ts_pools s = Map.empty"
    and "fst (select_upstream hasher (ts_heap s) None (ts_balancer s)) = Some p"
    and "\<forall>x \<in> set xs. refused (ts_heap s ! p) x"
  shows "case tcp_serve hasher lib config xs s of (results, s1) \<Rightarrow>
    (\<forall>r \<in> set results. \<exists>e. r = Some (Inl e)) \<and>
    ts_heap s1 = ts_heap s \<and> ts_balancer s1 = ts_balancer s"
  using tcp_serve_refused [OF assms] by (simp split: prod.splits)

text \<open>C36: The search of a pool always ends: it drops the expired connections at the front and takes
the first valid one, if there is one.\<close>

theorem pool_search_terminates:
  assumes "queue_laws lib contents"
  shows "\<exists>q'. pop_valid lib now q =
      Some (case dropWhile (\<lambda>c. \<not> pc_is_valid now max_idle_time max_lifetime c) (contents q) of
              [] \<Rightarrow> None | c # _ \<Rightarrow> Some (pc_stream c), q') \<and>
    contents q' = tl (dropWhile (\<lambda>c. \<not> pc_is_valid now max_idle_time max_lifetime c) (contents q))"
  by (rule pop_valid_spec [OF assms])

text \<open>The pool operations fit together: a connection returned to an empty pool is handed out
again to the same upstream within the idle time.\<close>

lemma pool_return_then_get:
  assumes "queue_laws lib contents" "tcp_connection_pooling config"
    and "pool_contents contents pools name = []" "now \<le> later" "later - now \<le> max_idle_time"
  shows "map_option fst (try_get_pooled_connection lib later name
      (return_connection_to_pool lib config now name stream pools)) = Some (Some stream)"
  using pool_round_trip [OF assms, of stream] by auto

section \<open>Witnesses\<close>

text \<open>A queue that is a list, a configuration, and connections to an upstream that refuses them.\<close>

definition list_queue :: "pooled_connection list queue_lib" where
  "list_queue =
     \<lparr>sq_new = [], sq_push = (\<lambda>c q. q @ [c]),
      sq_pop = (\<lambda>q. case q of [] \<Rightarrow> None | c # cs \<Rightarrow> Some (c, cs)), sq_len = length\<rparr>"

lemma list_queue_laws: "queue_laws list_queue id"
  by (simp add: queue_laws_def list_queue_def)

definition test_tcp_config :: tcp_proxy_config where
  "test_tcp_config =
     \<lparr>tcp_connection_pooling = True, tcp_buffer_size = 8192, tcp_keep_alive = None,
      tcp_nodelay = True\<rparr>"

definition test_tcp_exchange :: tcp_exchange where
  "test_tcp_exchange =
     \<lparr>tx_client_addr = V4 (Ipv4 10 0 0 1) 5000, tx_now = 1,
      tx_connect = (\<lambda>t a. Connect_Failed ''refused''), tx_nodelay = (\<lambda>s. None), tx_sent = (\<lambda>d. []), tx_schedule = [],
      tx_stream_elapsed = 0, tx_end = 2, tx_elapsed = 1000000\<rparr>"

definition test_tcp_state :: "load_balancing_strategy \<Rightarrow> pooled_connection list tcp_state" where
  "test_tcp_state strategy =
     \<lparr>ts_metrics = tcp_metrics_default, ts_pools = Map.empty, ts_heap = test_heap,
      ts_balancer = test_balancer strategy\<rparr>"

lemma refusing_upstream_black_hole_witness:
  "case tcp_serve (\<lambda>_. 0) list_queue test_tcp_config [test_tcp_exchange, test_tcp_exchange]
      (test_tcp_state LeastConnections) of
     (results, s1) \<Rightarrow> ts_heap s1 = test_heap"
proof -
  let ?s = "test_tcp_state LeastConnections"
  have pick: "fst (select_upstream (\<lambda>_. 0) (ts_heap ?s) None (ts_balancer ?s)) = Some 0"
    by (simp add: select_upstream_def select_least_connections_def Let_def test_defs test_tcp_state_def)
  have "refused u test_tcp_exchange" for u by (simp add: refused_def test_tcp_exchange_def)
  then have "case tcp_serve (\<lambda>_. 0) list_queue test_tcp_config [test_tcp_exchange, test_tcp_exchange] ?s of
      (results, s1) \<Rightarrow> (\<forall>r \<in> set results. \<exists>e. r = Some (Inl e)) \<and>
        ts_heap s1 = ts_heap ?s \<and> ts_balancer s1 = ts_balancer ?s"
    by (intro refusing_upstream_black_hole [OF _ _ pick])
      (simp_all add: test_tcp_state_def test_balancer_def balancer_new_def)
  then show ?thesis by (simp add: test_tcp_state_def split: prod.splits)
qed

lemma upstream_connections_released_witness:
  "case lb_exec (\<lambda>_. 0) LeastConnections [Set_Upstreams 0 [test_upstream ''a'' 1]] of
     (h, lb) \<Rightarrow>
       (case tcp_serve (\<lambda>_. 0) list_queue test_tcp_config [test_tcp_exchange]
           \<lparr>ts_metrics = tcp_metrics_default, ts_pools = Map.empty, ts_heap = h, ts_balancer = lb\<rparr> of
          (results, s1) \<Rightarrow> None \<notin> set results \<and> active_connections (ui_stats (ts_heap s1 ! 0)) = 0)"
proof -
  obtain h lb where l: "lb_exec (\<lambda>_. 0) LeastConnections [Set_Upstreams 0 [test_upstream ''a'' 1]] = (h, lb)"
    by fastforce
  let ?s = "\<lparr>ts_metrics = tcp_metrics_default, ts_pools = Map.empty, ts_heap = h, ts_balancer = lb\<rparr>"
  obtain results s1 where r: "tcp_serve (\<lambda>_. 0) list_queue test_tcp_config [test_tcp_exchange] ?s =
      (results, s1)" by fastforce
  have h: "h = [upstream_info_new 0 (test_upstream ''a'' 1)]" "lb_upstreams lb = [0]"
      "lb_strategy lb = LeastConnections"
    using l lb_exec_wf [OF l] by (auto simp: lb_exec_def update_upstreams_eq Let_def)
  have pick: "fst (select_upstream (\<lambda>_. 0) h None lb) = Some 0"
    by (simp add: select_upstream_def select_least_connections_def Let_def h test_defs)
  have "refused u test_tcp_exchange" for u by (simp add: refused_def test_tcp_exchange_def)
  with tcp_serve_refused [of ?s "\<lambda>_. 0" 0 "[test_tcp_exchange]"] h pick r
  have "None \<notin> set results" by fastforce
  with upstream_connections_released [of "\<lambda>_. 0" LeastConnections _ ?s, OF _ r, of _ 0] l r h
  show ?thesis by (simp add: upstream_info_new_def upstream_stats_default_def)
qed

lemma pool_search_terminates_witness:
  "pop_valid list_queue (400 * 1000000000) [pooled_connection_new 0 7, pooled_connection_new (200 * 1000000000) 8] \<noteq> None"
  using pool_search_terminates [OF list_queue_laws, of "400 * 1000000000"] by (metis option.distinct(1))

end
