(* ===== verification/Udp_Proxy.thy ===== *)
theory Udp_Proxy
  imports Balancer_Fairness Proxy_Base Buffers "HOL-Library.AList"
begin

text \<open>
  The UDP proxy (\<open>src/proxy/udp.rs\<close>): sessions, the handling of a client's packet, the listener task
  of every session, the cleanup task and the status queries. A session is a cell that all clones of
  the \<open>UdpSession\<close> share; the session map holds references to cells. The \<open>DashMap\<close> and the network
  are arguments.
\<close>

section \<open>Sessions and state\<close>

type_synonym socket = nat
type_synonym session_ref = nat

record udp_session =
  us_upstream :: arc
  us_socket :: socket
  us_last_activity :: instant
  us_created_at :: instant
  us_bytes_sent :: u64
  us_bytes_received :: u64

record udp_metrics =
  um_packets_total :: u64
  um_sessions_active :: usize
  um_bytes_sent :: u64
  um_bytes_received :: u64
  um_sessions_created :: u64
  um_sessions_expired :: u64

definition udp_metrics_default :: udp_metrics where
  "udp_metrics_default =
     \<lparr>um_packets_total = 0, um_sessions_active = 0, um_bytes_sent = 0, um_bytes_received = 0,
      um_sessions_created = 0, um_sessions_expired = 0\<rparr>"

text \<open>
  The operations of the map. Its keys fall into shards; a write to a shard blocks as long as a
  reference into that shard is held.
\<close>

record 'd dash_lib =
  dm_get :: "socket_addr \<Rightarrow> 'd \<Rightarrow> session_ref option"
  dm_insert :: "socket_addr \<Rightarrow> session_ref \<Rightarrow> 'd \<Rightarrow> 'd"
  dm_remove :: "socket_addr \<Rightarrow> 'd \<Rightarrow> session_ref option \<times> 'd"
  dm_entries :: "'d \<Rightarrow> (socket_addr \<times> session_ref) list"
  dm_clear :: "'d \<Rightarrow> 'd"
  dm_same_shard :: "socket_addr \<Rightarrow> socket_addr \<Rightarrow> bool"

text \<open>The state, with the listener tasks that are running (client and session).\<close>

record 'd udp_state =
  ud_metrics :: udp_metrics
  ud_sessions :: 'd
  ud_cells :: "udp_session list"
  ud_listeners :: "(socket_addr \<times> session_ref) list"
  ud_heap :: upstream_heap
  ud_balancer :: balancer

section \<open>Operations on a session\<close>

definition udp_session_new :: "instant \<Rightarrow> arc \<Rightarrow> socket \<Rightarrow> udp_session" where
  "udp_session_new now upstream sock =
     \<lparr>us_upstream = upstream, us_socket = sock, us_last_activity = now, us_created_at = now,
      us_bytes_sent = 0, us_bytes_received = 0\<rparr>"

definition touch :: "instant \<Rightarrow> udp_session \<Rightarrow> udp_session" where
  "touch now c = c\<lparr>us_last_activity := now\<rparr>"

definition is_expired :: "instant \<Rightarrow> duration \<Rightarrow> udp_session \<Rightarrow> bool" where
  "is_expired now timeout c \<longleftrightarrow> timeout < now - us_last_activity c"

definition age :: "instant \<Rightarrow> udp_session \<Rightarrow> duration" where
  "age now c = now - us_created_at c"

definition record_bytes_sent :: "nat \<Rightarrow> udp_session \<Rightarrow> udp_session" where
  "record_bytes_sent bytes c = c\<lparr>us_bytes_sent := us_bytes_sent c + word_of_nat bytes\<rparr>"

definition record_bytes_received :: "nat \<Rightarrow> udp_session \<Rightarrow> udp_session" where
  "record_bytes_received bytes c = c\<lparr>us_bytes_received := us_bytes_received c + word_of_nat bytes\<rparr>"

definition on_session ::
  "(udp_session \<Rightarrow> udp_session) \<Rightarrow> session_ref \<Rightarrow> 'd udp_state \<Rightarrow> 'd udp_state" where
  "on_session f r s = s\<lparr>ud_cells := (ud_cells s)[r := f (ud_cells s ! r)]\<rparr>"

definition on_metrics :: "(udp_metrics \<Rightarrow> udp_metrics) \<Rightarrow> 'd udp_state \<Rightarrow> 'd udp_state" where
  "on_metrics f s = s\<lparr>ud_metrics := f (ud_metrics s)\<rparr>"

definition session_timeout :: "udp_proxy_config \<Rightarrow> duration" where
  "session_timeout config = unat (udp_session_timeout_secs config) * 1000000000"

text \<open>The counters that go with every expiry and every creation.\<close>

definition count_expired :: "udp_metrics \<Rightarrow> udp_metrics" where
  "count_expired m =
     m\<lparr>um_sessions_expired := um_sessions_expired m + 1,
       um_sessions_active := um_sessions_active m - 1\<rparr>"

definition count_created :: "udp_metrics \<Rightarrow> udp_metrics" where
  "count_created m =
     m\<lparr>um_sessions_created := um_sessions_created m + 1,
       um_sessions_active := um_sessions_active m + 1\<rparr>"

section \<open>A client's packet\<close>

text \<open>
  \<open>remove\<close> by a task that holds a reference to the key \<open>held\<close>: \<open>None\<close> if it blocks, and then it
  blocks for ever, because only this task could release the reference.
\<close>

definition remove_holding ::
  "'d dash_lib \<Rightarrow> socket_addr \<Rightarrow> socket_addr \<Rightarrow> 'd \<Rightarrow> (session_ref option \<times> 'd) option" where
  "remove_holding lib held key d =
     (if dm_same_shard lib held key then None else Some (dm_remove lib key d))"

text \<open>
  What the network answers while the packet is handled; \<open>pk_listen\<close> is the failure, if any, to bind
  the socket of the session's listener.
\<close>

datatype send_outcome = Sent nat | Send_Failed string | Send_Timed_Out

record udp_packet =
  pk_client_addr :: socket_addr
  pk_data :: "u8 list"
  pk_now :: instant
  pk_bind :: "string + socket"
  pk_connect :: "socket_addr \<Rightarrow> string option"
  pk_listen :: "string option"
  pk_created :: instant
  pk_touched :: instant
  pk_send :: "duration \<Rightarrow> u8 list \<Rightarrow> send_outcome"
  pk_failed :: instant

text \<open>
  The first half of \<open>get_or_create_session\<close>, up to the first suspension point that matters: an
  existing session, an upstream for a new one, or an error; \<open>None\<close> if the task blocks.
\<close>

datatype lookup = Existing session_ref | New_For arc

definition find_session ::
  "(string \<Rightarrow> u64) \<Rightarrow> 'd dash_lib \<Rightarrow> udp_proxy_config \<Rightarrow> udp_packet \<Rightarrow> 'd udp_state \<Rightarrow>
   (lookup result \<times> 'd udp_state) option" where
  "find_session hasher lib config k s =
     (let addr = pk_client_addr k;
          create = (\<lambda>s.
            let (selected, lb) =
                  select_upstream hasher (ud_heap s) (Some (show_socket_addr addr)) (ud_balancer s);
                s = s\<lparr>ud_balancer := lb\<rparr>
            in case selected of
                 None \<Rightarrow> (Inl (err_proxy ''No healthy upstream available'' ''udp'' ''unknown''), s)
               | Some p \<Rightarrow> (Inr (New_For p), s))
      in case dm_get lib addr (ud_sessions s) of
           Some r \<Rightarrow>
             if \<not> is_expired (pk_now k) (session_timeout config) (ud_cells s ! r)
             then Some (Inr (Existing r), s)
             else (case remove_holding lib addr addr (ud_sessions s) of
                     None \<Rightarrow> None
                   | Some (_, d) \<Rightarrow>
                       Some (create (on_metrics count_expired (s\<lparr>ud_sessions := d\<rparr>))))
         | None \<Rightarrow> Some (create s))"

text \<open>\<open>UdpSession::new\<close>: the socket for the session, or the error.\<close>

definition open_upstream_socket :: "udp_packet \<Rightarrow> upstream_info \<Rightarrow> socket result" where
  "open_upstream_socket k upstream =
     res_bind (parse_address (up_address (ui_config upstream))) (\<lambda>upstream_addr.
     case pk_bind k of
       Inl e \<Rightarrow> Inl (err_network (''Failed to create upstream socket: '' @ e) ConnectionFailed)
     | Inr sock \<Rightarrow>
         (case pk_connect k upstream_addr of
            Some e \<Rightarrow> Inl (err_network (''Failed to connect to upstream: '' @ e) ConnectionFailed)
          | None \<Rightarrow> Inr sock))"

text \<open>
  The second half: the session, its listener task, the insertion and the counters. The bind of the
  listener's socket is unwrapped: its failure panics, which aborts the process (\<open>panic = "abort"\<close>).
\<close>

datatype set_up = Set_Up session_ref | Refused error | Panicked string

definition create_session ::
  "'d dash_lib \<Rightarrow> udp_packet \<Rightarrow> arc \<Rightarrow> 'd udp_state \<Rightarrow> set_up \<times> 'd udp_state" where
  "create_session lib k p s =
     (case open_upstream_socket k (ud_heap s ! p) of
        Inl e \<Rightarrow> (Refused e, s)
      | Inr sock \<Rightarrow>
          (case pk_listen k of
             Some e \<Rightarrow> (Panicked e, s)
           | None \<Rightarrow>
               (let r = length (ud_cells s);
                    s = s\<lparr>ud_cells := ud_cells s @ [udp_session_new (pk_created k) p sock]\<rparr>;
                    s = s\<lparr>ud_listeners := ud_listeners s @ [(pk_client_addr k, r)]\<rparr>;
                    s = s\<lparr>ud_sessions := dm_insert lib (pk_client_addr k) r (ud_sessions s)\<rparr>
                in (Set_Up r, on_metrics count_created s))))"

definition forward_to_upstream ::
  "udp_packet \<Rightarrow> session_ref \<Rightarrow> 'd udp_state \<Rightarrow> unit result \<times> 'd udp_state" where
  "forward_to_upstream k r s =
     (let p = us_upstream (ud_cells s ! r);
          config = ui_config (ud_heap s ! p);
          timeout_duration = millis_to_duration (up_timeout_ms config);
          failed = s\<lparr>ud_heap := on_stats (record_failure (pk_failed k)) p (ud_heap s)\<rparr>
      in case pk_send k timeout_duration (pk_data k) of
           Sent bytes_sent \<Rightarrow>
             (Inr (),
              on_metrics (\<lambda>m. m\<lparr>um_bytes_sent := um_bytes_sent m + word_of_nat bytes_sent\<rparr>)
                (on_session (record_bytes_sent bytes_sent) r s))
         | Send_Failed e \<Rightarrow>
             (Inl (err_network (''Failed to send to upstream '' @ quoted (up_name config) @ '': '' @ e)
                ConnectionFailed), failed)
         | Send_Timed_Out \<Rightarrow>
             (Inl (err_network (''Timeout sending to upstream '' @ quoted (up_name config)) Timeout),
              failed))"

definition deliver ::
  "udp_packet \<Rightarrow> session_ref \<Rightarrow> 'd udp_state \<Rightarrow> unit result \<times> 'd udp_state" where
  "deliver k r s = forward_to_upstream k r (on_session (touch (pk_touched k)) r s)"

definition count_packet :: "udp_metrics \<Rightarrow> udp_metrics" where
  "count_packet m = m\<lparr>um_packets_total := um_packets_total m + 1\<rparr>"

text \<open>
  The whole handler, run without interruption: it returns, or a panic aborts the process; \<^const>\<open>None\<close>
  if it blocks for ever.
\<close>

datatype packet_end = Finished "unit result" | Aborted string

definition handle_client_packet ::
  "(string \<Rightarrow> u64) \<Rightarrow> 'd dash_lib \<Rightarrow> udp_proxy_config \<Rightarrow> udp_packet \<Rightarrow> 'd udp_state \<Rightarrow>
   (packet_end \<times> 'd udp_state) option" where
  "handle_client_packet hasher lib config k s =
     (case find_session hasher lib config k (on_metrics count_packet s) of
        None \<Rightarrow> None
      | Some (Inl e, s) \<Rightarrow> Some (Finished (Inl e), s)
      | Some (Inr (Existing r), s) \<Rightarrow> Some (apfst Finished (deliver k r s))
      | Some (Inr (New_For p), s) \<Rightarrow>
          (case create_session lib k p s of
             (Refused e, s) \<Rightarrow> Some (Finished (Inl e), s)
           | (Panicked e, s) \<Rightarrow> Some (Aborted e, s)
           | (Set_Up r, s) \<Rightarrow> Some (apfst Finished (deliver k r s))))"

section \<open>The listener of a session\<close>

text \<open>One round: what \<open>recv\<close> gives, whether the reply could be sent, and the two clock readings.\<close>

datatype listener_event =
    Received nat "string option" instant instant
  | Receive_Failed string

definition listener_step ::
  "'d dash_lib \<Rightarrow> udp_proxy_config \<Rightarrow> socket_addr \<Rightarrow> session_ref \<Rightarrow> listener_event \<Rightarrow>
   'd udp_state \<Rightarrow> 'd udp_state" where
  "listener_step lib config addr r e s =
     (let stop = (\<lambda>s. s\<lparr>ud_listeners := remove1 (addr, r) (ud_listeners s)\<rparr>) in
      case e of
        Receive_Failed _ \<Rightarrow> stop s
      | Received bytes send_error touched checked \<Rightarrow>
          (let s = on_session (record_bytes_received bytes) r s;
               s = on_metrics (\<lambda>m. m\<lparr>um_bytes_received := um_bytes_received m + word_of_nat bytes\<rparr>) s
           in case send_error of
                Some _ \<Rightarrow> stop s
              | None \<Rightarrow>
                  (let s = on_session (touch touched) r s
                   in if is_expired checked (session_timeout config) (ud_cells s ! r)
                      then stop (on_metrics count_expired
                             (s\<lparr>ud_sessions := snd (dm_remove lib addr (ud_sessions s))\<rparr>))
                      else s)))"

section \<open>The cleanup task\<close>

definition cleanup_find ::
  "'d dash_lib \<Rightarrow> udp_proxy_config \<Rightarrow> instant \<Rightarrow> 'd udp_state \<Rightarrow> socket_addr list" where
  "cleanup_find lib config now s =
     map fst (filter (\<lambda>(_, r). is_expired now (session_timeout config) (ud_cells s ! r))
       (dm_entries lib (ud_sessions s)))"

fun cleanup_remove :: "'d dash_lib \<Rightarrow> socket_addr list \<Rightarrow> 'd udp_state \<Rightarrow> 'd udp_state" where
  "cleanup_remove lib [] s = s"
| "cleanup_remove lib (addr # as) s =
     (let (removed, d) = dm_remove lib addr (ud_sessions s);
          s = s\<lparr>ud_sessions := d\<rparr>
      in cleanup_remove lib as (if removed \<noteq> None then on_metrics count_expired s else s))"

definition session_cleanup ::
  "'d dash_lib \<Rightarrow> udp_proxy_config \<Rightarrow> instant \<Rightarrow> 'd udp_state \<Rightarrow> 'd udp_state" where
  "session_cleanup lib config now s = cleanup_remove lib (cleanup_find lib config now s) s"

text \<open>The end of \<open>start\<close>, after the shutdown signal.\<close>

definition udp_shutdown :: "'d dash_lib \<Rightarrow> 'd udp_state \<Rightarrow> 'd udp_state" where
  "udp_shutdown lib s = s\<lparr>ud_sessions := dm_clear lib (ud_sessions s)\<rparr>"

section \<open>Validation and status\<close>

definition udp_validate_config :: "proxy_instance_config \<Rightarrow> unit result" where
  "udp_validate_config config =
     (if inst_proxy_type config \<noteq> Udp then Inl (err_config ''Invalid proxy type for UDP proxy'')
      else
        let c = ps_udp (inst_config config) in
        if udp_buffer_size c = 0 then Inl (err_config ''UDP buffer_size must be greater than 0'')
        else if udp_buffer_size c > 65536
          then Inl (err_config ''UDP buffer_size cannot exceed 64KB'')
        else if udp_session_timeout_secs c = 0
          then Inl (err_config ''UDP session_timeout_secs must be greater than 0'')
        else if udp_session_timeout_secs c > 3600
          then Inl (err_config ''UDP session_timeout_secs cannot exceed 1 hour'')
        else Inr ())"

definition udp_get_metrics :: "udp_metrics \<Rightarrow> proxy_metrics result" where
  "udp_get_metrics m =
     (let created = um_sessions_created m;
          expired = um_sessions_expired m;
          session_success_rate =
            (if created > 0 then f64_div (f64_of_u64 (created - expired)) (f64_of_u64 created) else 1)
      in Inr \<lparr>pm_total_requests = um_packets_total m, pm_active_connections = um_sessions_active m,
              pm_bytes_sent = um_bytes_sent m, pm_bytes_received = um_bytes_received m,
              pm_request_rate = 0, pm_error_rate = f64_sub 1 session_success_rate,
              pm_avg_response_time_ms = 0\<rparr>)"

definition udp_health_check :: "udp_metrics \<Rightarrow> proxy_health result" where
  "udp_health_check m =
     (let active_sessions = um_sessions_active m; total_packets = um_packets_total m;
          status = (if active_sessions < 1000 then Healthy
                    else if active_sessions \<ge> 5000 then Unhealthy else Unknown)
      in Inr \<lparr>ph_status = status,
              ph_message = ''Active sessions: '' @ show_nat (unat active_sessions) @
                '', Total packets: '' @ show_nat (unat total_packets)\<rparr>)"

section \<open>The laws of the session map\<close>

definition dash_laws :: "'d dash_lib \<Rightarrow> bool" where
  "dash_laws lib \<longleftrightarrow>
     (\<forall>k r d k'. dm_get lib k' (dm_insert lib k r d) = (if k' = k then Some r else dm_get lib k' d)) \<and>
     (\<forall>k d k'. dm_get lib k' (snd (dm_remove lib k d)) = (if k' = k then None else dm_get lib k' d)) \<and>
     (\<forall>k d. fst (dm_remove lib k d) = dm_get lib k d) \<and>
     (\<forall>d k r. (k, r) \<in> set (dm_entries lib d) \<longleftrightarrow> dm_get lib k d = Some r) \<and>
     (\<forall>d. distinct (map fst (dm_entries lib d))) \<and>
     (\<forall>d k. dm_get lib k (dm_clear lib d) = None) \<and>
     (\<forall>k. dm_same_shard lib k k)"

lemma dash_lawsD:
  assumes "dash_laws lib"
  shows "dm_get lib k' (dm_insert lib k r d) = (if k' = k then Some r else dm_get lib k' d)"
    "dm_get lib k' (snd (dm_remove lib k d)) = (if k' = k then None else dm_get lib k' d)"
    "fst (dm_remove lib k d) = dm_get lib k d"
    "(k, r) \<in> set (dm_entries lib d) \<longleftrightarrow> dm_get lib k d = Some r"
    "distinct (map fst (dm_entries lib d))"
    "dm_get lib k (dm_clear lib d) = None"
    "dm_same_shard lib k k"
  using assms by (simp_all add: dash_laws_def)

definition session_keys :: "'d dash_lib \<Rightarrow> 'd \<Rightarrow> socket_addr set" where
  "session_keys lib d = {k. dm_get lib k d \<noteq> None}"

lemma session_keys_entries: "dash_laws lib \<Longrightarrow> session_keys lib d = fst ` set (dm_entries lib d)"
proof -
  assume laws: "dash_laws lib"
  have "session_keys lib d = {k. \<exists>r. (k, r) \<in> set (dm_entries lib d)}"
    by (simp add: session_keys_def dash_lawsD(4) [OF laws])
  then show ?thesis by force
qed

lemma finite_session_keys: "dash_laws lib \<Longrightarrow> finite (session_keys lib d)"
  by (simp add: session_keys_entries)

lemma session_keys_insert:
  "dash_laws lib \<Longrightarrow> session_keys lib (dm_insert lib k r d) = insert k (session_keys lib d)"
  by (auto simp: session_keys_def dash_lawsD)

lemma session_keys_remove:
  "dash_laws lib \<Longrightarrow> session_keys lib (snd (dm_remove lib k d)) = session_keys lib d - {k}"
  by (auto simp: session_keys_def dash_lawsD split: if_splits)

section \<open>Lemmas: frames\<close>

lemma on_session_simps [simp, frame_simps]:
  "ud_metrics (on_session f r s) = ud_metrics s" "ud_sessions (on_session f r s) = ud_sessions s"
  "ud_listeners (on_session f r s) = ud_listeners s" "ud_heap (on_session f r s) = ud_heap s"
  "ud_balancer (on_session f r s) = ud_balancer s"
  "length (ud_cells (on_session f r s)) = length (ud_cells s)"
  by (simp_all add: on_session_def)

lemma on_metrics_simps [simp, frame_simps]:
  "ud_metrics (on_metrics g s) = g (ud_metrics s)" "ud_sessions (on_metrics g s) = ud_sessions s"
  "ud_listeners (on_metrics g s) = ud_listeners s" "ud_heap (on_metrics g s) = ud_heap s"
  "ud_balancer (on_metrics g s) = ud_balancer s" "ud_cells (on_metrics g s) = ud_cells s"
  by (simp_all add: on_metrics_def)

lemma session_ops_upstream [simp]:
  "us_upstream (touch now c) = us_upstream c" "us_socket (touch now c) = us_socket c"
  "us_upstream (record_bytes_sent n c) = us_upstream c"
  "us_upstream (record_bytes_received n c) = us_upstream c"
  by (simp_all add: touch_def record_bytes_sent_def record_bytes_received_def)

lemma on_session_upstream:
  assumes "\<And>c. us_upstream (f c) = us_upstream c"
  shows "us_upstream (ud_cells (on_session f r s) ! q) = us_upstream (ud_cells s ! q)"
  using assms by (cases "r < length (ud_cells s)")
    (auto simp: on_session_def nth_list_update list_update_beyond)

text \<open>What forwarding changes: byte counters, the session's cell and, on failure, the upstream.\<close>

lemma forward_frame:
  assumes "forward_to_upstream k r s = (res, s1)"
  shows "ud_sessions s1 = ud_sessions s" "ud_listeners s1 = ud_listeners s"
    "length (ud_cells s1) = length (ud_cells s)" "ud_balancer s1 = ud_balancer s"
    "length (ud_heap s1) = length (ud_heap s)"
    "um_sessions_active (ud_metrics s1) = um_sessions_active (ud_metrics s)"
    "um_sessions_created (ud_metrics s1) = um_sessions_created (ud_metrics s)"
    "um_sessions_expired (ud_metrics s1) = um_sessions_expired (ud_metrics s)"
    "us_upstream (ud_cells s1 ! q) = us_upstream (ud_cells s ! q)"
    "balancer_wf hasher (ud_heap s) lb \<Longrightarrow> balancer_wf hasher (ud_heap s1) lb"
  using assms
  by (auto simp: forward_to_upstream_def Let_def on_session_upstream balancer_wf_on_stats
      split: send_outcome.splits)

lemma deliver_frame:
  assumes "deliver k r s = (res, s1)"
  shows "ud_sessions s1 = ud_sessions s" "ud_listeners s1 = ud_listeners s"
    "length (ud_cells s1) = length (ud_cells s)" "ud_balancer s1 = ud_balancer s"
    "length (ud_heap s1) = length (ud_heap s)"
    "um_sessions_active (ud_metrics s1) = um_sessions_active (ud_metrics s)"
  using forward_frame [OF assms [unfolded deliver_def]] by simp_all

section \<open>Lemmas: a client's packet\<close>

text \<open>A live session is used again, whatever the balancer would choose.\<close>

lemma handle_packet_existing:
  assumes "dm_get lib (pk_client_addr k) (ud_sessions s) = Some r"
    and "\<not> is_expired (pk_now k) (session_timeout config) (ud_cells s ! r)"
  shows "handle_client_packet hasher lib config k s =
    Some (apfst Finished (deliver k r (on_metrics count_packet s)))"
  using assms by (simp add: handle_client_packet_def find_session_def)

text \<open>An expired session that is still in the map blocks its client's task for ever.\<close>

lemma handle_packet_expired_blocks:
  assumes "dash_laws lib"
    and "dm_get lib (pk_client_addr k) (ud_sessions s) = Some r"
    and "is_expired (pk_now k) (session_timeout config) (ud_cells s ! r)"
  shows "handle_client_packet hasher lib config k s = None"
  using assms
  by (simp add: handle_client_packet_def find_session_def remove_holding_def dash_lawsD Let_def)

lemma handle_packet_returns:
  assumes "dm_get lib (pk_client_addr k) (ud_sessions s) = None"
  shows "\<exists>res s1. handle_client_packet hasher lib config k s = Some (res, s1)"
  using assms
  by (auto simp: handle_client_packet_def find_session_def Let_def apfst_def map_prod_def
      split: prod.splits option.splits
      sum.splits lookup.splits set_up.splits)

section \<open>Lemmas: the counters\<close>

text \<open>
  The active counter is the difference of the other two, as words, at all times; it is the size of
  the map as long as no two tasks create a session for one client and no listener expires one.
\<close>

definition counters_paired :: "udp_metrics \<Rightarrow> bool" where
  "counters_paired m \<longleftrightarrow> um_sessions_active m = um_sessions_created m - um_sessions_expired m"

lemma counters_paired_default: "counters_paired udp_metrics_default"
  by (simp add: counters_paired_def udp_metrics_default_def)

lemma counters_paired_steps [simp]:
  "counters_paired (count_expired m) \<longleftrightarrow> counters_paired m"
  "counters_paired (count_created m) \<longleftrightarrow> counters_paired m"
  "counters_paired (count_packet m) \<longleftrightarrow> counters_paired m"
  "counters_paired (m\<lparr>um_bytes_sent := a\<rparr>) \<longleftrightarrow> counters_paired m"
  "counters_paired (m\<lparr>um_bytes_received := a\<rparr>) \<longleftrightarrow> counters_paired m"
  by (auto simp: counters_paired_def count_expired_def count_created_def count_packet_def
      algebra_simps)

definition active_exact :: "'d dash_lib \<Rightarrow> 'd udp_state \<Rightarrow> bool" where
  "active_exact lib s \<longleftrightarrow>
     um_sessions_active (ud_metrics s) = word_of_nat (card (session_keys lib (ud_sessions s)))"

lemma create_session_cases:
  assumes "create_session lib k p s = (res, s1)"
  shows "(\<forall>r. res \<noteq> Set_Up r) \<and> s1 = s \<or>
    res = Set_Up (length (ud_cells s)) \<and>
    ud_sessions s1 = dm_insert lib (pk_client_addr k) (length (ud_cells s)) (ud_sessions s) \<and>
    ud_metrics s1 = count_created (ud_metrics s) \<and>
    (\<exists>sock. ud_cells s1 = ud_cells s @ [udp_session_new (pk_created k) p sock]) \<and>
    ud_listeners s1 = ud_listeners s @ [(pk_client_addr k, length (ud_cells s))] \<and>
    ud_heap s1 = ud_heap s \<and> ud_balancer s1 = ud_balancer s"
  using assms
  by (cases "open_upstream_socket k (ud_heap s ! p)"; cases "pk_listen k")
    (auto simp: create_session_def Let_def)

lemma find_session_new:
  assumes "dash_laws lib" "find_session hasher lib config k s = Some (Inr (New_For p), s1)"
  shows "dm_get lib (pk_client_addr k) (ud_sessions s) = None" "\<exists>lb. s1 = s\<lparr>ud_balancer := lb\<rparr>"
    "select_upstream hasher (ud_heap s) (Some (show_socket_addr (pk_client_addr k))) (ud_balancer s)
       = (Some p, ud_balancer s1)"
  using assms
  by (auto simp: find_session_def Let_def remove_holding_def dash_lawsD
      split: option.splits if_splits prod.splits)

lemma find_session_other:
  assumes "dash_laws lib" "find_session hasher lib config k s = Some (res, s1)"
  shows "\<exists>lb. s1 = s\<lparr>ud_balancer := lb\<rparr>"
    "ud_balancer s1 = ud_balancer s \<or> (\<exists>n. ud_balancer s1 = (ud_balancer s)\<lparr>lb_rr_counter := n\<rparr>)"
    "res = Inr (Existing r) \<Longrightarrow> dm_get lib (pk_client_addr k) (ud_sessions s) = Some r"
proof -
  have "(\<exists>r. res = Inr (Existing r) \<and> s1 = s \<and>
        dm_get lib (pk_client_addr k) (ud_sessions s) = Some r) \<or>
      (\<exists>lb sel. select_upstream hasher (ud_heap s) (Some (show_socket_addr (pk_client_addr k)))
         (ud_balancer s) = (sel, lb) \<and> s1 = s\<lparr>ud_balancer := lb\<rparr> \<and> (\<forall>r. res \<noteq> Inr (Existing r)))"
    using assms
    by (auto simp: find_session_def Let_def remove_holding_def dash_lawsD
        split: option.splits if_splits prod.splits)
  then show "\<exists>lb. s1 = s\<lparr>ud_balancer := lb\<rparr>"
    "ud_balancer s1 = ud_balancer s \<or> (\<exists>n. ud_balancer s1 = (ud_balancer s)\<lparr>lb_rr_counter := n\<rparr>)"
    "res = Inr (Existing r) \<Longrightarrow> dm_get lib (pk_client_addr k) (ud_sessions s) = Some r"
    using select_upstream_frame by (fastforce intro: exI [of _ "ud_balancer s"])+
qed

lemma handle_packet_exact:
  assumes "dash_laws lib" "active_exact lib s"
    and "handle_client_packet hasher lib config k s = Some (res, s1)"
  shows "active_exact lib s1"
proof -
  let ?s = "on_metrics count_packet s"
  have s: "active_exact lib ?s" using assms(2) by (simp add: active_exact_def count_packet_def)
  obtain l s' where l: "find_session hasher lib config k ?s = Some (l, s')"
    using assms(3) by (cases "find_session hasher lib config k ?s")
      (auto simp: handle_client_packet_def)
  have s': "active_exact lib s'" using find_session_other(1) [OF assms(1) l] s
    by (auto simp: active_exact_def)
  have exact: "active_exact lib t1" if "deliver k r t = (x, t1)" "active_exact lib t" for r t x t1
    using deliver_frame [OF that(1)] that(2) by (simp add: active_exact_def)
  consider e where "l = Inl e" | r where "l = Inr (Existing r)" | p where "l = Inr (New_For p)"
    by (metis lookup.exhaust sum.exhaust)
  then show ?thesis
  proof cases
    case 1
    with assms(3) l s' show ?thesis by (auto simp: handle_client_packet_def)
  next
    case 2
    with assms(3) l exact [OF _ s'] show ?thesis
      by (auto simp: handle_client_packet_def apfst_def map_prod_def split: prod.splits)
  next
    case 3
    obtain x t where x: "create_session lib k p s' = (x, t)" by fastforce
    have none: "pk_client_addr k \<notin> session_keys lib (ud_sessions s')"
      using find_session_new [OF assms(1) l [unfolded 3]] by (auto simp: session_keys_def)
    have "active_exact lib t"
      using create_session_cases [OF x] s' none
      by (auto simp: active_exact_def session_keys_insert [OF assms(1)]
          finite_session_keys [OF assms(1)] count_created_def)
    with assms(3) l 3 x exact show ?thesis
      by (auto simp: handle_client_packet_def apfst_def map_prod_def split: set_up.splits prod.splits)
  qed
qed

lemma cleanup_remove_Cons:
  assumes "dash_laws lib"
  shows "cleanup_remove lib (a # as) s =
    cleanup_remove lib as
      (let s1 = s\<lparr>ud_sessions := snd (dm_remove lib a (ud_sessions s))\<rparr>
       in if dm_get lib a (ud_sessions s) \<noteq> None then on_metrics count_expired s1 else s1)"
  using dash_lawsD(3) [OF assms, of a "ud_sessions s"]
  by (cases "dm_remove lib a (ud_sessions s)") (simp add: Let_def)

declare cleanup_remove.simps(2) [simp del]

lemma cleanup_remove_exact:
  assumes "dash_laws lib"
  shows "active_exact lib s \<Longrightarrow> active_exact lib (cleanup_remove lib as s)"
proof (induction as arbitrary: s)
  case (Cons a as)
  let ?d = "snd (dm_remove lib a (ud_sessions s))"
  let ?s = "s\<lparr>ud_sessions := ?d\<rparr>"
  have "active_exact lib (if dm_get lib a (ud_sessions s) \<noteq> None then on_metrics count_expired ?s else ?s)"
  proof (cases "dm_get lib a (ud_sessions s)")
    case None
    then have "a \<notin> session_keys lib (ud_sessions s)" by (simp add: session_keys_def)
    with Cons.prems None show ?thesis
      by (simp add: active_exact_def session_keys_remove [OF assms])
  next
    case (Some r)
    then have "a \<in> session_keys lib (ud_sessions s)" by (simp add: session_keys_def)
    moreover from this have "0 < card (session_keys lib (ud_sessions s))"
      using finite_session_keys [OF assms] by (auto simp: card_gt_0_iff)
    ultimately show ?thesis using Cons.prems Some finite_session_keys [OF assms, of "ud_sessions s"]
      by (simp add: active_exact_def session_keys_remove [OF assms] count_expired_def
          card_Diff_singleton)
  qed
  with Cons.IH show ?case by (simp only: cleanup_remove_Cons [OF assms] Let_def)
qed simp

text \<open>Two tasks that both missed the session: the map holds one, the counter says two.\<close>

lemma create_session_race:
  assumes "dash_laws lib" "pk_client_addr k2 = pk_client_addr k1"
    and "create_session lib k1 p1 s = (Set_Up r1, s1)" "create_session lib k2 p2 s1 = (Set_Up r2, s2)"
    and "pk_client_addr k1 \<notin> session_keys lib (ud_sessions s)"
  shows "um_sessions_active (ud_metrics s2) = um_sessions_active (ud_metrics s) + 2"
    "card (session_keys lib (ud_sessions s2)) = card (session_keys lib (ud_sessions s)) + 1"
    "r1 \<noteq> r2" "dm_get lib (pk_client_addr k1) (ud_sessions s2) = Some r2"
proof -
  from create_session_cases [OF assms(3)] have s1:
    "r1 = length (ud_cells s)" "ud_sessions s1 = dm_insert lib (pk_client_addr k1) r1 (ud_sessions s)"
    "ud_metrics s1 = count_created (ud_metrics s)" "length (ud_cells s1) = length (ud_cells s) + 1"
    by auto
  from create_session_cases [OF assms(4)] assms(2) have s2:
    "r2 = length (ud_cells s1)" "ud_sessions s2 = dm_insert lib (pk_client_addr k1) r2 (ud_sessions s1)"
    "ud_metrics s2 = count_created (ud_metrics s1)"
    by auto
  show "um_sessions_active (ud_metrics s2) = um_sessions_active (ud_metrics s) + 2"
    by (simp add: s1 s2 count_created_def)
  show "card (session_keys lib (ud_sessions s2)) = card (session_keys lib (ud_sessions s)) + 1"
    using assms(5) finite_session_keys [OF assms(1)]
    by (simp add: s1(2) s2(2) session_keys_insert [OF assms(1)])
  show "r1 \<noteq> r2" "dm_get lib (pk_client_addr k1) (ud_sessions s2) = Some r2"
    by (simp_all add: s1 s2 dash_lawsD [OF assms(1)])
qed

section \<open>Lemmas: the cleanup task\<close>

lemma cleanup_remove_get:
  assumes "dash_laws lib"
  shows "dm_get lib a (ud_sessions (cleanup_remove lib as s)) =
      (if a \<in> set as then None else dm_get lib a (ud_sessions s))"
  by (induction as arbitrary: s)
    (auto simp: cleanup_remove_Cons [OF assms] dash_lawsD [OF assms] Let_def)

lemma cleanup_remove_frame:
  assumes "dash_laws lib"
  shows "ud_cells (cleanup_remove lib as s) = ud_cells s \<and>
    ud_listeners (cleanup_remove lib as s) = ud_listeners s \<and>
    ud_heap (cleanup_remove lib as s) = ud_heap s \<and>
    ud_balancer (cleanup_remove lib as s) = ud_balancer s"
  by (induction as arbitrary: s) (simp_all add: cleanup_remove_Cons [OF assms] Let_def)

lemma cleanup_find_set:
  assumes "dash_laws lib"
  shows "a \<in> set (cleanup_find lib config now s) \<longleftrightarrow>
    (\<exists>r. dm_get lib a (ud_sessions s) = Some r \<and>
      is_expired now (session_timeout config) (ud_cells s ! r))"
  by (auto simp: cleanup_find_def dash_lawsD(4) [OF assms] image_iff)

text \<open>An undisturbed sweep removes exactly the expired sessions, and stops no listener task.\<close>

lemma session_cleanup_get:
  assumes "dash_laws lib"
  shows "dm_get lib a (ud_sessions (session_cleanup lib config now s)) =
    (case dm_get lib a (ud_sessions s) of
       Some r \<Rightarrow> if is_expired now (session_timeout config) (ud_cells s ! r) then None else Some r
     | None \<Rightarrow> None)"
  by (auto simp: session_cleanup_def cleanup_remove_get [OF assms] cleanup_find_set [OF assms]
      split: option.splits)

lemma session_cleanup_listeners:
  "dash_laws lib \<Longrightarrow> ud_listeners (session_cleanup lib config now s) = ud_listeners s"
  by (simp add: session_cleanup_def cleanup_remove_frame)

lemma session_cleanup_exact:
  "dash_laws lib \<Longrightarrow> active_exact lib s \<Longrightarrow> active_exact lib (session_cleanup lib config now s)"
  by (simp add: session_cleanup_def cleanup_remove_exact)

text \<open>A sweep whose removals come late removes a session that has been used in the meantime.\<close>

lemma cleanup_after_touch:
  assumes "dash_laws lib" "a \<in> set (cleanup_find lib config now s)"
    and "deliver k r s = (res, s1)"
  shows "dm_get lib a (ud_sessions (cleanup_remove lib (cleanup_find lib config now s) s1)) = None"
  using assms by (simp add: cleanup_remove_get)

section \<open>Lemmas: the listener\<close>

text \<open>
  The expiry test of the listener follows its own \<open>touch\<close>: unless more than the timeout passes
  between the two, it fails.
\<close>

lemma listener_step_never_expires:
  assumes "r < length (ud_cells s)" "checked \<le> touched + session_timeout config"
  shows "ud_sessions (listener_step lib config addr r (Received n None touched checked) s) = ud_sessions s"
    "ud_listeners (listener_step lib config addr r (Received n None touched checked) s) = ud_listeners s"
  using assms by (auto simp: listener_step_def Let_def is_expired_def on_session_def touch_def
      on_metrics_def)

lemma listener_step_counters:
  "counters_paired (ud_metrics (listener_step lib config addr r e s)) \<longleftrightarrow>
     counters_paired (ud_metrics s)"
  by (cases e) (auto simp: listener_step_def Let_def split: option.splits)

lemma udp_shutdown_counters:
  assumes "dash_laws lib"
  shows "session_keys lib (ud_sessions (udp_shutdown lib s)) = {}"
    "ud_metrics (udp_shutdown lib s) = ud_metrics s"
  by (simp_all add: udp_shutdown_def session_keys_def dash_lawsD [OF assms])

section \<open>The tasks together\<close>

text \<open>
  The tasks of one proxy, interleaved at their suspension points: packets that await their socket
  (\<open>sys_pending\<close>), packets that await their send (\<open>sys_sending\<close>), and the addresses a running sweep has
  still to remove (\<open>sys_sweep\<close>). A packet whose task blocks has been counted, and the map goes on as
  if the reference it holds kept nobody else out. The end of \<open>start\<close> leaves the other tasks running.
  A set-up that panics has no step, because no task runs after it. \<open>accepted\<close> is the state of a packet
  that has its session: the session is touched and the send awaited.
\<close>

record 'd udp_system =
  sys_state :: "'d udp_state"
  sys_pending :: "(udp_packet \<times> arc) list"
  sys_sending :: "(udp_packet \<times> session_ref) list"
  sys_sweep :: "socket_addr list"

definition accepted :: "udp_packet \<Rightarrow> session_ref \<Rightarrow> 'd udp_state \<Rightarrow> 'd udp_system \<Rightarrow> 'd udp_system" where
  "accepted k r s y =
     y\<lparr>sys_state := on_session (touch (pk_touched k)) r s, sys_sending := (k, r) # sys_sending y\<rparr>"

inductive udp_step ::
  "(string \<Rightarrow> u64) \<Rightarrow> 'd dash_lib \<Rightarrow> udp_proxy_config \<Rightarrow> 'd udp_system \<Rightarrow> 'd udp_system \<Rightarrow> bool"
  for hasher lib config where
  packet_existing:
    "find_session hasher lib config k (on_metrics count_packet (sys_state y)) =
       Some (Inr (Existing r), s1) \<Longrightarrow>
     udp_step hasher lib config y (accepted k r s1 y)"
| packet_new:
    "find_session hasher lib config k (on_metrics count_packet (sys_state y)) =
       Some (Inr (New_For p), s1) \<Longrightarrow>
     udp_step hasher lib config y (y\<lparr>sys_state := s1, sys_pending := (k, p) # sys_pending y\<rparr>)"
| packet_refused:
    "find_session hasher lib config k (on_metrics count_packet (sys_state y)) = Some (Inl e, s1) \<Longrightarrow>
     udp_step hasher lib config y (y\<lparr>sys_state := s1\<rparr>)"
| packet_blocked:
    "find_session hasher lib config k (on_metrics count_packet (sys_state y)) = None \<Longrightarrow>
     udp_step hasher lib config y (y\<lparr>sys_state := on_metrics count_packet (sys_state y)\<rparr>)"
| socket_ready:
    "(k, p) \<in> set (sys_pending y) \<Longrightarrow> create_session lib k p (sys_state y) = (Set_Up r, s1) \<Longrightarrow>
     udp_step hasher lib config y
       (accepted k r s1 (y\<lparr>sys_pending := remove1 (k, p) (sys_pending y)\<rparr>))"
| socket_failed:
    "(k, p) \<in> set (sys_pending y) \<Longrightarrow> create_session lib k p (sys_state y) = (Refused e, s1) \<Longrightarrow>
     udp_step hasher lib config y
       (y\<lparr>sys_state := s1, sys_pending := remove1 (k, p) (sys_pending y)\<rparr>)"
| packet_sent:
    "(k, r) \<in> set (sys_sending y) \<Longrightarrow> forward_to_upstream k r (sys_state y) = (res, s1) \<Longrightarrow>
     udp_step hasher lib config y
       (y\<lparr>sys_state := s1, sys_sending := remove1 (k, r) (sys_sending y)\<rparr>)"
| listener_round:
    "(addr, r) \<in> set (ud_listeners (sys_state y)) \<Longrightarrow>
     udp_step hasher lib config y
       (y\<lparr>sys_state := listener_step lib config addr r e (sys_state y)\<rparr>)"
| sweep_begin:
    "sys_sweep y = [] \<Longrightarrow>
     udp_step hasher lib config y (y\<lparr>sys_sweep := cleanup_find lib config now (sys_state y)\<rparr>)"
| sweep_next:
    "sys_sweep y = addr # as \<Longrightarrow>
     udp_step hasher lib config y
       (y\<lparr>sys_state := cleanup_remove lib [addr] (sys_state y), sys_sweep := as\<rparr>)"
| stopped:
    "udp_step hasher lib config y (y\<lparr>sys_state := udp_shutdown lib (sys_state y)\<rparr>)"

definition udp_refs_ok :: "'d dash_lib \<Rightarrow> 'd udp_state \<Rightarrow> bool" where
  "udp_refs_ok lib s \<longleftrightarrow>
     (\<forall>a r. dm_get lib a (ud_sessions s) = Some r \<longrightarrow> r < length (ud_cells s)) \<and>
     (\<forall>(a, r) \<in> set (ud_listeners s). r < length (ud_cells s)) \<and>
     (\<forall>r < length (ud_cells s). us_upstream (ud_cells s ! r) < length (ud_heap s))"

definition udp_inv :: "(string \<Rightarrow> u64) \<Rightarrow> 'd dash_lib \<Rightarrow> 'd udp_system \<Rightarrow> bool" where
  "udp_inv hasher lib y \<longleftrightarrow>
     counters_paired (ud_metrics (sys_state y)) \<and> udp_refs_ok lib (sys_state y) \<and>
     balancer_wf hasher (ud_heap (sys_state y)) (ud_balancer (sys_state y)) \<and>
     (\<forall>(k, p) \<in> set (sys_pending y). p < length (ud_heap (sys_state y))) \<and>
     (\<forall>(k, r) \<in> set (sys_sending y). r < length (ud_cells (sys_state y)))"

lemma accepted_simps [simp]:
  "sys_state (accepted k r s y) = on_session (touch (pk_touched k)) r s"
  "sys_pending (accepted k r s y) = sys_pending y" "sys_sweep (accepted k r s y) = sys_sweep y"
  "sys_sending (accepted k r s y) = (k, r) # sys_sending y"
  by (simp_all add: accepted_def)

lemma udp_refs_ok_on_metrics [simp]: "udp_refs_ok lib (on_metrics f s) = udp_refs_ok lib s"
  by (simp add: udp_refs_ok_def)

lemma udp_refs_ok_touch [simp]: "udp_refs_ok lib (on_session (touch now) r s) = udp_refs_ok lib s"
  by (simp add: udp_refs_ok_def on_session_upstream)

lemma udp_refs_ok_forward:
  assumes "forward_to_upstream k r s = (res, s1)" "udp_refs_ok lib s"
  shows "udp_refs_ok lib s1"
  using assms(2) forward_frame [OF assms(1)] by (simp add: udp_refs_ok_def)

lemma udp_refs_ok_create:
  assumes "dash_laws lib" "create_session lib k p s = (res, s1)" "udp_refs_ok lib s" "p < length (ud_heap s)"
  shows "udp_refs_ok lib s1"
  using create_session_cases [OF assms(2)] assms(3,4)
  by (auto simp: udp_refs_ok_def dash_lawsD [OF assms(1)] nth_append udp_session_new_def less_Suc_eq
      split: if_splits)

lemma forward_counters:
  "forward_to_upstream k r s = (res, s1) \<Longrightarrow>
     counters_paired (ud_metrics s1) \<longleftrightarrow> counters_paired (ud_metrics s)"
  using forward_frame [of k r s res s1] by (simp add: counters_paired_def)

text \<open>The state a listener leaves: only sessions, cells, its own entry and the counters differ.\<close>

lemma listener_step_heap [simp]:
  "ud_heap (listener_step lib config addr r e s) = ud_heap s"
  "ud_balancer (listener_step lib config addr r e s) = ud_balancer s"
  "length (ud_cells (listener_step lib config addr r e s)) = length (ud_cells s)"
  by (cases e; simp add: listener_step_def Let_def split: option.split)+

lemma listener_step_upstream [simp]:
  "us_upstream (ud_cells (listener_step lib config addr r e s) ! q) = us_upstream (ud_cells s ! q)"
  by (cases e) (simp_all add: listener_step_def Let_def on_session_upstream split: option.split)

lemma listener_step_listeners:
  "set (ud_listeners (listener_step lib config addr r e s)) \<subseteq> set (ud_listeners s)"
  by (cases e) (simp_all add: listener_step_def Let_def set_remove1_subset split: option.split)

lemma listener_step_sessions:
  "ud_sessions (listener_step lib config addr r e s) \<in>
     {ud_sessions s, snd (dm_remove lib addr (ud_sessions s))}"
  by (cases e) (simp_all add: listener_step_def Let_def split: option.split)

lemma listener_step_get:
  assumes "dash_laws lib"
    and "dm_get lib a (ud_sessions (listener_step lib config addr r e s)) = Some t"
  shows "dm_get lib a (ud_sessions s) = Some t"
  using listener_step_sessions [of lib config addr r e s] assms(2)
  by (auto simp: dash_lawsD(2) [OF assms(1)] split: if_splits)

lemma udp_refs_ok_listener:
  "dash_laws lib \<Longrightarrow> udp_refs_ok lib s \<Longrightarrow> udp_refs_ok lib (listener_step lib config addr r e s)"
  using listener_step_listeners [of lib config addr r e s]
  by (auto simp: udp_refs_ok_def dest: listener_step_get)

lemma cleanup_counters:
  "dash_laws lib \<Longrightarrow>
     counters_paired (ud_metrics (cleanup_remove lib as s)) \<longleftrightarrow> counters_paired (ud_metrics s)"
  by (induction as arbitrary: s) (simp_all add: cleanup_remove_Cons Let_def)

lemma udp_refs_ok_cleanup:
  "dash_laws lib \<Longrightarrow> udp_refs_ok lib s \<Longrightarrow> udp_refs_ok lib (cleanup_remove lib as s)"
  by (auto simp: udp_refs_ok_def cleanup_remove_get cleanup_remove_frame split: if_splits)

lemma find_session_inv:
  assumes "dash_laws lib" "find_session hasher lib config k s = Some (res, s1)"
    and "balancer_wf hasher (ud_heap s) (ud_balancer s)" "udp_refs_ok lib s"
  shows "balancer_wf hasher (ud_heap s1) (ud_balancer s1)" "udp_refs_ok lib s1"
    "ud_metrics s1 = ud_metrics s" "ud_heap s1 = ud_heap s" "ud_cells s1 = ud_cells s"
  using find_session_other(1,2) [OF assms(1,2)] assms(3,4) by (auto simp: udp_refs_ok_def)

lemma udp_step_inv:
  assumes "dash_laws lib" "udp_step hasher lib config y y'" "udp_inv hasher lib y"
  shows "udp_inv hasher lib y'"
  using assms(2,3)
proof cases
  case (packet_existing k r s1)
  have wf: "balancer_wf hasher (ud_heap (on_metrics count_packet (sys_state y)))
      (ud_balancer (on_metrics count_packet (sys_state y)))" "udp_refs_ok lib (on_metrics count_packet (sys_state y))"
    using assms(3) by (simp_all add: udp_inv_def)
  have "ud_cells s1 = ud_cells (sys_state y)" "r < length (ud_cells (sys_state y))"
    using find_session_other(1) [OF assms(1) packet_existing(2)]
      find_session_other(3) [OF assms(1) packet_existing(2), of r] wf(2)
    by (auto simp: udp_refs_ok_def)
  with assms(3) find_session_inv [OF assms(1) packet_existing(2) wf] show ?thesis
    by (simp add: packet_existing(1) udp_inv_def)
next
  case (packet_new k p s1)
  have wf: "balancer_wf hasher (ud_heap (on_metrics count_packet (sys_state y)))
      (ud_balancer (on_metrics count_packet (sys_state y)))" "udp_refs_ok lib (on_metrics count_packet (sys_state y))"
    using assms(3) by (simp_all add: udp_inv_def)
  have "p < length (ud_heap (sys_state y))"
    using select_upstream_sound [OF wf(1) find_session_new(3) [OF assms(1) packet_new(2)]]
      balancer_wf_fields(1) [OF wf(1)] by simp
  with assms(3) find_session_inv [OF assms(1) packet_new(2) wf] show ?thesis
    by (simp add: packet_new(1) udp_inv_def)
next
  case (packet_refused k e s1)
  have wf: "balancer_wf hasher (ud_heap (on_metrics count_packet (sys_state y)))
      (ud_balancer (on_metrics count_packet (sys_state y)))" "udp_refs_ok lib (on_metrics count_packet (sys_state y))"
    using assms(3) by (simp_all add: udp_inv_def)
  with assms(3) find_session_inv [OF assms(1) packet_refused(2) wf] show ?thesis
    by (simp add: packet_refused(1) udp_inv_def)
next
  case (socket_ready k p r s1)
  have p: "p < length (ud_heap (sys_state y))"
    using assms(3) socket_ready(2) by (auto simp: udp_inv_def)
  have "udp_refs_ok lib s1"
    using udp_refs_ok_create [OF assms(1) socket_ready(3) _ p] assms(3) by (simp add: udp_inv_def)
  moreover have "ud_metrics s1 = count_created (ud_metrics (sys_state y))"
    "ud_heap s1 = ud_heap (sys_state y)" "ud_balancer s1 = ud_balancer (sys_state y)"
    "r < length (ud_cells s1)" "length (ud_cells (sys_state y)) \<le> length (ud_cells s1)"
    using create_session_cases [OF socket_ready(3)] by auto
  ultimately show ?thesis
    using assms(3)
    by (fastforce simp: socket_ready(1) udp_inv_def dest: set_remove1_subset [THEN subsetD])
next
  case (socket_failed k p e s1)
  have "s1 = sys_state y" using create_session_cases [OF socket_failed(3)] by auto
  with assms(3) show ?thesis
    by (auto simp: socket_failed(1) udp_inv_def dest: set_remove1_subset [THEN subsetD])
next
  case (packet_sent k r res s1)
  with assms(3) forward_counters [OF packet_sent(3)] udp_refs_ok_forward [OF packet_sent(3)]
    forward_frame [OF packet_sent(3)] show ?thesis
    by (auto simp: udp_inv_def dest: set_remove1_subset [THEN subsetD])
next
  case (listener_round addr r e)
  with assms(1,3) show ?thesis
    by (simp add: udp_inv_def listener_step_counters udp_refs_ok_listener)
next
  case (sweep_begin now)
  with assms(3) show ?thesis by (simp add: udp_inv_def)
next
  case (sweep_next addr as)
  with assms(1,3) show ?thesis
    by (simp add: udp_inv_def cleanup_counters udp_refs_ok_cleanup cleanup_remove_frame)
next
  case (packet_blocked k)
  with assms(3) show ?thesis by (simp add: udp_inv_def)
next
  case stopped
  with assms(1,3) show ?thesis
    by (simp add: udp_inv_def udp_refs_ok_def udp_shutdown_def dash_lawsD)
qed

definition udp_reachable ::
  "(string \<Rightarrow> u64) \<Rightarrow> 'd dash_lib \<Rightarrow> udp_proxy_config \<Rightarrow> 'd udp_system \<Rightarrow> 'd udp_system \<Rightarrow> bool" where
  "udp_reachable hasher lib config = (udp_step hasher lib config)\<^sup>*\<^sup>*"

lemma udp_reachable_inv:
  assumes "dash_laws lib" "udp_reachable hasher lib config y y'" "udp_inv hasher lib y"
  shows "udp_inv hasher lib y'"
  using assms(2) unfolding udp_reachable_def
  by (induction rule: rtranclp_induct) (use assms udp_step_inv in blast)+

text \<open>The start: no session, no task.\<close>

definition udp_initial :: "'d \<Rightarrow> upstream_heap \<Rightarrow> balancer \<Rightarrow> 'd udp_system" where
  "udp_initial d h lb =
     \<lparr>sys_state = \<lparr>ud_metrics = udp_metrics_default, ud_sessions = d, ud_cells = [],
        ud_listeners = [], ud_heap = h, ud_balancer = lb\<rparr>,
      sys_pending = [], sys_sending = [], sys_sweep = []\<rparr>"

lemma udp_inv_initial:
  assumes "balancer_wf hasher h lb" "session_keys lib d = {}"
  shows "udp_inv hasher lib (udp_initial d h lb)"
  using assms by (simp add: udp_inv_def udp_initial_def udp_refs_ok_def counters_paired_default
      session_keys_def)

text \<open>
  The counter can be wrong: from a state without a session for the client, two of its packets drive
  the active counter two up and the map one up.
\<close>

lemma udp_race_reachable:
  assumes laws: "dash_laws lib"
    and f1: "find_session hasher lib config k1 (on_metrics count_packet (sys_state y)) =
      Some (Inr (New_For p1), s1)"
    and f2: "find_session hasher lib config k2 (on_metrics count_packet s1) =
      Some (Inr (New_For p2), s2)"
    and c1: "create_session lib k1 p1 s2 = (Set_Up r1, s3)"
    and c2: "create_session lib k2 p2 (on_session (touch (pk_touched k1)) r1 s3) = (Set_Up r2, s4)"
    and same: "pk_client_addr k2 = pk_client_addr k1" and pend: "sys_pending y = []"
  shows "udp_reachable hasher lib config y (accepted k2 r2 s4 (accepted k1 r1 s3 y))"
    "um_sessions_active (ud_metrics s4) = um_sessions_active (ud_metrics (sys_state y)) + 2"
    "card (session_keys lib (ud_sessions s4)) =
       card (session_keys lib (ud_sessions (sys_state y))) + 1"
proof -
  let ?step = "udp_step hasher lib config"
  let ?y1 = "y\<lparr>sys_state := s1, sys_pending := [(k1, p1)]\<rparr>"
  let ?y2 = "y\<lparr>sys_state := s2, sys_pending := [(k2, p2), (k1, p1)]\<rparr>"
  let ?y3 = "accepted k1 r1 s3 (?y2\<lparr>sys_pending := remove1 (k1, p1) (sys_pending ?y2)\<rparr>)"
  let ?y4 = "accepted k2 r2 s4 (?y3\<lparr>sys_pending := remove1 (k2, p2) (sys_pending ?y3)\<rparr>)"
  have "?step y ?y1" using packet_new [OF f1] pend by simp
  moreover have "?step ?y1 ?y2" using packet_new [of hasher lib config k2 ?y1 p2 s2] f2 by simp
  moreover have "?step ?y2 ?y3" using socket_ready [of k1 p1 ?y2 lib r1 s3] c1 by simp
  moreover have "?step ?y3 ?y4" using socket_ready [of k2 p2 ?y3 lib r2 s4] c2 by auto
  ultimately have "udp_reachable hasher lib config y ?y4"
    unfolding udp_reachable_def by (meson converse_rtranclp_into_rtranclp rtranclp.rtrancl_refl)
  moreover have "?y4 = accepted k2 r2 s4 (accepted k1 r1 s3 y)"
    using pend by (auto simp: accepted_def)
  ultimately show "udp_reachable hasher lib config y (accepted k2 r2 s4 (accepted k1 r1 s3 y))"
    by (simp only:)
  obtain lb1 lb2 where s12: "s1 = (on_metrics count_packet (sys_state y))\<lparr>ud_balancer := lb1\<rparr>"
    "s2 = (on_metrics count_packet s1)\<lparr>ud_balancer := lb2\<rparr>"
    using find_session_new(2) [OF laws f1] find_session_new(2) [OF laws f2] by blast
  have new: "pk_client_addr k1 \<notin> session_keys lib (ud_sessions (sys_state y))"
    using find_session_new(1) [OF laws f1] by (simp add: session_keys_def)
  from create_session_cases [OF c1] have s3:
    "ud_sessions s3 = dm_insert lib (pk_client_addr k1) r1 (ud_sessions s2)"
    "ud_metrics s3 = count_created (ud_metrics s2)" by auto
  from create_session_cases [OF c2] same have s4:
    "ud_sessions s4 = dm_insert lib (pk_client_addr k1) r2 (ud_sessions s3)"
    "ud_metrics s4 = count_created (ud_metrics s3)" by auto
  show "um_sessions_active (ud_metrics s4) = um_sessions_active (ud_metrics (sys_state y)) + 2"
    by (simp add: s12 s3 s4 count_created_def count_packet_def)
  show "card (session_keys lib (ud_sessions s4)) =
      card (session_keys lib (ud_sessions (sys_state y))) + 1"
    using new finite_session_keys [OF laws]
    by (simp add: s3 s4 s12 session_keys_insert [OF laws])
qed

section \<open>Lemmas: validation and status\<close>

definition valid_udp_instance :: "proxy_instance_config \<Rightarrow> bool" where
  "valid_udp_instance config \<longleftrightarrow>
     (let c = ps_udp (inst_config config)
      in inst_proxy_type config = Udp \<and>
         0 < unat (udp_buffer_size c) \<and> unat (udp_buffer_size c) \<le> 65536 \<and>
         0 < unat (udp_session_timeout_secs c) \<and> unat (udp_session_timeout_secs c) \<le> 3600)"

lemma udp_validate_config_ok: "udp_validate_config config = Inr () \<longleftrightarrow> valid_udp_instance config"
proof -
  have "unat (udp_buffer_size c) \<le> 65536 \<longleftrightarrow> \<not> udp_buffer_size c > 65536"
    "unat (udp_session_timeout_secs c) \<le> 3600 \<longleftrightarrow> \<not> udp_session_timeout_secs c > 3600"
    for c :: udp_proxy_config
    by (simp_all add: word_less_nat_alt not_less)
  then show ?thesis
    by (auto simp: udp_validate_config_def valid_udp_instance_def Let_def unat_gt_0)
qed

lemma udp_validate_config_error: "udp_validate_config config = Inl e \<Longrightarrow> is_config e"
  by (auto simp: udp_validate_config_def Let_def split: if_splits)

lemma udp_health_check_status:
  "udp_health_check m = Inr ph \<Longrightarrow>
     ph_status ph = (if unat (um_sessions_active m) < 1000 then Healthy
                     else if 5000 \<le> unat (um_sessions_active m) then Unhealthy else Unknown)"
  by (auto simp: udp_health_check_def Let_def word_less_nat_alt word_le_nat_alt split: if_splits)

interpretation udp: proxy Udp udp_validate_config udp_get_metrics udp_health_check
  by unfold_locales
    (auto simp: udp_validate_config_ok valid_udp_instance_def Let_def udp_get_metrics_def
      udp_health_check_def dest: udp_validate_config_error)

text \<open>The error rate is the share of sessions that have ended: an idle proxy reaches 1.\<close>

lemma udp_error_rate_bounds:
  assumes "udp_get_metrics m = Inr pm" "um_sessions_expired m \<le> um_sessions_created m"
  shows "0 \<le> pm_error_rate pm" "pm_error_rate pm \<le> 1"
proof -
  let ?c = "um_sessions_created m" and ?e = "um_sessions_expired m"
  let ?q = "if ?c > 0 then f64_div (f64_of_u64 (?c - ?e)) (f64_of_u64 ?c) else 1"
  have "?c - ?e \<le> ?c" using assms(2) by (simp add: word_sub_le)
  then have "f64_of_u64 (?c - ?e) \<le> f64_of_u64 ?c" by (rule f64_of_u64_mono)
  moreover have "1 \<le> f64_of_u64 ?c" if "0 < ?c" using that by (intro f64_of_u64_ge_one) auto
  ultimately have "0 \<le> ?q" "?q \<le> 1"
    using f64_unit_div [of "f64_of_u64 (?c - ?e)" "f64_of_u64 ?c"] by (auto split: if_splits)
  then have "0 \<le> f64_sub 1 ?q" "f64_sub 1 ?q \<le> 1"
    using f64_round_mono [of "1 - ?q" 1] by (simp_all add: f64_sub_def f64_round_nonneg)
  with assms(1) show "0 \<le> pm_error_rate pm" "pm_error_rate pm \<le> 1"
    by (auto simp: udp_get_metrics_def Let_def)
qed

lemma udp_error_rate_all_expired:
  assumes "udp_get_metrics m = Inr pm" "um_sessions_expired m = um_sessions_created m"
    "um_sessions_created m \<noteq> 0"
  shows "pm_error_rate pm = 1"
  using assms by (auto simp: udp_get_metrics_def Let_def f64_div_def f64_sub_def word_gt_0)


section \<open>Properties\<close>

text \<open>C5: Whatever the interleaving of packets, socket set-ups, sends, listener rounds, sweeps and the
end of the service, from the empty start on: the active-session counter is the number of created sessions minus that of expired
ones (as 64-bit words), and no reference dangles, from the session map and the listener tasks to the
sessions, from a packet being sent to its session, from a session and a pending set-up to its upstream.\<close>

theorem udp_reachable_consistent:
  assumes "dash_laws lib" "session_keys lib d = {}"
    and "lb_exec hasher strategy ops = (h, lb)"
    and "udp_reachable hasher lib config (udp_initial d h lb) y"
  shows "um_sessions_active (ud_metrics (sys_state y)) =
      um_sessions_created (ud_metrics (sys_state y)) - um_sessions_expired (ud_metrics (sys_state y)) \<and>
    (\<forall>a r. dm_get lib a (ud_sessions (sys_state y)) = Some r \<longrightarrow> r < length (ud_cells (sys_state y))) \<and>
    (\<forall>(a, r) \<in> set (ud_listeners (sys_state y)). r < length (ud_cells (sys_state y))) \<and>
    (\<forall>r < length (ud_cells (sys_state y)).
       us_upstream (ud_cells (sys_state y) ! r) < length (ud_heap (sys_state y))) \<and>
    (\<forall>(k, p) \<in> set (sys_pending y). p < length (ud_heap (sys_state y))) \<and>
    (\<forall>(k, r) \<in> set (sys_sending y). r < length (ud_cells (sys_state y)))"
proof -
  have "udp_inv hasher lib (udp_initial d h lb)"
    using udp_inv_initial [OF conjunct1 [OF lb_exec_wf [OF assms(3)]] assms(2)] .
  from udp_reachable_inv [OF assms(1,4) this] show ?thesis
    by (simp add: udp_inv_def udp_refs_ok_def counters_paired_def)
qed

text \<open>Run one at a time, packets and sweeps keep the active-session counter equal to the number of
sessions in the map; a packet's handler returns unless the client's session has expired.\<close>

theorem sequential_sessions_counted:
  assumes "dash_laws lib"
    and "um_sessions_active (ud_metrics s) = word_of_nat (card (session_keys lib (ud_sessions s)))"
  shows "(case handle_client_packet hasher lib config k s of
      Some (res, s1) \<Rightarrow>
        um_sessions_active (ud_metrics s1) = word_of_nat (card (session_keys lib (ud_sessions s1)))
    | None \<Rightarrow> \<exists>r. dm_get lib (pk_client_addr k) (ud_sessions s) = Some r \<and>
        is_expired (pk_now k) (session_timeout config) (ud_cells s ! r)) \<and>
    (let s1 = session_cleanup lib config now s
     in um_sessions_active (ud_metrics s1) = word_of_nat (card (session_keys lib (ud_sessions s1))))"
proof
  have s: "active_exact lib s" using assms(2) by (simp add: active_exact_def)
  show "let s1 = session_cleanup lib config now s
      in um_sessions_active (ud_metrics s1) = word_of_nat (card (session_keys lib (ud_sessions s1)))"
    using session_cleanup_exact [OF assms(1) s] by (simp add: active_exact_def Let_def)
  show "case handle_client_packet hasher lib config k s of
      Some (res, s1) \<Rightarrow>
        um_sessions_active (ud_metrics s1) = word_of_nat (card (session_keys lib (ud_sessions s1)))
    | None \<Rightarrow> \<exists>r. dm_get lib (pk_client_addr k) (ud_sessions s) = Some r \<and>
        is_expired (pk_now k) (session_timeout config) (ud_cells s ! r)"
  proof (cases "handle_client_packet hasher lib config k s")
    case None
    then show ?thesis
      using handle_packet_returns [of lib k s hasher config]
        handle_packet_existing [of lib k s _ config hasher]
      by (cases "dm_get lib (pk_client_addr k) (ud_sessions s)") auto
  next
    case (Some rs)
    then show ?thesis
      using handle_packet_exact [OF assms(1) s, of hasher config k "fst rs" "snd rs"]
      by (cases rs) (simp add: active_exact_def)
  qed
qed

text \<open>A sweep removes exactly the sessions that have expired and touches nothing else, but it
stops no listener task: the task of a removed session goes on waiting for its upstream.\<close>

theorem session_cleanup_removes_expired:
  assumes "dash_laws lib"
  shows "let s1 = session_cleanup lib config now s in
    dm_get lib a (ud_sessions s1) =
      (case dm_get lib a (ud_sessions s) of
         Some r \<Rightarrow> if is_expired now (session_timeout config) (ud_cells s ! r) then None else Some r
       | None \<Rightarrow> None) \<and>
    ud_listeners s1 = ud_listeners s \<and> ud_cells s1 = ud_cells s \<and> ud_heap s1 = ud_heap s"
  using session_cleanup_get [OF assms, of a config now s]
    cleanup_remove_frame [OF assms, of "cleanup_find lib config now s" s]
  by (simp add: Let_def session_cleanup_def)

text \<open>Two packets of a new client that are handled concurrently drive the active-session counter
two up and the map one up: the counter is wrong from then on.\<close>

lemma concurrent_packets_miscount:
  assumes "dash_laws lib" "pk_client_addr k2 = pk_client_addr k1" "sys_pending y = []"
    and "find_session hasher lib config k1 (on_metrics count_packet (sys_state y)) =
      Some (Inr (New_For p1), s1)"
    and "find_session hasher lib config k2 (on_metrics count_packet s1) =
      Some (Inr (New_For p2), s2)"
    and "create_session lib k1 p1 s2 = (Set_Up r1, s3)"
    and "create_session lib k2 p2 (on_session (touch (pk_touched k1)) r1 s3) = (Set_Up r2, s4)"
  shows "\<exists>y'. udp_reachable hasher lib config y y' \<and> sys_sending y' = (k2, r2) # (k1, r1) # sys_sending y \<and>
    um_sessions_active (ud_metrics (sys_state y')) = um_sessions_active (ud_metrics (sys_state y)) + 2 \<and>
    card (session_keys lib (ud_sessions (sys_state y'))) =
      card (session_keys lib (ud_sessions (sys_state y))) + 1"
  using udp_race_reachable [OF assms(1,4-7,2,3)]
  by (intro exI [of _ "accepted k2 r2 s4 (accepted k1 r1 s3 y)"]) simp

text \<open>The listener's own expiry test never succeeds: it comes right after the listener has marked
the session active, so unless more than the timeout passes in between, an answered session stays.\<close>

lemma listener_never_expires:
  assumes "r < length (ud_cells s)" "checked \<le> touched + session_timeout config"
  shows "let s1 = listener_step lib config addr r (Received n None touched checked) s
    in ud_sessions s1 = ud_sessions s \<and> ud_listeners s1 = ud_listeners s"
  using listener_step_never_expires [OF assms, of lib addr n] by (simp add: Let_def)


section \<open>Witnesses\<close>

text \<open>A session map that is an association list, with one shard per key.\<close>

definition list_dash :: "(socket_addr \<times> session_ref) list dash_lib" where
  "list_dash =
     \<lparr>dm_get = (\<lambda>k d. map_of d k), dm_insert = (\<lambda>k r d. (k, r) # d),
      dm_remove = (\<lambda>k d. (map_of d k, filter (\<lambda>e. fst e \<noteq> k) d)), dm_entries = AList.clearjunk,
      dm_clear = (\<lambda>d. []), dm_same_shard = (=)\<rparr>"

lemma list_dash_laws: "dash_laws list_dash"
proof -
  have "map_of (filter (\<lambda>e. fst e \<noteq> k) d) k' = (if k' = k then None else map_of d k')"
    for k k' :: socket_addr and d :: "(socket_addr \<times> session_ref) list"
    by (induction d) auto
  moreover have "(k, r) \<in> set (AList.clearjunk d) \<longleftrightarrow> map_of d k = Some r"
    for k r and d :: "(socket_addr \<times> session_ref) list"
    using map_of_eq_Some_iff [OF distinct_clearjunk, of d k r] by (simp add: map_of_clearjunk)
  ultimately show ?thesis by (simp add: dash_laws_def list_dash_def)
qed

definition test_udp_config :: udp_proxy_config where
  "test_udp_config =
     \<lparr>udp_buffer_size = 8192, udp_session_timeout_secs = 300, udp_connection_tracking = True\<rparr>"

definition test_client :: socket_addr where
  "test_client = V4 (Ipv4 10 0 0 1) 5000"

definition test_packet :: "instant \<Rightarrow> udp_packet" where
  "test_packet now =
     \<lparr>pk_client_addr = test_client, pk_data = [1, 2], pk_now = now, pk_bind = Inr 9,
      pk_connect = (\<lambda>a. None), pk_listen = None, pk_created = now, pk_touched = now,
      pk_send = (\<lambda>t bytes. Sent (length bytes)), pk_failed = now\<rparr>"

definition test_udp_state :: "(socket_addr \<times> session_ref) list udp_state" where
  "test_udp_state =
     \<lparr>ud_metrics = udp_metrics_default, ud_sessions = [], ud_cells = [], ud_listeners = [],
      ud_heap = test_heap, ud_balancer = test_balancer LeastConnections\<rparr>"

text \<open>One session that is in use since time 0, and its state after the given expired ones.\<close>

definition test_udp_session :: "(socket_addr \<times> session_ref) list udp_state" where
  "test_udp_session =
     test_udp_state\<lparr>ud_metrics := count_created udp_metrics_default, ud_sessions := [(test_client, 0)],
       ud_cells := [udp_session_new 0 0 9], ud_listeners := [(test_client, 0)]\<rparr>"

lemmas udp_test_defs =
  test_udp_config_def test_packet_def test_udp_state_def test_udp_session_def udp_session_new_def
  is_expired_def session_timeout_def

lemma test_keys: "session_keys list_dash [(test_client, r)] = {test_client}" "session_keys list_dash [] = {}"
  by (auto simp: session_keys_def list_dash_def)

lemma udp_reachable_consistent_witness:
  "case lb_exec (\<lambda>_. 0) RoundRobin [] of (h, lb) \<Rightarrow>
     \<exists>y. udp_reachable (\<lambda>_. 0) list_dash test_udp_config (udp_initial [] h lb) y \<and>
       um_packets_total (ud_metrics (sys_state y)) = 1 \<and>
       um_sessions_active (ud_metrics (sys_state y)) =
         um_sessions_created (ud_metrics (sys_state y)) - um_sessions_expired (ud_metrics (sys_state y))"
proof -
  obtain h lb where l: "lb_exec (\<lambda>_. 0) RoundRobin [] = (h, lb)" by fastforce
  let ?y = "udp_initial [] h lb :: (socket_addr \<times> session_ref) list udp_system"
  let ?s = "on_metrics count_packet (sys_state ?y)"
  have lb: "lb_upstreams lb = []" using l by (auto simp: lb_exec_def balancer_new_def)
  have "\<exists>e. find_session (\<lambda>_. 0) list_dash test_udp_config (test_packet 0) ?s = Some (Inl e, ?s)"
    by (simp add: find_session_def list_dash_def udp_initial_def select_upstream_def lb Let_def
        on_metrics_def)
  then obtain e where "find_session (\<lambda>_. 0) list_dash test_udp_config (test_packet 0) ?s = Some (Inl e, ?s)"
    by blast
  from packet_refused [OF this] have r: "udp_reachable (\<lambda>_. 0) list_dash test_udp_config ?y (?y\<lparr>sys_state := ?s\<rparr>)"
    unfolding udp_reachable_def by (rule r_into_rtranclp)
  from udp_reachable_consistent [OF list_dash_laws test_keys(2) l r] r show ?thesis
    unfolding l prod.case
    by (intro exI [of _ "?y\<lparr>sys_state := ?s\<rparr>"])
      (simp add: udp_initial_def count_packet_def udp_metrics_default_def)
qed

lemma sequential_sessions_counted_witness:
  "um_sessions_active (ud_metrics (session_cleanup list_dash test_udp_config 5 test_udp_session)) =
     word_of_nat (card (session_keys list_dash
       (ud_sessions (session_cleanup list_dash test_udp_config 5 test_udp_session))))"
proof -
  have "um_sessions_active (ud_metrics test_udp_session) =
      word_of_nat (card (session_keys list_dash (ud_sessions test_udp_session)))"
    by (simp add: udp_test_defs test_keys count_created_def udp_metrics_default_def)
  from sequential_sessions_counted [OF list_dash_laws this, where now = 5]
  show ?thesis by (simp add: Let_def)
qed

lemma session_cleanup_removes_expired_witness:
  "dm_get list_dash test_client
     (ud_sessions (session_cleanup list_dash test_udp_config (301 * 1000000000) test_udp_session)) = None"
  using session_cleanup_removes_expired [OF list_dash_laws, of test_udp_config "301 * 1000000000"
      test_udp_session test_client]
  by (simp add: Let_def list_dash_def udp_test_defs split: option.splits)

lemma test_address: "parse_address ''127.0.0.1:8080'' = Inr (V4 (Ipv4 127 0 0 1) 8080)"
proof -
  have "show_socket_addr (V4 (Ipv4 127 0 0 1) 8080) = ''127.0.0.1:8080''"
    by (simp add: show_word_def digit_char_def show_nat.simps [of 127] show_nat.simps [of 12]
        show_nat.simps [of 8080] show_nat.simps [of 808] show_nat.simps [of 80]
        show_nat.simps [of 8] show_nat.simps [of "Suc 0"] show_nat.simps [of 0]) code_simp
  then show ?thesis using parse_address_show_v4 [of "Ipv4 127 0 0 1" 8080] by (simp only:)
qed

lemma concurrent_packets_miscount_witness:
  "\<exists>y. udp_reachable (\<lambda>_. 0) list_dash test_udp_config
       \<lparr>sys_state = test_udp_state, sys_pending = [], sys_sending = [], sys_sweep = []\<rparr> y \<and>
     um_sessions_active (ud_metrics (sys_state y)) = 2 \<and>
     card (session_keys list_dash (ud_sessions (sys_state y))) = 1"
proof -
  let ?y = "\<lparr>sys_state = test_udp_state, sys_pending = [], sys_sending = [], sys_sweep = []\<rparr>"
  let ?k = "test_packet 0" and ?s1 = "on_metrics count_packet test_udp_state"
  let ?s2 = "on_metrics count_packet ?s1"
  have pick: "select_upstream (\<lambda>_. 0) test_heap key (test_balancer LeastConnections) =
      (Some 0, test_balancer LeastConnections)" for key
    by (simp add: select_upstream_def select_least_connections_def Let_def test_defs)
  have f: "find_session (\<lambda>_. 0) list_dash test_udp_config ?k s = Some (Inr (New_For 0), s)"
    if "ud_sessions s = []" "ud_heap s = test_heap" "ud_balancer s = test_balancer LeastConnections" for s
    using that pick by (simp add: find_session_def list_dash_def Let_def)
  have open_ok: "\<exists>sock. open_upstream_socket ?k (test_heap ! 0) = Inr sock"
    by (simp add: open_upstream_socket_def test_packet_def test_defs test_address)
  then have c: "\<exists>r s'. create_session list_dash ?k 0 s = (Set_Up r, s')" if "ud_heap s = test_heap"
    for s :: "(socket_addr \<times> session_ref) list udp_state"
    using that by (auto simp: create_session_def test_packet_def Let_def)
  obtain r1 s3 where c1: "create_session list_dash ?k 0 ?s2 = (Set_Up r1, s3)"
    using c [of ?s2] by (auto simp: test_udp_state_def)
  have "ud_heap s3 = test_heap"
    using create_session_cases [OF c1] by (auto simp: test_udp_state_def)
  then obtain r2 s4 where
    c2: "create_session list_dash ?k 0 (on_session (touch (pk_touched ?k)) r1 s3) = (Set_Up r2, s4)"
    using c [of "on_session (touch (pk_touched ?k)) r1 s3"] by auto
  have f1: "find_session (\<lambda>_. 0) list_dash test_udp_config ?k (on_metrics count_packet (sys_state ?y)) =
      Some (Inr (New_For 0), ?s1)"
    and f2: "find_session (\<lambda>_. 0) list_dash test_udp_config ?k (on_metrics count_packet ?s1) =
      Some (Inr (New_For 0), ?s2)"
    by (simp_all add: f test_udp_state_def)
  from concurrent_packets_miscount [OF list_dash_laws refl _ f1 f2 c1 c2]
  show ?thesis by (simp add: test_udp_state_def udp_metrics_default_def test_keys) blast
qed

end
