(* ===== verification/Proxy_Manager.thy ===== *)
theory Proxy_Manager
  imports Http_Proxy Tcp_Proxy Udp_Proxy
begin

text \<open>
  The proxy manager (\<open>ProxyManager\<close> in \<open>src/proxy.rs\<close>): dispatch over the three implementations,
  the collection of their metrics and health, and the shutdown broadcast. A \<open>HashMap\<close> is an
  association list in its iteration order; the broadcast channel (tokio) is an argument.
\<close>

section \<open>The broadcast channel\<close>

text \<open>
  \<open>ch_new\<close> is the channel after \<open>let (sender, _) = broadcast::channel(n)\<close>: the receiver is dropped.
  \<open>ch_send\<close> gives the text of the error if the message reaches nobody.
\<close>

record 'c channel_lib =
  ch_new :: 'c
  ch_subscribe :: "'c \<Rightarrow> 'c"
  ch_send :: "'c \<Rightarrow> string option \<times> 'c"

definition channel_laws :: "'c channel_lib \<Rightarrow> ('c \<Rightarrow> nat) \<Rightarrow> bool" where
  "channel_laws ch receivers \<longleftrightarrow>
     receivers (ch_new ch) = 0 \<and>
     (\<forall>c. receivers (ch_subscribe ch c) = receivers c + 1) \<and>
     (\<forall>c. fst (ch_send ch c) \<noteq> None \<longleftrightarrow> receivers c = 0) \<and>
     (\<forall>c. receivers (snd (ch_send ch c)) = receivers c)"

section \<open>The implementations\<close>

text \<open>A \<open>Box<dyn Proxy>\<close>, with the part of its state that the manager's queries read.\<close>

datatype proxy_impl = Http_Impl http_metrics | Tcp_Impl tcp_metrics | Udp_Impl udp_metrics

text \<open>The constructors: no request has been counted yet.\<close>

definition http_proxy_new :: proxy_impl where
  "http_proxy_new = Http_Impl http_metrics_default"

definition tcp_proxy_new :: proxy_impl where
  "tcp_proxy_new = Tcp_Impl tcp_metrics_default"

definition udp_proxy_new :: proxy_impl where
  "udp_proxy_new = Udp_Impl udp_metrics_default"

lemmas proxy_new_defs [simp] = http_proxy_new_def tcp_proxy_new_def udp_proxy_new_def

fun impl_type :: "proxy_impl \<Rightarrow> proxy_type" where
  "impl_type (Http_Impl _) = Http"
| "impl_type (Tcp_Impl _) = Tcp"
| "impl_type (Udp_Impl _) = Udp"

fun impl_validate :: "'h http_lib \<Rightarrow> proxy_impl \<Rightarrow> proxy_instance_config \<Rightarrow> unit result" where
  "impl_validate lib (Http_Impl _) config = http_validate_config lib config"
| "impl_validate lib (Tcp_Impl _) config = tcp_validate_config config"
| "impl_validate lib (Udp_Impl _) config = udp_validate_config config"

fun impl_metrics :: "proxy_impl \<Rightarrow> proxy_metrics result" where
  "impl_metrics (Http_Impl m) = http_get_metrics m"
| "impl_metrics (Tcp_Impl m) = tcp_get_metrics m"
| "impl_metrics (Udp_Impl m) = udp_get_metrics m"

fun impl_health :: "proxy_impl \<Rightarrow> proxy_health result" where
  "impl_health (Http_Impl m) = http_health_check m"
| "impl_health (Tcp_Impl m) = tcp_health_check m"
| "impl_health (Udp_Impl m) = udp_health_check m"

section \<open>The manager\<close>

record 'c proxy_manager =
  pmg_proxies :: "(proxy_type \<times> proxy_impl) list"
  pmg_shutdown :: 'c

definition proxy_manager_new :: "'c channel_lib \<Rightarrow> 'c proxy_manager" where
  "proxy_manager_new ch =
     \<lparr>pmg_proxies = [(Http, http_proxy_new), (Tcp, tcp_proxy_new), (Udp, udp_proxy_new)],
      pmg_shutdown = ch_new ch\<rparr>"

definition show_proxy_type :: "proxy_type \<Rightarrow> string" where
  "show_proxy_type t = (case t of Http \<Rightarrow> ''Http'' | Tcp \<Rightarrow> ''Tcp'' | Udp \<Rightarrow> ''Udp'')"

definition find_proxy :: "'c proxy_manager \<Rightarrow> proxy_instance_config \<Rightarrow> proxy_impl result" where
  "find_proxy mgr config =
     (case map_of (pmg_proxies mgr) (inst_proxy_type config) of
        Some p \<Rightarrow> Inr p
      | None \<Rightarrow> Inl (err_config
          (''Unsupported proxy type: '' @ show_proxy_type (inst_proxy_type config))))"

text \<open>
  \<open>start_proxy\<close> up to the call of the implementation's \<open>start\<close>: the implementation and the manager
  with one more subscriber.
\<close>

definition prepare_proxy ::
  "'h http_lib \<Rightarrow> 'c channel_lib \<Rightarrow> proxy_instance_config \<Rightarrow> 'c proxy_manager \<Rightarrow>
   (proxy_impl \<times> 'c proxy_manager) result" where
  "prepare_proxy lib ch config mgr =
     res_bind (find_proxy mgr config) (\<lambda>proxy.
     res_bind (impl_validate lib proxy config) (\<lambda>_.
     Inr (proxy, mgr\<lparr>pmg_shutdown := ch_subscribe ch (pmg_shutdown mgr)\<rparr>)))"

definition manager_validate_config ::
  "'h http_lib \<Rightarrow> 'c proxy_manager \<Rightarrow> proxy_instance_config \<Rightarrow> unit result" where
  "manager_validate_config lib mgr config =
     res_bind (find_proxy mgr config) (\<lambda>proxy. impl_validate lib proxy config)"

fun collect_metrics :: "(proxy_type \<times> proxy_impl) list \<Rightarrow> (proxy_type \<times> proxy_metrics) list" where
  "collect_metrics [] = []"
| "collect_metrics ((t, p) # ps) =
     (case impl_metrics p of
        Inr m \<Rightarrow> (t, m) # collect_metrics ps
      | Inl e \<Rightarrow> collect_metrics ps)"

fun collect_health :: "(proxy_type \<times> proxy_impl) list \<Rightarrow> (proxy_type \<times> proxy_health) list" where
  "collect_health [] = []"
| "collect_health ((t, p) # ps) =
     (case impl_health p of
        Inr h \<Rightarrow> (t, h) # collect_health ps
      | Inl e \<Rightarrow>
          (t, \<lparr>ph_status = Unhealthy, ph_message = ''Health check failed: '' @ show_error e\<rparr>) #
          collect_health ps)"

definition get_all_metrics ::
  "'c proxy_manager \<Rightarrow> (proxy_type \<times> proxy_metrics) list result" where
  "get_all_metrics mgr = Inr (collect_metrics (pmg_proxies mgr))"

definition health_check_all ::
  "'c proxy_manager \<Rightarrow> (proxy_type \<times> proxy_health) list result" where
  "health_check_all mgr = Inr (collect_health (pmg_proxies mgr))"

text \<open>A failed send is only logged.\<close>

definition manager_shutdown :: "'c channel_lib \<Rightarrow> 'c proxy_manager \<Rightarrow> unit result \<times> 'c proxy_manager" where
  "manager_shutdown ch mgr =
     (Inr (), mgr\<lparr>pmg_shutdown := snd (ch_send ch (pmg_shutdown mgr))\<rparr>)"

definition supported_proxy_types :: "'c proxy_manager \<Rightarrow> proxy_type list" where
  "supported_proxy_types mgr = map fst (pmg_proxies mgr)"

section \<open>Lemmas\<close>

text \<open>Every entry is registered under its own type; \<open>manager_wf\<close> holds of a new manager and stays.\<close>

definition manager_wf :: "'c proxy_manager \<Rightarrow> bool" where
  "manager_wf mgr \<longleftrightarrow>
     distinct (map fst (pmg_proxies mgr)) \<and> set (map fst (pmg_proxies mgr)) = {Http, Tcp, Udp} \<and>
     (\<forall>(t, p) \<in> set (pmg_proxies mgr). impl_type p = t)"

lemma proxy_manager_new_wf: "manager_wf (proxy_manager_new ch)"
  by (auto simp: manager_wf_def proxy_manager_new_def)

lemma impl_validate_type:
  "impl_validate lib p config = Inr () \<Longrightarrow> inst_proxy_type config = impl_type p"
  by (cases p) (auto dest: http.validate_type tcp.validate_type udp.validate_type)

lemma impl_validate_error: "impl_validate lib p config = Inl e \<Longrightarrow> is_config e"
  by (cases p) (auto dest: http.validate_error tcp.validate_error udp.validate_error)

lemma impl_metrics_ok: "\<exists>m. impl_metrics p = Inr m"
  by (cases p) (simp_all add: http.metrics_ok tcp.metrics_ok udp.metrics_ok)

lemma impl_health_ok: "\<exists>h. impl_health p = Inr h"
  by (cases p) (simp_all add: http.health_ok tcp.health_ok udp.health_ok)

lemma find_proxy_wf:
  assumes "manager_wf mgr"
  shows "\<exists>p. find_proxy mgr config = Inr p \<and> impl_type p = inst_proxy_type config"
proof -
  have "inst_proxy_type config \<in> set (map fst (pmg_proxies mgr))"
    using assms by (cases "inst_proxy_type config") (simp_all add: manager_wf_def)
  then obtain p where p: "map_of (pmg_proxies mgr) (inst_proxy_type config) = Some p"
    by (metis list.set_map map_of_eq_None_iff not_None_eq)
  then have "(inst_proxy_type config, p) \<in> set (pmg_proxies mgr)" by (rule map_of_SomeD)
  with assms p show ?thesis by (auto simp: manager_wf_def find_proxy_def)
qed

definition valid_instance_for :: "'h http_lib \<Rightarrow> proxy_instance_config \<Rightarrow> bool" where
  "valid_instance_for lib config =
     (case inst_proxy_type config of
        Http \<Rightarrow> valid_http_instance lib config
      | Tcp \<Rightarrow> valid_tcp_instance config
      | Udp \<Rightarrow> valid_udp_instance config)"

lemma manager_validate_config_ok:
  assumes "manager_wf mgr"
  shows "manager_validate_config lib mgr config = Inr () \<longleftrightarrow> valid_instance_for lib config"
proof -
  obtain p where p: "find_proxy mgr config = Inr p" "impl_type p = inst_proxy_type config"
    using find_proxy_wf [OF assms] by blast
  then show ?thesis
    by (cases p) (simp_all add: manager_validate_config_def valid_instance_for_def p(2) [symmetric]
        http_validate_config_ok tcp_validate_config_ok udp_validate_config_ok)
qed

lemma prepare_proxy_ok:
  assumes "manager_wf mgr"
  shows "is_ok (prepare_proxy lib ch config mgr) \<longleftrightarrow> valid_instance_for lib config"
proof -
  obtain p where p: "find_proxy mgr config = Inr p" using find_proxy_wf [OF assms] by blast
  have "is_ok (prepare_proxy lib ch config mgr) \<longleftrightarrow> impl_validate lib p config = Inr ()"
    by (cases "impl_validate lib p config") (simp_all add: prepare_proxy_def p)
  then show ?thesis
    using manager_validate_config_ok [OF assms, of lib config]
    by (simp add: manager_validate_config_def p)
qed

lemma prepare_proxy_error:
  "manager_wf mgr \<Longrightarrow> prepare_proxy lib ch config mgr = Inl e \<Longrightarrow> is_config e"
  using find_proxy_wf [of mgr config]
  by (auto simp: prepare_proxy_def res_simps dest: impl_validate_error)

lemma collect_metrics_keys: "map fst (collect_metrics ps) = map fst ps"
proof (induction ps)
  case (Cons a ps)
  obtain t p where "a = (t, p)" by fastforce
  with Cons impl_metrics_ok [of p] show ?case by auto
qed simp

lemma collect_health_keys: "map fst (collect_health ps) = map fst ps"
proof (induction ps)
  case (Cons a ps)
  obtain t p where "a = (t, p)" by fastforce
  with Cons impl_health_ok [of p] show ?case by auto
qed simp

lemma map_of_collect_metrics:
  "map_of (collect_metrics ps) t =
     (case map_of ps t of None \<Rightarrow> None | Some p \<Rightarrow> (case impl_metrics p of Inr m \<Rightarrow> Some m | Inl _ \<Rightarrow> None))"
proof (induction ps)
  case (Cons a ps)
  obtain t' p where "a = (t', p)" by fastforce
  with Cons impl_metrics_ok [of p] show ?case by (auto split: option.splits)
qed simp

text \<open>A proxy without load is not healthy over HTTP, and healthy over TCP and UDP.\<close>

lemma health_check_all_new:
  "\<exists>m1 m2 m3. health_check_all (proxy_manager_new ch) =
     Inr [(Http, \<lparr>ph_status = Unknown, ph_message = m1\<rparr>), (Tcp, \<lparr>ph_status = Healthy, ph_message = m2\<rparr>),
          (Udp, \<lparr>ph_status = Healthy, ph_message = m3\<rparr>)]"
  by (simp add: health_check_all_def proxy_manager_new_def http_health_check_def tcp_health_check_def
      udp_health_check_def http_metrics_default_def tcp_metrics_default_def udp_metrics_default_def
      Let_def)

lemma manager_wf_shutdown [simp]: "manager_wf (mgr\<lparr>pmg_shutdown := c\<rparr>) = manager_wf mgr"
  by (simp add: manager_wf_def)

lemma manager_shutdown_wf: "manager_wf mgr \<Longrightarrow> manager_wf (snd (manager_shutdown ch mgr))"
  by (simp add: manager_shutdown_def)

lemma prepare_proxy_wf:
  "manager_wf mgr \<Longrightarrow> prepare_proxy lib ch config mgr = Inr (p, mgr') \<Longrightarrow>
     manager_wf mgr' \<and> pmg_shutdown mgr' = ch_subscribe ch (pmg_shutdown mgr)"
  by (auto simp: prepare_proxy_def res_simps)


section \<open>Properties\<close>

text \<open>C30: A fresh manager accepts an instance exactly if the limits of the instance's own proxy type
hold (sizes, timeouts and header names for HTTP, buffer and keep-alive for TCP, buffer and session
timeout for UDP), and starts it exactly then; every rejection is a configuration error.\<close>

theorem manager_validation_exact:
  "(case manager_validate_config lib (proxy_manager_new ch) config of
      Inr _ \<Rightarrow> valid_instance_for lib config
    | Inl e \<Rightarrow> \<not> valid_instance_for lib config \<and> is_config e) \<and>
   (case prepare_proxy lib ch config (proxy_manager_new ch) of
      Inr (p, mgr) \<Rightarrow> valid_instance_for lib config \<and> impl_type p = inst_proxy_type config
    | Inl e \<Rightarrow> \<not> valid_instance_for lib config \<and> is_config e)"
proof -
  let ?mgr = "proxy_manager_new ch"
  obtain p where p: "find_proxy ?mgr config = Inr p" "impl_type p = inst_proxy_type config"
    using find_proxy_wf [OF proxy_manager_new_wf] by blast
  have valid: "impl_validate lib p config = Inr () \<longleftrightarrow> valid_instance_for lib config"
    using manager_validate_config_ok [OF proxy_manager_new_wf, of lib ch config]
    by (simp add: manager_validate_config_def p(1))
  show ?thesis
  proof (cases "impl_validate lib p config")
    case (Inl e)
    with impl_validate_error [OF Inl] valid show ?thesis
      by (simp add: manager_validate_config_def prepare_proxy_def p(1))
  next
    case (Inr u)
    with valid show ?thesis by (simp add: manager_validate_config_def prepare_proxy_def p)
  qed
qed

end
