(* ===== verification/Proxy_Start.thy ===== *)
theory Proxy_Start
  imports Proxy_Manager
begin

text \<open>
  The service loops: \<open>start\<close> of the three proxies (\<open>src/proxy/http.rs\<close>, \<open>src/proxy/tcp.rs\<close>,
  \<open>src/proxy/udp.rs\<close>) and \<open>start_proxy\<close> of the manager (\<open>src/proxy.rs\<close>), which awaits them. Binding an
  address is an argument, the text of its error or \<open>None\<close>; so is hyper's server.
\<close>

section \<open>Serving\<close>

text \<open>
  What the loop of a proxy waits for, in the order in which its \<open>select!\<close> sees it: a connection or a
  datagram, an error of the listening socket, the message of the manager's shutdown channel.
\<close>

datatype 'e serve_event = Incoming 'e | Incoming_Failed string | Stop_Received

text \<open>
  How a call of \<open>start\<close> stands: still serving, returned, or panicked because \<open>Server::bind\<close> of hyper
  panics when it cannot bind.
\<close>

datatype start_outcome = Serving | Returned "unit result" | Bind_Panic

text \<open>The loop: a task for everything that comes in, errors are logged, the message ends it.\<close>

fun accept_loop :: "'e serve_event list \<Rightarrow> 'e list \<times> start_outcome" where
  "accept_loop [] = ([], Serving)"
| "accept_loop (Incoming e # es) = (let (spawned, r) = accept_loop es in (e # spawned, r))"
| "accept_loop (Incoming_Failed text # es) = accept_loop es"
| "accept_loop (Stop_Received # es) = ([], Returned (Inr ()))"

definition tcp_start ::
  "(socket_addr \<Rightarrow> string option) \<Rightarrow> proxy_instance_config \<Rightarrow> 'e serve_event list \<Rightarrow>
   'e list \<times> start_outcome" where
  "tcp_start bind config events =
     (let addr = inst_listen_addr config in
      case bind addr of
        Some e \<Rightarrow>
          ([], Returned (Inl (err_network (''Failed to bind to '' @ show_socket_addr addr @ '': '' @ e)
                 ConnectionFailed)))
      | None \<Rightarrow> accept_loop events)"

definition udp_serve ::
  "(socket_addr \<Rightarrow> string option) \<Rightarrow> proxy_instance_config \<Rightarrow> 'e serve_event list \<Rightarrow>
   'e list \<times> start_outcome" where
  "udp_serve bind config events =
     (let addr = inst_listen_addr config in
      case bind addr of
        Some e \<Rightarrow>
          ([], Returned (Inl (err_network
                 (''Failed to bind UDP socket to '' @ show_socket_addr addr @ '': '' @ e)
                 ConnectionFailed)))
      | None \<Rightarrow> accept_loop events)"

text \<open>
  A datagram is read into a buffer of \<open>buffer_size\<close> bytes; the socket discards what does not fit.
\<close>

definition udp_receive :: "udp_proxy_config \<Rightarrow> udp_packet \<Rightarrow> udp_packet" where
  "udp_receive config k = k\<lparr>pk_data := take (unat (udp_buffer_size config)) (pk_data k)\<rparr>"

text \<open>\<open>start\<close>: the datagrams handed to tasks, and after the message the sessions are cleared.\<close>

definition udp_start ::
  "'d dash_lib \<Rightarrow> (socket_addr \<Rightarrow> string option) \<Rightarrow> proxy_instance_config \<Rightarrow>
   udp_packet serve_event list \<Rightarrow> 'd udp_state \<Rightarrow> udp_packet list \<times> start_outcome \<times> 'd udp_state" where
  "udp_start lib bind config events s =
     (let (received, outcome) = udp_serve bind config events
      in (map (udp_receive (ps_udp (inst_config config))) received, outcome,
          if outcome = Returned (Inr ()) then udp_shutdown lib s else s))"

text \<open>
  hyper's server as a function of what has happened: \<open>None\<close> while it runs, then its result. Its
  documentation promises that a server with graceful shutdown ends well only after the signal.
\<close>

type_synonym 'e hyper_server = "'e serve_event list \<Rightarrow> string option option"

definition graceful :: "'e hyper_server \<Rightarrow> bool" where
  "graceful hyper \<longleftrightarrow> (\<forall>events. hyper events = Some None \<longrightarrow> Stop_Received \<in> set events)"

definition hyper_start ::
  "string \<Rightarrow> 'e hyper_server \<Rightarrow> (socket_addr \<Rightarrow> string option) \<Rightarrow> socket_addr \<Rightarrow>
   'e serve_event list \<Rightarrow> start_outcome" where
  "hyper_start label hyper bind addr events =
     (case bind addr of
        Some e \<Rightarrow> Bind_Panic
      | None \<Rightarrow>
          (case hyper events of
             None \<Rightarrow> Serving
           | Some None \<Rightarrow> Returned (Inr ())
           | Some (Some e) \<Rightarrow> Returned (Inl (err_internal (label @ e)))))"

definition http_start ::
  "'e hyper_server \<Rightarrow> (socket_addr \<Rightarrow> string option) \<Rightarrow> proxy_instance_config \<Rightarrow>
   'e serve_event list \<Rightarrow> start_outcome" where
  "http_start hyper bind config events =
     hyper_start ''HTTP proxy server error: '' hyper bind (inst_listen_addr config) events"

fun impl_start ::
  "'e hyper_server \<Rightarrow> (socket_addr \<Rightarrow> string option) \<Rightarrow> proxy_impl \<Rightarrow> proxy_instance_config \<Rightarrow>
   'e serve_event list \<Rightarrow> start_outcome" where
  "impl_start hyper bind (Http_Impl _) config events = http_start hyper bind config events"
| "impl_start hyper bind (Tcp_Impl _) config events = snd (tcp_start bind config events)"
| "impl_start hyper bind (Udp_Impl _) config events = snd (udp_serve bind config events)"

text \<open>The manager: what \<open>start_proxy\<close> has come to after the given events.\<close>

definition start_proxy ::
  "'h http_lib \<Rightarrow> 'c channel_lib \<Rightarrow> 'e hyper_server \<Rightarrow> (socket_addr \<Rightarrow> string option) \<Rightarrow>
   proxy_instance_config \<Rightarrow> 'e serve_event list \<Rightarrow> 'c proxy_manager \<Rightarrow>
   start_outcome \<times> 'c proxy_manager" where
  "start_proxy lib ch hyper bind config events mgr =
     (case prepare_proxy lib ch config mgr of
        Inl e \<Rightarrow> (Returned (Inl e), mgr)
      | Inr (p, mgr) \<Rightarrow> (impl_start hyper bind p config events, mgr))"

section \<open>The contract of \<open>start\<close>\<close>

text \<open>
  \<open>start\<close> binds first; it returns without an error only after the message, and once it has returned
  it stays so.
\<close>

locale service =
  fixes start :: "(socket_addr \<Rightarrow> string option) \<Rightarrow> proxy_instance_config \<Rightarrow> 'e serve_event list \<Rightarrow>
      start_outcome"
    and lawful :: bool
  assumes ok_after_stop:
      "lawful \<Longrightarrow> start bind c es = Returned (Inr ()) \<Longrightarrow> Stop_Received \<in> set es"
    and unbound: "bind (inst_listen_addr c) = Some e \<Longrightarrow>
      start bind c es = Bind_Panic \<or> (\<exists>err. start bind c es = Returned (Inl err))"
    and bound: "bind (inst_listen_addr c) = None \<Longrightarrow> start bind c es \<noteq> Bind_Panic"
begin

lemma returned_ok:
  assumes lawful "start bind c es = Returned (Inr ())"
  shows "Stop_Received \<in> set es \<and> bind (inst_listen_addr c) = None"
proof -
  have "bind (inst_listen_addr c) \<noteq> Some e" for e
    using unbound [of bind c e es] assms(2) by auto
  then show ?thesis using ok_after_stop [OF assms] by (cases "bind (inst_listen_addr c)") blast+
qed

end

lemma accept_loop_outcome:
  "snd (accept_loop es) = (if Stop_Received \<in> set es then Returned (Inr ()) else Serving)"
  by (induction es rule: accept_loop.induct) (auto simp: Let_def split: prod.splits)

text \<open>What came in, in order.\<close>

definition incoming :: "'e serve_event list \<Rightarrow> 'e list" where
  "incoming es = concat (map (\<lambda>e. case e of Incoming x \<Rightarrow> [x] | _ \<Rightarrow> []) es)"

lemma incoming_simps [simp]:
  "incoming [] = []" "incoming (Incoming x # es) = x # incoming es"
  "incoming (Incoming_Failed e # es) = incoming es" "incoming (Stop_Received # es) = incoming es"
  by (simp_all add: incoming_def)

lemma accept_loop_spawned:
  "fst (accept_loop es) = incoming (takeWhile (\<lambda>e. e \<noteq> Stop_Received) es)"
  by (induction es rule: accept_loop.induct) (auto simp: Let_def split: prod.splits)

interpretation tcp_service: service "\<lambda>bind c es. snd (tcp_start bind c es)" True
  by unfold_locales (auto simp: tcp_start_def accept_loop_outcome Let_def split: if_splits option.splits)

interpretation udp_service: service "\<lambda>bind c es. snd (udp_serve bind c es)" True
  by unfold_locales (auto simp: udp_serve_def accept_loop_outcome Let_def split: if_splits option.splits)

interpretation http_service: service "http_start hyper" "graceful hyper" for hyper
  by unfold_locales (auto simp: http_start_def hyper_start_def graceful_def split: option.splits)

lemma impl_start_ok:
  "graceful hyper \<Longrightarrow> impl_start hyper bind p c es = Returned (Inr ()) \<Longrightarrow>
     Stop_Received \<in> set es \<and> bind (inst_listen_addr c) = None"
  using tcp_service.returned_ok udp_service.returned_ok http_service.returned_ok
  by (cases p) (simp_all, blast+)

lemma impl_start_panic:
  "impl_start hyper bind p c es = Bind_Panic \<longleftrightarrow>
     impl_type p = Http \<and> bind (inst_listen_addr c) \<noteq> None"
  by (cases p) (auto simp: tcp_start_def udp_serve_def http_start_def hyper_start_def
      accept_loop_outcome Let_def split: option.splits)

lemma impl_start_error:
  "impl_start hyper bind p c es = Returned (Inl e) \<Longrightarrow>
     (if impl_type p = Http then bind (inst_listen_addr c) = None
      else bind (inst_listen_addr c) \<noteq> None \<and> is_network e)"
  by (cases p) (auto simp: tcp_start_def udp_serve_def http_start_def hyper_start_def
      accept_loop_outcome error_constructors error_predicates Let_def split: option.splits if_splits)

section \<open>Properties\<close>

text \<open>The manager's start of a proxy returns without an error only after a shutdown message, with the
address bound and the configuration valid: whoever awaits it is held for the whole service.\<close>

theorem start_proxy_holds_its_caller:
  assumes "graceful hyper"
    and "start_proxy lib ch hyper bind config events mgr = (Returned (Inr ()), mgr')"
  shows "Stop_Received \<in> set events \<and> bind (inst_listen_addr config) = None \<and>
    manager_validate_config lib mgr config = Inr ()"
proof -
  obtain p where p: "prepare_proxy lib ch config mgr = Inr (p, mgr')"
    "impl_start hyper bind p config events = Returned (Inr ())"
    using assms(2) by (auto simp: start_proxy_def split: sum.splits prod.splits)
  then have "manager_validate_config lib mgr config = Inr ()"
    by (auto simp: prepare_proxy_def manager_validate_config_def res_simps)
  with impl_start_ok [OF assms(1) p(2)] show ?thesis by simp
qed

text \<open>The accept loop of the TCP proxy serves exactly the connections that come in before the
shutdown message, in order; errors of the listening socket neither end it nor lose a connection.\<close>

theorem tcp_start_serves_until_stop:
  assumes "bind (inst_listen_addr config) = None"
  shows "tcp_start bind config events =
    (incoming (takeWhile (\<lambda>e. e \<noteq> Stop_Received) events),
     if Stop_Received \<in> set events then Returned (Inr ()) else Serving)"
  using assms accept_loop_spawned [of events] accept_loop_outcome [of events]
  by (simp add: tcp_start_def prod_eq_iff)

text \<open>C38: The UDP loop hands every datagram that comes in before the shutdown message to a task, cut
to the configured buffer size; at the message it forgets every session but does not take them off the gauge
of active sessions.\<close>

theorem udp_start_cuts_and_forgets:
  assumes "dash_laws lib" "bind (inst_listen_addr config) = None"
  shows "case udp_start lib bind config events s of (spawned, outcome, s') \<Rightarrow>
    map pk_client_addr spawned =
      map pk_client_addr (incoming (takeWhile (\<lambda>e. e \<noteq> Stop_Received) events)) \<and>
    map pk_data spawned =
      map (take (unat (udp_buffer_size (ps_udp (inst_config config)))) \<circ> pk_data)
        (incoming (takeWhile (\<lambda>e. e \<noteq> Stop_Received) events)) \<and>
    um_sessions_active (ud_metrics s') = um_sessions_active (ud_metrics s) \<and>
    (if Stop_Received \<in> set events
     then outcome = Returned (Inr ()) \<and> session_keys lib (ud_sessions s') = {}
     else outcome = Serving \<and> s' = s)"
proof -
  have "udp_serve bind config events = accept_loop events"
    using assms(2) by (simp add: udp_serve_def)
  moreover obtain received outcome where "accept_loop events = (received, outcome)" by fastforce
  ultimately show ?thesis
    using accept_loop_spawned [of events] accept_loop_outcome [of events] udp_shutdown_counters [OF assms(1), of s]
    by (simp add: udp_start_def udp_receive_def)
qed

section \<open>Witnesses\<close>

text \<open>A server that ends well at the message, and an instance that is stopped.\<close>

definition stop_server :: "'e hyper_server" where
  "stop_server events = (if list_ex (\<lambda>e. case e of Stop_Received \<Rightarrow> True | _ \<Rightarrow> False) events
     then Some None else None)"

lemma stop_server_graceful: "graceful stop_server"
  by (auto simp: graceful_def stop_server_def list_ex_iff split: serve_event.splits if_splits)

text \<open>A channel that is its number of receivers, and a TCP instance with one upstream.\<close>

definition count_channel :: "nat channel_lib" where
  "count_channel =
     \<lparr>ch_new = 0, ch_subscribe = Suc,
      ch_send = (\<lambda>c. (if c = 0 then Some ''channel closed'' else None, c))\<rparr>"

lemma count_channel_laws: "channel_laws count_channel id"
  by (simp add: channel_laws_def count_channel_def)

definition test_instance :: proxy_instance_config where
  "test_instance =
     \<lparr>inst_name = ''db'', inst_proxy_type = Tcp, inst_listen_addr = any_addr 5432,
      inst_upstreams = [test_upstream ''a'' 1], inst_config = proxy_specific_config_default\<rparr>"

lemma test_instance_valid: "valid_instance_for lib test_instance"
  by (simp add: valid_instance_for_def valid_tcp_instance_def test_instance_def
      proxy_specific_config_default_def tcp_proxy_config_default_def default_tcp_buffer_size_def Let_def)

lemma test_instance_prepared:
  assumes "manager_wf mgr"
  shows "\<exists>p mgr'. prepare_proxy lib ch test_instance mgr = Inr (p, mgr') \<and> impl_type p = Tcp"
proof -
  have "is_ok (prepare_proxy lib ch test_instance mgr)"
    using prepare_proxy_ok [OF assms] test_instance_valid by blast
  then obtain p mgr' where p: "prepare_proxy lib ch test_instance mgr = Inr (p, mgr')"
    by (cases "prepare_proxy lib ch test_instance mgr") auto
  then have "impl_validate lib p test_instance = Inr ()" by (auto simp: prepare_proxy_def res_simps)
  from impl_validate_type [OF this] p show ?thesis by (simp add: test_instance_def)
qed

lemma start_proxy_holds_its_caller_witness:
  "\<exists>mgr'. start_proxy map_http_lib count_channel stop_server (\<lambda>_. None) test_instance
       [Incoming 7, Stop_Received] (proxy_manager_new count_channel) = (Returned (Inr ()), mgr') \<and>
     manager_validate_config map_http_lib (proxy_manager_new count_channel) test_instance = Inr ()"
proof -
  obtain p mgr' where p: "prepare_proxy map_http_lib count_channel test_instance
      (proxy_manager_new count_channel) = Inr (p, mgr')" "impl_type p = Tcp"
    using test_instance_prepared [OF proxy_manager_new_wf] by blast
  then have "start_proxy map_http_lib count_channel stop_server (\<lambda>_. None) test_instance
      [Incoming 7, Stop_Received] (proxy_manager_new count_channel) = (Returned (Inr ()), mgr')"
    by (cases p) (simp_all add: start_proxy_def tcp_start_def)
  with start_proxy_holds_its_caller [OF stop_server_graceful this] show ?thesis by blast
qed

lemma tcp_start_serves_until_stop_witness:
  "fst (tcp_start (\<lambda>_. None) test_instance
     [Incoming ''a'', Incoming_Failed ''reset'', Incoming ''b'', Stop_Received, Incoming ''c'']) =
   [''a'', ''b'']"
  by (simp add: tcp_start_serves_until_stop)

definition test_udp_instance :: proxy_instance_config where
  "test_udp_instance = test_instance\<lparr>inst_proxy_type := Udp, inst_config := proxy_specific_config_default
     \<lparr>ps_udp := test_udp_config\<lparr>udp_buffer_size := 2\<rparr>\<rparr>\<rparr>"

lemma udp_start_cuts_and_forgets_witness:
  "\<exists>spawned s'. udp_start list_dash (\<lambda>_. None) test_udp_instance
       [Incoming ((test_packet 0)\<lparr>pk_data := [1, 2, 3, 4]\<rparr>), Stop_Received] test_udp_session =
       (spawned, Returned (Inr ()), s') \<and>
     map pk_data spawned = [[1, 2]] \<and> session_keys list_dash (ud_sessions s') = {} \<and>
     um_sessions_active (ud_metrics s') = um_sessions_active (ud_metrics test_udp_session)"
proof -
  let ?events = "[Incoming ((test_packet 0)\<lparr>pk_data := [1, 2, 3, 4]\<rparr>), Stop_Received]"
  obtain spawned outcome s' where
    "udp_start list_dash (\<lambda>_. None) test_udp_instance ?events test_udp_session = (spawned, outcome, s')"
    by (metis surj_pair)
  with udp_start_cuts_and_forgets [OF list_dash_laws, of "\<lambda>_. None" test_udp_instance ?events test_udp_session]
  show ?thesis by (simp add: test_udp_instance_def)
qed

end
