(* ===== verification/Metrics.thy ===== *)
theory Metrics
  imports Proxy_Start "HOL-Library.AList"
begin

text \<open>
  The metrics registry and its HTTP server (\<open>src/metrics.rs\<close>): the counters, the summary, the
  system health, the Prometheus text and the request handler. The registry's maps are association
  lists in iteration order; \<open>AList.update\<close> is \<open>insert\<close>. The \<open>Display\<close> of an \<open>f64\<close> and the JSON
  writer (serde) are arguments, and so is the wall clock.
\<close>

section \<open>Data\<close>

record memory_usage =
  mem_rss_bytes :: u64
  mem_vsize_bytes :: u64
  mem_heap_bytes :: u64
  mem_buffer_pool_bytes :: u64

definition memory_usage_default :: memory_usage where
  "memory_usage_default =
     \<lparr>mem_rss_bytes = 0, mem_vsize_bytes = 0, mem_heap_bytes = 0, mem_buffer_pool_bytes = 0\<rparr>"

record metrics_registry =
  mr_proxy_instances_total :: usize
  mr_upstreams_total :: usize
  mr_memory_usage :: memory_usage
  mr_uptime_seconds :: u64
  mr_config_reloads :: u64
  mr_proxy_metrics :: "(string \<times> proxy_metrics) list"
  mr_upstream_metrics :: "(string \<times> arc) list"
  mr_start_time :: instant

record system_health =
  sh_status :: health_state
  sh_uptime_seconds :: u64
  sh_healthy_proxies :: usize
  sh_unhealthy_proxies :: usize
  sh_healthy_upstreams :: usize
  sh_unhealthy_upstreams :: usize
  sh_timestamp :: u64
  sh_message :: string

record system_metrics_snapshot =
  sm_proxy_instances_total :: usize
  sm_upstreams_total :: usize
  sm_uptime_seconds :: u64
  sm_config_reloads :: u64
  sm_memory_usage :: memory_usage

record upstream_metrics_snapshot =
  us_name :: string
  us_health_state :: health_state
  us_requests_sent :: u64
  us_responses_received :: u64
  us_failures :: u64
  us_active_connections :: usize
  us_avg_response_time_ms :: f64
  us_success_rate :: f64
  us_health_score :: f64

record metrics_summary =
  ms_system :: system_metrics_snapshot
  ms_proxies :: "(string \<times> proxy_metrics) list"
  ms_upstreams :: "(string \<times> upstream_metrics_snapshot) list"
  ms_timestamp :: u64

section \<open>The registry\<close>

definition registry_new :: "instant \<Rightarrow> metrics_registry" where
  "registry_new now =
     \<lparr>mr_proxy_instances_total = 0, mr_upstreams_total = 0, mr_memory_usage = memory_usage_default,
      mr_uptime_seconds = 0, mr_config_reloads = 0, mr_proxy_metrics = [], mr_upstream_metrics = [],
      mr_start_time = now\<rparr>"

definition update_uptime :: "instant \<Rightarrow> metrics_registry \<Rightarrow> metrics_registry" where
  "update_uptime now r =
     r\<lparr>mr_uptime_seconds := word_of_nat ((now - mr_start_time r) div 1000000000)\<rparr>"

definition record_config_reload :: "metrics_registry \<Rightarrow> metrics_registry" where
  "record_config_reload r = r\<lparr>mr_config_reloads := mr_config_reloads r + 1\<rparr>"

definition update_proxy_metrics ::
  "string \<Rightarrow> proxy_metrics \<Rightarrow> metrics_registry \<Rightarrow> metrics_registry" where
  "update_proxy_metrics instance_name metrics r =
     r\<lparr>mr_proxy_metrics := AList.update instance_name metrics (mr_proxy_metrics r)\<rparr>"

definition add_upstream :: "upstream_heap \<Rightarrow> arc \<Rightarrow> metrics_registry \<Rightarrow> metrics_registry" where
  "add_upstream h p r =
     r\<lparr>mr_upstream_metrics := AList.update (up_name (ui_config (h ! p))) p (mr_upstream_metrics r),
       mr_upstreams_total := mr_upstreams_total r + 1\<rparr>"

definition remove_upstream :: "string \<Rightarrow> metrics_registry \<Rightarrow> metrics_registry" where
  "remove_upstream name r =
     (case map_of (mr_upstream_metrics r) name of
        Some p \<Rightarrow> r\<lparr>mr_upstream_metrics := AList.delete name (mr_upstream_metrics r),
                    mr_upstreams_total := mr_upstreams_total r - 1\<rparr>
      | None \<Rightarrow> r)"

definition set_proxy_instances_count :: "usize \<Rightarrow> metrics_registry \<Rightarrow> metrics_registry" where
  "set_proxy_instances_count n r = r\<lparr>mr_proxy_instances_total := n\<rparr>"

definition update_memory_usage :: "memory_usage \<Rightarrow> metrics_registry \<Rightarrow> metrics_registry" where
  "update_memory_usage usage r = r\<lparr>mr_memory_usage := usage\<rparr>"

definition collect_memory_usage :: memory_usage where
  "collect_memory_usage =
     \<lparr>mem_rss_bytes = 0, mem_vsize_bytes = 0, mem_heap_bytes = 0, mem_buffer_pool_bytes = 0\<rparr>"

definition upstream_snapshot :: "upstream_heap \<Rightarrow> string \<times> arc \<Rightarrow> string \<times> upstream_metrics_snapshot" where
  "upstream_snapshot h e =
     (let (name, p) = e; u = h ! p; st = ui_stats u
      in (name,
          \<lparr>us_name = name, us_health_state = ui_health_state u, us_requests_sent = requests_sent st,
           us_responses_received = responses_received st, us_failures = failures st,
           us_active_connections = active_connections st,
           us_avg_response_time_ms = avg_response_time_ms st, us_success_rate = success_rate st,
           us_health_score = health_score u\<rparr>))"

definition get_metrics_summary ::
  "instant \<Rightarrow> u64 \<Rightarrow> upstream_heap \<Rightarrow> metrics_registry \<Rightarrow> metrics_summary \<times> metrics_registry" where
  "get_metrics_summary now timestamp h r =
     (let r = update_uptime now r;
          system = \<lparr>sm_proxy_instances_total = mr_proxy_instances_total r,
                    sm_upstreams_total = mr_upstreams_total r,
                    sm_uptime_seconds = mr_uptime_seconds r, sm_config_reloads = mr_config_reloads r,
                    sm_memory_usage = mr_memory_usage r\<rparr>
      in (\<lparr>ms_system = system, ms_proxies = mr_proxy_metrics r,
           ms_upstreams = map (upstream_snapshot h) (mr_upstream_metrics r),
           ms_timestamp = timestamp\<rparr>, r))"

section \<open>System health\<close>

text \<open>The counting loop over health states: healthy and unhealthy ones.\<close>

fun count_states :: "health_state list \<Rightarrow> usize \<times> usize \<Rightarrow> usize \<times> usize" where
  "count_states [] acc = acc"
| "count_states (st # sts) (healthy, unhealthy) =
     count_states sts
       (case st of Healthy \<Rightarrow> (healthy + 1, unhealthy)
        | Unhealthy \<Rightarrow> (healthy, unhealthy + 1)
        | Unknown \<Rightarrow> (healthy, unhealthy))"

definition overall_status :: "usize \<Rightarrow> usize \<Rightarrow> usize \<Rightarrow> usize \<Rightarrow> health_state" where
  "overall_status healthy_proxies unhealthy_proxies healthy_upstreams unhealthy_upstreams =
     (if unhealthy_proxies > 0 \<or> unhealthy_upstreams > 0
      then if healthy_proxies = 0 then Unhealthy else Unknown
      else if healthy_proxies > 0 then Healthy else Unknown)"

definition health_message :: "health_state \<Rightarrow> usize \<Rightarrow> usize \<Rightarrow> string" where
  "health_message st unhealthy_proxies unhealthy_upstreams =
     (case st of
        Healthy \<Rightarrow> ''All systems operational''
      | Unhealthy \<Rightarrow>
          ''System degraded: '' @ show_nat (unat unhealthy_proxies) @ '' unhealthy proxies, '' @
          show_nat (unat unhealthy_upstreams) @ '' unhealthy upstreams''
      | Unknown \<Rightarrow> ''System status unknown or starting up'')"

definition get_system_health ::
  "instant \<Rightarrow> u64 \<Rightarrow> upstream_heap \<Rightarrow> (string \<times> proxy_health) list \<Rightarrow> metrics_registry \<Rightarrow>
   system_health \<times> metrics_registry" where
  "get_system_health now timestamp h proxy_healths r =
     (let r = update_uptime now r;
          (healthy_proxies, unhealthy_proxies) =
            count_states (map (\<lambda>(_, ph). ph_status ph) proxy_healths) (0, 0);
          (healthy_upstreams, unhealthy_upstreams) =
            count_states (map (\<lambda>(_, p). ui_health_state (h ! p)) (mr_upstream_metrics r)) (0, 0);
          status = overall_status healthy_proxies unhealthy_proxies healthy_upstreams
                     unhealthy_upstreams
      in (\<lparr>sh_status = status, sh_uptime_seconds = mr_uptime_seconds r,
           sh_healthy_proxies = healthy_proxies, sh_unhealthy_proxies = unhealthy_proxies,
           sh_healthy_upstreams = healthy_upstreams, sh_unhealthy_upstreams = unhealthy_upstreams,
           sh_timestamp = timestamp,
           sh_message = health_message status unhealthy_proxies unhealthy_upstreams\<rparr>, r))"

section \<open>The Prometheus text\<close>

definition nl :: string where
  "nl = [CHR 0x0A]"

text \<open>One metric: its help line, its type line, its sample and an empty line.\<close>

definition sample ::
  "string \<Rightarrow> string \<Rightarrow> string \<Rightarrow> (string \<times> string) option \<Rightarrow> string \<Rightarrow> string" where
  "sample name help kind label val =
     ''# HELP '' @ name @ '' '' @ help @ nl @
     ''# TYPE '' @ name @ '' '' @ kind @ nl @
     name @ (case label of None \<Rightarrow> [] | Some (k, v) \<Rightarrow> ''{'' @ k @ ''='' @ dquoted v @ ''}'') @
     '' '' @ val @ nl @ nl"

definition show_u64 :: "u64 \<Rightarrow> string" where
  "show_u64 w = show_nat (unat w)"

definition prometheus_system :: "system_metrics_snapshot \<Rightarrow> string" where
  "prometheus_system sys =
     sample ''harbr_proxy_instances_total'' ''Total number of proxy instances'' ''gauge'' None
       (show_u64 (sm_proxy_instances_total sys)) @
     sample ''harbr_upstreams_total'' ''Total number of upstream servers'' ''gauge'' None
       (show_u64 (sm_upstreams_total sys)) @
     sample ''harbr_uptime_seconds'' ''System uptime in seconds'' ''gauge'' None
       (show_u64 (sm_uptime_seconds sys)) @
     sample ''harbr_memory_rss_bytes'' ''RSS memory usage in bytes'' ''gauge'' None
       (show_u64 (mem_rss_bytes (sm_memory_usage sys)))"

definition prometheus_proxy :: "string \<times> proxy_metrics \<Rightarrow> string" where
  "prometheus_proxy e =
     (let (instance_name, m) = e; label = Some (''instance'', instance_name) in
     sample ''harbr_proxy_requests_total'' ''Total requests handled by proxy'' ''counter'' label
       (show_u64 (pm_total_requests m)) @
     sample ''harbr_proxy_connections_active'' ''Active connections for proxy'' ''gauge'' label
       (show_u64 (pm_active_connections m)) @
     sample ''harbr_proxy_bytes_sent_total'' ''Total bytes sent by proxy'' ''counter'' label
       (show_u64 (pm_bytes_sent m)) @
     sample ''harbr_proxy_bytes_received_total'' ''Total bytes received by proxy'' ''counter'' label
       (show_u64 (pm_bytes_received m)))"

definition health_value :: "health_state \<Rightarrow> f64" where
  "health_value st = (case st of Healthy \<Rightarrow> 1 | Unknown \<Rightarrow> 1 / 2 | Unhealthy \<Rightarrow> 0)"

definition prometheus_upstream ::
  "(f64 \<Rightarrow> string) \<Rightarrow> string \<times> upstream_metrics_snapshot \<Rightarrow> string" where
  "prometheus_upstream show_f64 e =
     (let (upstream_name, m) = e; label = Some (''upstream'', upstream_name) in
     sample ''harbr_upstream_health''
       ''Upstream health status (1=healthy, 0.5=unknown, 0=unhealthy)'' ''gauge'' label
       (show_f64 (health_value (us_health_state m))) @
     sample ''harbr_upstream_requests_total'' ''Total requests sent to upstream'' ''counter'' label
       (show_u64 (us_requests_sent m)) @
     sample ''harbr_upstream_response_time_ms'' ''Average response time in milliseconds'' ''gauge''
       label (show_f64 (us_avg_response_time_ms m)) @
     sample ''harbr_upstream_success_rate'' ''Success rate (0.0 to 1.0)'' ''gauge'' label
       (show_f64 (us_success_rate m)))"

definition export_prometheus ::
  "(f64 \<Rightarrow> string) \<Rightarrow> instant \<Rightarrow> u64 \<Rightarrow> upstream_heap \<Rightarrow> metrics_registry \<Rightarrow>
   string \<times> metrics_registry" where
  "export_prometheus show_f64 now timestamp h r =
     (let (summary, r) = get_metrics_summary now timestamp h r
      in (prometheus_system (ms_system summary) @
          concat (map prometheus_proxy (ms_proxies summary)) @
          concat (map (prometheus_upstream show_f64) (ms_upstreams summary)), r))"

section \<open>The metrics server\<close>

text \<open>The answer of an observability endpoint: status, content type if any, and body.\<close>

record plain_response =
  pr_status :: u16
  pr_content_type :: "string option"
  pr_body :: string

definition not_found :: plain_response where
  "not_found = \<lparr>pr_status = 404, pr_content_type = None, pr_body = ''Not Found''\<rparr>"

definition metrics_handle_request ::
  "(f64 \<Rightarrow> string) \<Rightarrow> (system_health \<Rightarrow> string) \<Rightarrow> instant \<Rightarrow> u64 \<Rightarrow> upstream_heap \<Rightarrow>
   string \<Rightarrow> string \<Rightarrow> metrics_registry \<Rightarrow> plain_response \<times> metrics_registry" where
  "metrics_handle_request show_f64 to_json now timestamp h metrics_path path r =
     (if path = metrics_path then
        (let (metrics, r) = export_prometheus show_f64 now timestamp h r
         in (\<lparr>pr_status = 200,
              pr_content_type = Some ''text/plain; version=0.0.4; charset=utf-8'',
              pr_body = metrics\<rparr>, r))
      else if path = ''/health'' then
        (let (health, r) = get_system_health now timestamp h [] r;
             status = (case sh_status health of Healthy \<Rightarrow> 200 | Unknown \<Rightarrow> 200 | Unhealthy \<Rightarrow> 503)
         in (\<lparr>pr_status = status, pr_content_type = Some ''application/json'',
              pr_body = to_json health\<rparr>, r))
      else (not_found, r))"

record 'c metrics_server =
  mts_config :: metrics_config
  mts_shutdown :: 'c

definition metrics_server_new :: "'c channel_lib \<Rightarrow> metrics_config \<Rightarrow> 'c metrics_server" where
  "metrics_server_new ch config = \<lparr>mts_config = config, mts_shutdown = ch_new ch\<rparr>"

text \<open>
  \<open>start\<close> as it stands after the given events; an enabled server subscribes to its channel before it
  binds.
\<close>

definition metrics_server_start ::
  "'c channel_lib \<Rightarrow> 'e hyper_server \<Rightarrow> (socket_addr \<Rightarrow> string option) \<Rightarrow> 'e serve_event list \<Rightarrow>
   'c metrics_server \<Rightarrow> start_outcome \<times> 'c metrics_server" where
  "metrics_server_start ch hyper bind events srv =
     (if \<not> mc_enabled (mts_config srv) then (Returned (Inr ()), srv)
      else (hyper_start ''Metrics server error: '' hyper bind (mc_listen_addr (mts_config srv)) events,
            srv\<lparr>mts_shutdown := ch_subscribe ch (mts_shutdown srv)\<rparr>))"

text \<open>A failed send is only logged.\<close>

definition metrics_server_shutdown ::
  "'c channel_lib \<Rightarrow> 'c metrics_server \<Rightarrow> unit result \<times> 'c metrics_server" where
  "metrics_server_shutdown ch srv = (Inr (), srv\<lparr>mts_shutdown := snd (ch_send ch (mts_shutdown srv))\<rparr>)"

text \<open>
  The memory task of an enabled server: a tick stores the usage. tokio's \<open>interval\<close> panics on a zero
  period, which ends the task before its first tick.
\<close>

definition memory_tick :: "metrics_config \<Rightarrow> metrics_registry \<Rightarrow> metrics_registry option" where
  "memory_tick config r =
     (if mc_interval_secs config = 0 then None
      else Some (update_memory_usage collect_memory_usage r))"

section \<open>Lemmas: the registry\<close>

text \<open>
  The invariant: names are unique and every entry is filed under the name of its upstream. The
  counter is at least the number of entries and is exact as long as no name is added twice.
\<close>

definition registry_wf :: "upstream_heap \<Rightarrow> metrics_registry \<Rightarrow> bool" where
  "registry_wf h r \<longleftrightarrow>
     distinct (map fst (mr_upstream_metrics r)) \<and>
     (\<forall>(n, p) \<in> set (mr_upstream_metrics r). p < length h \<and> up_name (ui_config (h ! p)) = n)"

definition registry_exact :: "metrics_registry \<Rightarrow> bool" where
  "registry_exact r \<longleftrightarrow> mr_upstreams_total r = word_of_nat (length (mr_upstream_metrics r))"

lemma length_alist_update:
  "length (AList.update k v al) = length al + (if k \<in> fst ` set al then 0 else 1)"
  by (induction al) auto

lemma set_alist_update:
  "distinct (map fst al) \<Longrightarrow>
     set (AList.update k v al) = insert (k, v) {e \<in> set al. fst e \<noteq> k}"
  by (induction al) (auto simp: image_iff)

lemma registry_new_wf: "registry_wf h (registry_new now)" "registry_exact (registry_new now)"
  by (simp_all add: registry_wf_def registry_exact_def registry_new_def)

lemma add_upstream_wf:
  assumes "registry_wf h r" "p < length h"
  shows "registry_wf h (add_upstream h p r)"
  using assms
  by (auto simp: registry_wf_def add_upstream_def distinct_update set_alist_update)

lemma add_upstream_exact:
  assumes "registry_exact r" "up_name (ui_config (h ! p)) \<notin> fst ` set (mr_upstream_metrics r)"
  shows "registry_exact (add_upstream h p r)"
  using assms by (simp add: registry_exact_def add_upstream_def length_alist_update)

text \<open>Adding a name again replaces the entry and counts it a second time.\<close>

lemma add_upstream_twice:
  assumes "up_name (ui_config (h ! p)) \<in> fst ` set (mr_upstream_metrics r)"
  shows "length (mr_upstream_metrics (add_upstream h p r)) = length (mr_upstream_metrics r)"
    "mr_upstreams_total (add_upstream h p r) = mr_upstreams_total r + 1"
  using assms by (simp_all add: add_upstream_def length_alist_update)

lemma length_alist_delete:
  "distinct (map fst al) \<Longrightarrow> k \<in> fst ` set al \<Longrightarrow> Suc (length (AList.delete k al)) = length al"
proof (induction al)
  case (Cons a al)
  show ?case
  proof (cases "fst a = k")
    case True
    with Cons.prems(1) have "k \<notin> fst ` set al" by auto
    then have "AList.delete k al = al" by simp
    with True show ?thesis by (cases a) (simp add: AList.delete_eq)
  next
    case False
    with Cons show ?thesis by (cases a) (auto simp: AList.delete_eq)
  qed
qed simp

lemma remove_upstream_exact:
  assumes "registry_exact r" "distinct (map fst (mr_upstream_metrics r))"
  shows "registry_exact (remove_upstream name r)"
proof (cases "map_of (mr_upstream_metrics r) name")
  case (Some p)
  then have "name \<in> fst ` set (mr_upstream_metrics r)"
    by (metis domI dom_map_of_conv_image_fst)
  from length_alist_delete [OF assms(2) this] assms(1) Some show ?thesis
    by (simp add: registry_exact_def remove_upstream_def) (metis add_diff_cancel_left' of_nat_Suc)
qed (simp add: assms remove_upstream_def)

lemma add_remove_upstream:
  assumes "up_name (ui_config (h ! p)) \<notin> fst ` set (mr_upstream_metrics r)"
  shows "map_of (mr_upstream_metrics (remove_upstream (up_name (ui_config (h ! p))) (add_upstream h p r))) =
      map_of (mr_upstream_metrics r)"
    "mr_upstreams_total (remove_upstream (up_name (ui_config (h ! p))) (add_upstream h p r)) =
      mr_upstreams_total r"
proof -
  have "map_of (mr_upstream_metrics r) (up_name (ui_config (h ! p))) = None"
    using assms by (simp add: map_of_eq_None_iff)
  then show "map_of (mr_upstream_metrics (remove_upstream (up_name (ui_config (h ! p))) (add_upstream h p r))) =
      map_of (mr_upstream_metrics r)"
    "mr_upstreams_total (remove_upstream (up_name (ui_config (h ! p))) (add_upstream h p r)) =
      mr_upstreams_total r"
    by (auto simp: remove_upstream_def add_upstream_def update_conv' delete_conv' fun_eq_iff)
qed

lemma update_proxy_metrics_get:
  "map_of (mr_proxy_metrics (update_proxy_metrics n m r)) =
     (map_of (mr_proxy_metrics r))(n \<mapsto> m)"
  by (simp add: update_proxy_metrics_def update_conv')

section \<open>Lemmas: system health\<close>

lemma count_states_eq:
  "count_states sts (a, b) =
     (a + word_of_nat (count_of ((=) Healthy) sts), b + word_of_nat (count_of ((=) Unhealthy) sts))"
  by (induction sts arbitrary: a b) (auto simp: count_of_def split: health_state.splits)

lemma overall_status_healthy:
  "overall_status hp up hu uu = Healthy \<longleftrightarrow> hp > 0 \<and> up = 0 \<and> uu = 0"
  "overall_status hp up hu uu = Unhealthy \<longleftrightarrow> hp = 0 \<and> (up > 0 \<or> uu > 0)"
  by (auto simp: overall_status_def word_gt_0)

lemma count_of_Nil [simp]: "count_of P [] = 0"
  by (simp add: count_of_def)

lemma count_of_zero: "count_of P xs = 0 \<longleftrightarrow> (\<forall>x \<in> set xs. \<not> P x)"
  by (auto simp: count_of_def filter_empty_conv)

lemma word_of_count_zero:
  "length xs < 2 ^ 64 \<Longrightarrow> (word_of_nat (count_of P xs) :: usize) = 0 \<longleftrightarrow> (\<forall>x \<in> set xs. \<not> P x)"
  using count_of_le_length [of P xs]
  by (simp add: word_u64_eq_iff_unat unat_of_nat_small count_of_zero)

lemma word_of_count_map_zero:
  "length ys < 2 ^ 64 \<Longrightarrow>
     (word_of_nat (count_of ((=) x) (map f ys)) :: usize) = 0 \<longleftrightarrow> (\<forall>y \<in> set ys. f y \<noteq> x)"
  by (subst word_of_count_zero) auto

text \<open>The report is healthy only if some proxy is healthy and nothing is unhealthy.\<close>

lemma get_system_health_healthy:
  assumes "get_system_health now ts h phs r = (sh, r1)"
    and "length phs < 2 ^ 64" "length (mr_upstream_metrics r) < 2 ^ 64"
  shows "sh_status sh = Healthy \<longleftrightarrow>
    (\<exists>(n, ph) \<in> set phs. ph_status ph = Healthy) \<and>
    (\<forall>(n, ph) \<in> set phs. ph_status ph \<noteq> Unhealthy) \<and>
    (\<forall>(n, p) \<in> set (mr_upstream_metrics r). ui_health_state (h ! p) \<noteq> Unhealthy)"
proof -
  let ?ps = "map (\<lambda>(_, ph). ph_status ph) phs"
  let ?us = "map (\<lambda>(_, p). ui_health_state (h ! p)) (mr_upstream_metrics r)"
  have "sh_status sh = overall_status (word_of_nat (count_of ((=) Healthy) ?ps))
      (word_of_nat (count_of ((=) Unhealthy) ?ps)) (word_of_nat (count_of ((=) Healthy) ?us))
      (word_of_nat (count_of ((=) Unhealthy) ?us))"
    using assms(1) by (auto simp: get_system_health_def Let_def count_states_eq update_uptime_def)
  then show ?thesis
    using assms(2,3)
    by (simp add: overall_status_healthy word_gt_0 word_of_count_map_zero case_prod_unfold)
qed

text \<open>Without proxy reports, as the metrics server asks, the answer is never \<open>Healthy\<close>.\<close>

lemma get_system_health_no_proxies:
  assumes "get_system_health now ts h [] r = (sh, r1)"
  shows "sh_status sh \<noteq> Healthy"
  using assms by (auto simp: get_system_health_def Let_def count_states_eq overall_status_healthy
      update_uptime_def)

lemma get_system_health_no_proxies_ok:
  assumes "get_system_health now ts h [] r = (sh, r1)" "length (mr_upstream_metrics r) < 2 ^ 64"
  shows "sh_status sh = (if \<exists>(n, p) \<in> set (mr_upstream_metrics r). ui_health_state (h ! p) = Unhealthy
    then Unhealthy else Unknown)"
proof -
  let ?us = "map (\<lambda>(_, p). ui_health_state (h ! p)) (mr_upstream_metrics r)"
  have "sh_status sh = overall_status 0 0 (word_of_nat (count_of ((=) Healthy) ?us))
      (word_of_nat (count_of ((=) Unhealthy) ?us))"
    using assms(1) by (auto simp: get_system_health_def Let_def count_states_eq update_uptime_def)
  moreover have "(word_of_nat (count_of ((=) Unhealthy) ?us) :: usize) = 0 \<longleftrightarrow>
      \<not> (\<exists>(n, p) \<in> set (mr_upstream_metrics r). ui_health_state (h ! p) = Unhealthy)"
    using assms(2) by (simp add: word_of_count_map_zero case_prod_unfold)
  ultimately show ?thesis by (auto simp: overall_status_def word_gt_0)
qed

lemma metrics_handle_request_status:
  "pr_status (fst (metrics_handle_request sf tj now ts h metrics_path path r)) = 404 \<longleftrightarrow>
     path \<noteq> metrics_path \<and> path \<noteq> ''/health''"
  by (cases "path = metrics_path"; cases "path = ''/health''")
    (auto simp: metrics_handle_request_def not_found_def split: prod.split health_state.split)

text \<open>A request changes nothing but the uptime.\<close>

lemma metrics_handle_request_registry:
  "metrics_handle_request sf tj now ts h metrics_path path r = (response, r') \<Longrightarrow>
     r' = r \<or> r' = update_uptime now r"
  by (auto simp: metrics_handle_request_def export_prometheus_def get_metrics_summary_def
      get_system_health_def Let_def split: if_splits prod.splits)

text \<open>The health page is served unless the metrics page has the same path.\<close>

lemma metrics_handle_request_health:
  assumes "metrics_path \<noteq> ''/health''" "length (mr_upstream_metrics r) < 2 ^ 64"
  shows "pr_status (fst (metrics_handle_request sf tj now ts h metrics_path ''/health'' r)) =
    (if \<exists>(n, p) \<in> set (mr_upstream_metrics r). ui_health_state (h ! p) = Unhealthy then 503 else 200)"
proof -
  obtain sh r1 where sh: "get_system_health now ts h [] r = (sh, r1)" by (metis surj_pair)
  from get_system_health_no_proxies_ok [OF sh assms(2)] assms(1) show ?thesis
    by (simp add: metrics_handle_request_def sh)
qed

section \<open>Lemmas: the export\<close>

text \<open>
  The export is its sections in order, and the summary shows the state of the registered upstreams.
\<close>

lemma export_prometheus_sections:
  "fst (export_prometheus sf now ts h r) =
     prometheus_system (ms_system (fst (get_metrics_summary now ts h r))) @
     concat (map prometheus_proxy (mr_proxy_metrics r)) @
     concat (map (prometheus_upstream sf \<circ> upstream_snapshot h) (mr_upstream_metrics r))"
  by (simp add: export_prometheus_def get_metrics_summary_def Let_def update_uptime_def)

lemma metrics_handle_request_body:
  "pr_body (fst (metrics_handle_request sf tj now ts h page page r)) =
     fst (export_prometheus sf now ts h r)"
  by (simp add: metrics_handle_request_def split: prod.split)

lemma upstream_snapshot_initial:
  assumes "ui_stats (h ! p) = upstream_stats_default now"
  shows "us_requests_sent (snd (upstream_snapshot h (n, p))) = 0"
    "us_failures (snd (upstream_snapshot h (n, p))) = 0"
    "us_success_rate (snd (upstream_snapshot h (n, p))) = 1"
  using assms by (simp_all add: upstream_snapshot_def upstream_stats_default_def success_rate_def
      Let_def)


section \<open>Properties\<close>

text \<open>C35: The system is reported healthy exactly if some proxy is healthy and neither a proxy nor a
tracked upstream is unhealthy.\<close>

theorem system_health_exact:
  assumes "length proxy_healths < 2 ^ 64" "length (mr_upstream_metrics r) < 2 ^ 64"
  shows "sh_status (fst (get_system_health now timestamp h proxy_healths r)) = Healthy \<longleftrightarrow>
    (\<exists>(n, ph) \<in> set proxy_healths. ph_status ph = Healthy) \<and>
    (\<forall>(n, ph) \<in> set proxy_healths. ph_status ph \<noteq> Unhealthy) \<and>
    (\<forall>(n, p) \<in> set (mr_upstream_metrics r). ui_health_state (h ! p) \<noteq> Unhealthy)"
  using get_system_health_healthy [OF _ assms, of now timestamp h _ "snd (get_system_health now timestamp h proxy_healths r)"]
  by (metis prod.collapse)

lemma system_health_exact_witness:
  "sh_status (fst (get_system_health 0 0 []
     [(''http'', \<lparr>ph_status = Healthy, ph_message = []\<rparr>), (''tcp'', \<lparr>ph_status = Unknown, ph_message = []\<rparr>)]
     (registry_new 0))) = Healthy"
  by (subst system_health_exact) (simp_all add: registry_new_def)

text \<open>The health page of the metrics server never reports a healthy system: it passes no proxy
reports, so the report is unhealthy (503) if a tracked upstream is, and unknown (200) otherwise.\<close>

theorem metrics_health_page:
  assumes "metrics_path \<noteq> ''/health''" "length (mr_upstream_metrics r) < 2 ^ 64"
  shows "case fst (metrics_handle_request show_f64 to_json now timestamp h metrics_path ''/health'' r) of
    response \<Rightarrow> \<exists>report. pr_body response = to_json report \<and>
      (if \<exists>(n, p) \<in> set (mr_upstream_metrics r). ui_health_state (h ! p) = Unhealthy
       then sh_status report = Unhealthy \<and> pr_status response = 503
       else sh_status report = Unknown \<and> pr_status response = 200)"
proof -
  obtain sh r1 where sh: "get_system_health now timestamp h [] r = (sh, r1)" by (metis surj_pair)
  have response: "fst (metrics_handle_request show_f64 to_json now timestamp h metrics_path ''/health'' r) =
      \<lparr>pr_status = (case sh_status sh of Healthy \<Rightarrow> 200 | Unknown \<Rightarrow> 200 | Unhealthy \<Rightarrow> 503),
       pr_content_type = Some ''application/json'', pr_body = to_json sh\<rparr>"
    using assms(1) by (simp add: metrics_handle_request_def sh)
  from get_system_health_no_proxies_ok [OF sh assms(2)] show ?thesis
    unfolding response by (intro exI [of _ sh]) simp
qed


lemma metrics_health_page_witness:
  "pr_status (fst (metrics_handle_request (\<lambda>x. []) (\<lambda>x. []) 0 0 [] ''/metrics'' ''/health'' (registry_new 0))) = 200"
  using metrics_health_page [of "''/metrics''" "registry_new 0" "\<lambda>x. []" "\<lambda>x. []" 0 0 "[]"]
  by (simp add: registry_new_def)

end
