(* ===== verification/Health_Server.thy ===== *)
theory Health_Server
  imports Metrics
begin

text \<open>
  The health endpoint (\<open>src/server.rs\<close>). It reports a fixed state; the JSON writer and the wall
  clock are arguments.
\<close>

definition endpoint_health :: "u64 \<Rightarrow> system_health" where
  "endpoint_health timestamp =
     \<lparr>sh_status = Healthy, sh_uptime_seconds = 0, sh_healthy_proxies = 0, sh_unhealthy_proxies = 0,
      sh_healthy_upstreams = 0, sh_unhealthy_upstreams = 0, sh_timestamp = timestamp,
      sh_message = ''Health check endpoint operational''\<rparr>"

definition health_handle_request ::
  "(system_health \<Rightarrow> string) \<Rightarrow> u64 \<Rightarrow> string \<Rightarrow> string \<Rightarrow> plain_response" where
  "health_handle_request to_json timestamp health_path path =
     (if path = health_path
      then \<lparr>pr_status = 200, pr_content_type = Some ''application/json'',
            pr_body = to_json (endpoint_health timestamp)\<rparr>
      else not_found)"

record 'c health_server =
  hls_config :: health_check_config
  hls_shutdown :: 'c

definition health_server_new :: "'c channel_lib \<Rightarrow> health_check_config \<Rightarrow> 'c health_server" where
  "health_server_new ch config = \<lparr>hls_config = config, hls_shutdown = ch_new ch\<rparr>"

definition health_server_start ::
  "'c channel_lib \<Rightarrow> 'e hyper_server \<Rightarrow> (socket_addr \<Rightarrow> string option) \<Rightarrow> 'e serve_event list \<Rightarrow>
   'c health_server \<Rightarrow> start_outcome \<times> 'c health_server" where
  "health_server_start ch hyper bind events srv =
     (if \<not> hc_enabled (hls_config srv) then (Returned (Inr ()), srv)
      else (hyper_start ''Health server error: '' hyper bind (hc_listen_addr (hls_config srv)) events,
            srv\<lparr>hls_shutdown := ch_subscribe ch (hls_shutdown srv)\<rparr>))"

definition health_server_shutdown ::
  "'c channel_lib \<Rightarrow> 'c health_server \<Rightarrow> unit result \<times> 'c health_server" where
  "health_server_shutdown ch srv = (Inr (), srv\<lparr>hls_shutdown := snd (ch_send ch (hls_shutdown srv))\<rparr>)"

lemma health_handle_request_ok:
  "pr_status (health_handle_request to_json ts health_path path) =
     (if path = health_path then 200 else 404)"
  by (simp add: health_handle_request_def not_found_def)

end
