(* ===== verification/Affinity.thy ===== *)
theory Affinity
  imports Prelude Errors
begin

text \<open>
  CPU affinity (\<open>src/affinity.rs\<close>). The manager is its CPU count and its rotating counter; the
  operating system's calls are arguments that return the error text of a failed call. A remainder
  by a zero CPU count panics: the outcome \<^const>\<open>None\<close>.
\<close>

record affinity_manager =
  am_cpu_count :: usize
  am_next_cpu :: usize

definition affinity_manager_new :: "usize \<Rightarrow> affinity_manager" where
  "affinity_manager_new num_cpus = \<lparr>am_cpu_count = num_cpus, am_next_cpu = 0\<rparr>"

definition optimal_worker_count :: "affinity_manager \<Rightarrow> usize" where
  "optimal_worker_count m = max (min (am_cpu_count m) 32) 1"

text \<open>
  \<open>set_thread_affinity\<close> on Linux (a non-zero result of \<open>sched_setaffinity\<close> gives the last OS error),
  on Windows (a zero result is the failure; in the release profile the shift count is taken modulo
  the width) and elsewhere.
\<close>

definition set_thread_affinity_linux :: "(usize \<Rightarrow> string option) \<Rightarrow> usize \<Rightarrow> unit result" where
  "set_thread_affinity_linux sched_setaffinity cpu_id =
     (case sched_setaffinity cpu_id of
        Some err \<Rightarrow> Inl (err_internal (''Failed to set CPU affinity: '' @ err))
      | None \<Rightarrow> Inr ())"

definition set_thread_affinity_windows :: "(usize \<Rightarrow> usize) \<Rightarrow> usize \<Rightarrow> unit result" where
  "set_thread_affinity_windows set_mask cpu_id =
     (let mask = push_bit (unat cpu_id mod 64) 1
      in if set_mask mask = 0 then Inl (err_internal ''Failed to set CPU affinity on Windows'')
         else Inr ())"

definition set_thread_affinity_other :: "usize \<Rightarrow> unit result" where
  "set_thread_affinity_other cpu_id = Inr ()"

definition assign_current_thread ::
  "(usize \<Rightarrow> unit result) \<Rightarrow> affinity_manager \<Rightarrow> (usize result \<times> affinity_manager) option" where
  "assign_current_thread set_affinity m =
     (if am_cpu_count m = 0 then None
      else let cpu_id = am_next_cpu m mod am_cpu_count m;
               m' = m\<lparr>am_next_cpu := am_next_cpu m + 1\<rparr>
           in Some (res_bind (set_affinity cpu_id) (\<lambda>_. Inr cpu_id), m'))"

definition spawn_on_cpu ::
  "(usize \<Rightarrow> unit result) \<Rightarrow> affinity_manager \<Rightarrow> usize \<Rightarrow> 'a \<Rightarrow> (usize \<times> 'a) option" where
  "spawn_on_cpu set_affinity m cpu_id f =
     (if am_cpu_count m = 0 then None
      else let actual_cpu = cpu_id mod am_cpu_count m
           in case set_affinity actual_cpu of Inl _ \<Rightarrow> Some (actual_cpu, f) | Inr _ \<Rightarrow> Some (actual_cpu, f))"

definition create_optimized_runtime ::
  "(usize \<Rightarrow> string + 'rt) \<Rightarrow> affinity_manager \<Rightarrow> 'rt result" where
  "create_optimized_runtime build m =
     (case build (optimal_worker_count m) of
        Inl e \<Rightarrow> Inl (err_internal (''Failed to create Tokio runtime: '' @ e))
      | Inr rt \<Rightarrow> Inr rt)"

text \<open>A failed affinity call is returned; the result of \<open>setpriority\<close> is only logged.\<close>

definition optimize_current_thread ::
  "(usize \<Rightarrow> unit result) \<Rightarrow> affinity_manager \<Rightarrow> (unit result \<times> affinity_manager) option" where
  "optimize_current_thread set_affinity m =
     (case assign_current_thread set_affinity m of
        None \<Rightarrow> None
      | Some (Inl e, m') \<Rightarrow> Some (Inl e, m')
      | Some (Inr _, m') \<Rightarrow> Some (Inr (), m'))"

section \<open>Rotation\<close>

text \<open>The results of \<open>k\<close> assignments in a row.\<close>

fun assign_run ::
  "(usize \<Rightarrow> unit result) \<Rightarrow> nat \<Rightarrow> affinity_manager \<Rightarrow> (usize result list \<times> affinity_manager) option" where
  "assign_run set_affinity 0 m = Some ([], m)"
| "assign_run set_affinity (Suc k) m =
     (case assign_current_thread set_affinity m of
        None \<Rightarrow> None
      | Some (r, m') \<Rightarrow> map_option (\<lambda>(rs, m''). (r # rs, m'')) (assign_run set_affinity k m'))"

lemma assign_current_thread_ok:
  "am_cpu_count m \<noteq> 0 \<Longrightarrow> set_affinity (am_next_cpu m mod am_cpu_count m) = Inr () \<Longrightarrow>
     assign_current_thread set_affinity m =
       Some (Inr (am_next_cpu m mod am_cpu_count m), m\<lparr>am_next_cpu := am_next_cpu m + 1\<rparr>)"
  by (simp add: assign_current_thread_def)

definition cpu_number :: "usize result \<Rightarrow> error + nat" where
  "cpu_number r = (case r of Inl e \<Rightarrow> Inl e | Inr cpu \<Rightarrow> Inr (unat cpu))"

lemma cpu_number_Inr [simp]: "cpu_number (Inr cpu) = Inr (unat cpu)"
  by (simp add: cpu_number_def)

section \<open>Property\<close>

text \<open>Threads are spread over the CPUs in rotation: when the operating system accepts every call
and the counter does not wrap, the i-th of k assignments goes to CPU (start + i) mod count, and none
of them panics.\<close>

lemma assign_run_rotates:
  assumes "\<forall>cpu. set_affinity cpu = Inr ()" "am_cpu_count m \<noteq> 0"
    and "unat (am_next_cpu m) + k < 2 ^ 64"
  shows "map_option (map cpu_number \<circ> fst) (assign_run set_affinity k m) =
     Some (map (\<lambda>i. Inr ((unat (am_next_cpu m) + i) mod unat (am_cpu_count m))) [0..<k])"
  using assms
proof (induction k arbitrary: m)
  case 0
  then show ?case by simp
next
  case (Suc k)
  let ?m = "m\<lparr>am_next_cpu := am_next_cpu m + 1\<rparr>"
  have n: "unat (am_next_cpu m + 1) = unat (am_next_cpu m) + 1"
    using Suc.prems by (intro unat_plus_one) simp
  from Suc.IH [OF Suc.prems(1), of ?m] Suc.prems(2,3) n
  obtain rs m' where rs: "assign_run set_affinity k ?m = Some (rs, m')"
    "map cpu_number rs =
       map (\<lambda>i. Inr ((unat (am_next_cpu m) + Suc i) mod unat (am_cpu_count m))) [0..<k]"
    by auto
  have "[0..<Suc k] = 0 # map Suc [0..<k]"
    by (metis upt_conv_Cons map_Suc_upt zero_less_Suc)
  moreover from Suc.prems(1) have "set_affinity (am_next_cpu m mod am_cpu_count m) = Inr ()" ..
  ultimately show ?case using rs Suc.prems(2,3)
    by (simp add: assign_current_thread_ok unat_mod o_def del: upt_Suc)
qed

end
