(* ===== verification/Router_Main.thy ===== *)
theory Router_Main
  imports Proxy_Start Health_Server Affinity
begin

text \<open>
  The router (\<open>Router\<close> in \<open>src/router.rs\<close>): construction, queries, reload, the start of an instance,
  and one tick of each periodic task. The broadcast channels and the configuration loader are
  arguments. The life of a router is in \<open>Router_Lifecycle\<close>.
\<close>

section \<open>The router\<close>

record 'c router =
  rt_config :: config
  rt_manager :: "'c proxy_manager"
  rt_metrics_server :: "'c metrics_server option"
  rt_health_server :: "'c health_server option"
  rt_shutdown :: 'c
  rt_running :: "(string \<times> balancer) list"

definition router_new :: "'c channel_lib \<Rightarrow> config \<Rightarrow> 'c router" where
  "router_new ch config =
     \<lparr>rt_config = config, rt_manager = proxy_manager_new ch,
      rt_metrics_server =
        (if mc_enabled (g_metrics (cfg_global config))
         then Some (metrics_server_new ch (g_metrics (cfg_global config))) else None),
      rt_health_server =
        (if hc_enabled (g_health_check (cfg_global config))
         then Some (health_server_new ch (g_health_check (cfg_global config))) else None),
      rt_shutdown = ch_new ch, rt_running = []\<rparr>"

definition router_from_file ::
  "'c channel_lib \<Rightarrow> (string \<Rightarrow> config result) \<Rightarrow> string \<Rightarrow> 'c router result" where
  "router_from_file ch from_file path =
     res_bind (from_file path) (\<lambda>config. Inr (router_new ch config))"

definition router_default :: "'c channel_lib \<Rightarrow> 'c router" where
  "router_default ch =
     router_new ch \<lparr>cfg_global = global_config_default, cfg_proxy_instances = []\<rparr>"

definition trigger_shutdown :: "'c channel_lib \<Rightarrow> 'c router \<Rightarrow> unit result \<times> 'c router" where
  "trigger_shutdown ch rt =
     (let (e, c) = ch_send ch (rt_shutdown rt); rt = rt\<lparr>rt_shutdown := c\<rparr>
      in case e of
           Some text \<Rightarrow> (Inl (err_internal (''Failed to send shutdown signal: '' @ text)), rt)
         | None \<Rightarrow> (Inr (), rt))"

definition get_instance_config :: "'c router \<Rightarrow> string \<Rightarrow> proxy_instance_config option" where
  "get_instance_config rt name = get_instance (rt_config rt) name"

definition get_all_instance_configs :: "'c router \<Rightarrow> proxy_instance_config list" where
  "get_all_instance_configs rt = cfg_proxy_instances (rt_config rt)"

definition get_config :: "'c router \<Rightarrow> config" where
  "get_config rt = rt_config rt"

definition reload_config ::
  "(string \<Rightarrow> config result) \<Rightarrow> string \<Rightarrow> 'c router \<times> metrics_registry \<Rightarrow>
   ('c router \<times> metrics_registry) result" where
  "reload_config from_file path s =
     (let (rt, reg) = s
      in res_bind (from_file path)
           (\<lambda>new_config. Inr (rt\<lparr>rt_config := new_config\<rparr>, record_config_reload reg)))"

section \<open>The start of an instance\<close>

definition instance_strategy :: "proxy_type \<Rightarrow> load_balancing_strategy" where
  "instance_strategy t =
     (case t of Http \<Rightarrow> HealthAware | Tcp \<Rightarrow> LeastConnections | Udp \<Rightarrow> WeightedRoundRobin)"

text \<open>The upstreams the registry tracks are new objects, not the balancer's.\<close>

fun register_upstreams ::
  "instant \<Rightarrow> upstream_config list \<Rightarrow> upstream_heap \<times> metrics_registry \<Rightarrow>
   upstream_heap \<times> metrics_registry" where
  "register_upstreams now [] s = s"
| "register_upstreams now (c # cs) s =
     (let (h, reg) = s; (p, h) = arc_new (upstream_info_new now c) h
      in register_upstreams now cs (h, add_upstream h p reg))"

text \<open>The state of the process: the router, the global registry and the heap of upstreams.\<close>

record 'c world =
  w_router :: "'c router"
  w_registry :: metrics_registry
  w_heap :: upstream_heap

text \<open>
  \<open>start_proxy_instance\<close> up to the call of the proxy's \<open>start\<close>: the implementation with the balancer,
  or the error with the state it leaves.
\<close>

definition prepare_instance ::
  "(string \<Rightarrow> u64) \<Rightarrow> 'h http_lib \<Rightarrow> 'c channel_lib \<Rightarrow> instant \<Rightarrow> proxy_instance_config \<Rightarrow>
   'c world \<Rightarrow> (proxy_impl \<times> balancer) result \<times> 'c world" where
  "prepare_instance hasher lib ch now config w =
     (let strategy = instance_strategy (inst_proxy_type config)
      in case update_upstreams hasher now (inst_upstreams config)
                (w_heap w, balancer_new strategy) of
           Inl e \<Rightarrow> (Inl e, w)
         | Inr (h, load_balancer) \<Rightarrow>
             (let (h, reg) = register_upstreams now (inst_upstreams config) (h, w_registry w);
                  w = w\<lparr>w_heap := h, w_registry := reg\<rparr>
              in case prepare_proxy lib ch config (rt_manager (w_router w)) of
                   Inl e \<Rightarrow> (Inl e, w)
                 | Inr (p, mgr) \<Rightarrow>
                     (Inr (p, load_balancer),
                      w\<lparr>w_router := (w_router w)\<lparr>rt_manager := mgr\<rparr>\<rparr>)))"

section \<open>The periodic tasks\<close>

text \<open>
  What \<open>start_periodic_tasks\<close> spawns: a task is the period of its ticker, in nanoseconds, or none when
  tokio's \<open>interval\<close> panics, which it does for a zero period. The metrics task first, then the monitoring.
\<close>

definition tokio_interval :: "duration \<Rightarrow> duration option" where
  "tokio_interval period = (if period = 0 then None else Some period)"

definition start_metrics_collection_task :: "config \<Rightarrow> duration option" where
  "start_metrics_collection_task config =
     (let metrics_interval = unat (mc_interval_secs (g_metrics (cfg_global config))) * 1000000000
      in tokio_interval metrics_interval)"

definition start_health_monitoring_task :: "duration option" where
  "start_health_monitoring_task = (let health_check_interval = 30 * 1000000000
     in tokio_interval health_check_interval)"

definition start_periodic_tasks :: "config \<Rightarrow> duration option list" where
  "start_periodic_tasks config = [start_metrics_collection_task config, start_health_monitoring_task]"

text \<open>
  The monitoring always runs; the collection dies exactly for a zero interval, which validation lets
  pass when the metrics server is disabled.
\<close>

lemma start_metrics_collection_task_None:
  "start_metrics_collection_task config = None \<longleftrightarrow>
     mc_interval_secs (g_metrics (cfg_global config)) = 0"
  by (auto simp: start_metrics_collection_task_def tokio_interval_def unat_eq_zero)

lemma periodic_tasks_of_valid:
  assumes "config_validate config = Inr ()"
  shows "None \<in> set (start_periodic_tasks config) \<longrightarrow> \<not> mc_enabled (g_metrics (cfg_global config))"
  using assms
  by (auto simp: start_periodic_tasks_def eq_commute [of None] start_metrics_collection_task_None
      config_validate_ok valid_config_def valid_global_def start_health_monitoring_task_def tokio_interval_def)

lemma zero_interval_accepted:
  "let g = global_config_default in
   let config = \<lparr>cfg_global = g\<lparr>g_metrics := (g_metrics g)\<lparr>mc_enabled := False, mc_interval_secs := 0\<rparr>\<rparr>,
                 cfg_proxy_instances = []\<rparr>
   in config_validate config = config_validate \<lparr>cfg_global = g, cfg_proxy_instances = []\<rparr> \<and>
      start_metrics_collection_task config = None"
  by (simp add: Let_def config_validate_def global_validate_def start_metrics_collection_task_None
      global_config_default_def metrics_config_default_def default_metrics_interval_def)

section \<open>Metrics collection\<close>

text \<open>One tick of the collection task; the key is the type's name, not the instance's.\<close>

fun store_metrics :: "(proxy_type \<times> proxy_metrics) list \<Rightarrow> metrics_registry \<Rightarrow> metrics_registry" where
  "store_metrics [] reg = reg"
| "store_metrics ((t, m) # ms) reg = store_metrics ms (update_proxy_metrics (show_proxy_type t) m reg)"

definition collection_tick :: "'c proxy_manager \<Rightarrow> metrics_registry \<Rightarrow> metrics_registry" where
  "collection_tick mgr reg =
     (case get_all_metrics mgr of
        Inr all_metrics \<Rightarrow> store_metrics all_metrics reg
      | Inl e \<Rightarrow> reg)"

section \<open>Health monitoring\<close>

text \<open>One tick of the monitoring task: the lines it logs; a healthy proxy is not mentioned.\<close>

datatype log_line = Log_Error string | Log_Warn string | Log_Info string

fun health_log :: "(proxy_type \<times> proxy_health) list \<Rightarrow> log_line list" where
  "health_log [] = []"
| "health_log ((t, health) # hs) =
     (case ph_status health of
        Unhealthy \<Rightarrow>
          Log_Warn (''Proxy '' @ show_proxy_type t @ '' is unhealthy: '' @ ph_message health) # health_log hs
      | Unknown \<Rightarrow>
          Log_Info (''Proxy '' @ show_proxy_type t @ '' status unknown: '' @ ph_message health) # health_log hs
      | Healthy \<Rightarrow> health_log hs)"

definition monitoring_tick :: "'c proxy_manager \<Rightarrow> log_line list" where
  "monitoring_tick mgr =
     (case health_check_all mgr of
        Inr health_results \<Rightarrow> health_log health_results
      | Inl e \<Rightarrow> [Log_Warn (''Failed to perform health checks: '' @ show_error e)])"

section \<open>Lemmas: shutdown\<close>

lemma trigger_shutdown_unheard:
  assumes "channel_laws ch receivers" "receivers (rt_shutdown rt) = 0"
  shows "\<exists>e. fst (trigger_shutdown ch rt) = Inl (err_internal e)"
proof -
  obtain e c where send: "ch_send ch (rt_shutdown rt) = (e, c)" by fastforce
  have "e \<noteq> None" using assms send unfolding channel_laws_def by (metis fst_conv)
  with send show ?thesis by (auto simp: trigger_shutdown_def)
qed

lemma trigger_shutdown_heard:
  assumes "channel_laws ch receivers" "receivers (rt_shutdown rt) \<noteq> 0"
  shows "fst (trigger_shutdown ch rt) = Inr ()"
proof -
  obtain e c where send: "ch_send ch (rt_shutdown rt) = (e, c)" by fastforce
  have "e = None" using assms send unfolding channel_laws_def by (metis fst_conv)
  with send show ?thesis by (simp add: trigger_shutdown_def)
qed

section \<open>Lemmas: the start of an instance\<close>

lemma register_upstreams_keeps:
  "register_upstreams now cs (h, reg) = (h', reg') \<Longrightarrow>
     mr_proxy_instances_total reg' = mr_proxy_instances_total reg \<and>
     mr_proxy_metrics reg' = mr_proxy_metrics reg"
  by (induction cs arbitrary: h reg) (fastforce simp: arc_new_def add_upstream_def Let_def)+

lemma prepare_instance_keeps:
  "prepare_instance hasher lib ch now c w = (r, w') \<Longrightarrow>
     rt_running (w_router w') = rt_running (w_router w) \<and>
     mr_proxy_instances_total (w_registry w') = mr_proxy_instances_total (w_registry w) \<and>
     mr_proxy_metrics (w_registry w') = mr_proxy_metrics (w_registry w)"
  by (auto simp: prepare_instance_def Let_def dest: register_upstreams_keeps
      split: sum.splits prod.splits)

section \<open>Lemmas: the registry does not see the traffic\<close>

lemma set_alist_update_subset: "set (AList.update k v al) \<subseteq> insert (k, v) (set al)"
  by (induction al) auto

lemma register_upstreams_heap:
  "register_upstreams now cs (h, reg) = (h', reg') \<Longrightarrow> h' = h @ map (upstream_info_new now) cs"
  by (induction cs arbitrary: h reg) (fastforce simp: arc_new_def Let_def)+

lemma register_upstreams_tracked:
  "register_upstreams now cs (h, reg) = (h', reg') \<Longrightarrow>
     snd ` set (mr_upstream_metrics reg') \<subseteq>
       snd ` set (mr_upstream_metrics reg) \<union> {length h..<length h + length cs}"
proof (induction cs arbitrary: h reg)
  case (Cons c cs)
  let ?h = "h @ [upstream_info_new now c]"
  let ?reg = "add_upstream ?h (length h) reg"
  have "register_upstreams now cs (?h, ?reg) = (h', reg')"
    using Cons.prems by (simp add: arc_new_def Let_def)
  from Cons.IH [OF this] have "snd ` set (mr_upstream_metrics reg') \<subseteq>
      snd ` set (mr_upstream_metrics ?reg) \<union> {Suc (length h)..<Suc (length h) + length cs}" by simp
  moreover have "snd ` set (mr_upstream_metrics ?reg) \<subseteq>
      insert (length h) (snd ` set (mr_upstream_metrics reg))"
    using image_mono [OF set_alist_update_subset, of snd _ "length h" "mr_upstream_metrics reg"]
    by (simp add: add_upstream_def)
  moreover have "insert (length h) {Suc (length h)..<Suc (length h) + length cs} \<subseteq>
      {length h..<length h + length (c # cs)}" by auto
  ultimately show ?case by blast
qed simp

definition pristine :: "upstream_stats \<Rightarrow> bool" where
  "pristine s \<longleftrightarrow> (\<exists>now. s = upstream_stats_default now)"

definition tracked :: "'c world \<Rightarrow> arc set" where
  "tracked w = snd ` set (mr_upstream_metrics (w_registry w))"

definition tracked_pristine :: "'c world \<Rightarrow> bool" where
  "tracked_pristine w \<longleftrightarrow>
     (\<forall>p \<in> tracked w. p < length (w_heap w) \<and> pristine (ui_stats (w_heap w ! p)))"

lemma tracked_pristine_traffic:
  assumes "tracked_pristine w" "q \<notin> tracked w"
  shows "tracked_pristine (w\<lparr>w_heap := on_stats f q (w_heap w)\<rparr>)"
    "tracked (w\<lparr>w_heap := on_stats f q (w_heap w)\<rparr>) = tracked w"
proof -
  have "\<forall>p \<in> tracked w. on_stats f q (w_heap w) ! p = w_heap w ! p"
    using assms(2) unfolding on_stats_def by (metis nth_list_update_neq)
  then show "tracked_pristine (w\<lparr>w_heap := on_stats f q (w_heap w)\<rparr>)"
    using assms(1) by (simp add: tracked_pristine_def tracked_def)
qed (simp add: tracked_def)

lemma prepare_instance_blind:
  assumes "tracked_pristine w" and "prepare_instance hasher lib ch now c w = (r, w')"
  shows "tracked_pristine w'"
    "r = Inr (impl, b) \<Longrightarrow> set (lb_upstreams b) \<inter> tracked w' = {}"
proof -
  let ?us = "inst_upstreams c"
  let ?h1 = "w_heap w @ map (upstream_info_new now) ?us"
  obtain h2 reg2 where reg: "register_upstreams now ?us (?h1, w_registry w) = (h2, reg2)" by fastforce
  note spec = register_upstreams_heap [OF reg] register_upstreams_tracked [OF reg]
  from assms(2) reg have w': "w_heap w' = h2" "w_registry w' = reg2"
    by (auto simp: prepare_instance_def update_upstreams_eq Let_def split: sum.splits)
  have new: "pristine (ui_stats (h2 ! p))" if "length (w_heap w) \<le> p" "p < length h2" for p
    using that unfolding spec(1)
    by (auto simp: nth_append pristine_def upstream_info_new_def)
  have old: "h2 ! p = w_heap w ! p" if "p < length (w_heap w)" for p
    using that unfolding spec(1) by (simp add: nth_append)
  note pristine_def' = tracked_pristine_def tracked_def
  show "tracked_pristine w'"
    unfolding pristine_def'
  proof
    fix p assume "p \<in> snd ` set (mr_upstream_metrics (w_registry w'))"
    then have "p \<in> snd ` set (mr_upstream_metrics (w_registry w)) \<union>
        {length ?h1..<length ?h1 + length ?us}" using spec(2) unfolding w' by blast
    then consider "p \<in> snd ` set (mr_upstream_metrics (w_registry w))"
      | "length (w_heap w) \<le> p" "p < length h2"
      by (auto simp: spec(1))
    then show "p < length (w_heap w') \<and> pristine (ui_stats (w_heap w' ! p))"
    proof cases
      case 1
      with assms(1) have "p < length (w_heap w)" "pristine (ui_stats (w_heap w ! p))"
        unfolding pristine_def' by blast+
      then show ?thesis by (simp add: w' old spec(1) nth_append)
    next
      case 2
      then show ?thesis using new by (simp add: w')
    qed
  qed
  assume "r = Inr (impl, b)"
  with assms(2) reg have "lb_upstreams b = [length (w_heap w)..<length (w_heap w) + length ?us]"
    by (auto simp: prepare_instance_def update_upstreams_eq Let_def split: sum.splits)
  moreover have "\<forall>p \<in> snd ` set (mr_upstream_metrics reg2).
      p < length (w_heap w) \<or> length (w_heap w) + length ?us \<le> p"
  proof
    fix p assume "p \<in> snd ` set (mr_upstream_metrics reg2)"
    then have "p \<in> snd ` set (mr_upstream_metrics (w_registry w)) \<or>
        p \<in> {length ?h1..<length ?h1 + length ?us}" using spec(2) by blast
    then show "p < length (w_heap w) \<or> length (w_heap w) + length ?us \<le> p"
      using assms(1) unfolding pristine_def' by (elim disjE) (blast, simp)
  qed
  ultimately show "set (lb_upstreams b) \<inter> tracked w' = {}"
    by (force simp: tracked_def w' disjoint_iff)
qed

section \<open>Lemmas: metrics collection\<close>

text \<open>A tick stores one entry per proxy type, whatever the number of instances.\<close>

lemma store_metrics_get:
  "distinct (map fst ms) \<Longrightarrow>
     map_of (mr_proxy_metrics (store_metrics ms reg)) (show_proxy_type t) =
       (case map_of ms t of Some m \<Rightarrow> Some m
        | None \<Rightarrow> map_of (mr_proxy_metrics reg) (show_proxy_type t))"
proof (induction ms reg rule: store_metrics.induct)
  case (2 t' m ms reg)
  have inj: "show_proxy_type a = show_proxy_type b \<longleftrightarrow> a = b" for a b
    by (cases a; cases b) (simp_all add: show_proxy_type_def)
  from 2 have "t' \<notin> fst ` set ms" by simp
  then have "map_of ms t' = None" by (simp add: map_of_eq_None_iff)
  with 2 inj show ?case by (auto simp: update_proxy_metrics_get split: option.splits)
qed simp

lemma store_metrics_upstreams: "mr_upstream_metrics (store_metrics ms reg) = mr_upstream_metrics reg"
  by (induction ms reg rule: store_metrics.induct) (simp_all add: update_proxy_metrics_def)

lemma collection_tick_upstreams [simp]:
  "mr_upstream_metrics (collection_tick mgr reg) = mr_upstream_metrics reg"
  by (simp add: collection_tick_def store_metrics_upstreams split: sum.split)

lemma collection_tick_get:
  assumes "manager_wf mgr"
  shows "map_of (mr_proxy_metrics (collection_tick mgr reg)) (show_proxy_type t) =
    (case map_of (pmg_proxies mgr) t of
       Some p \<Rightarrow> (case impl_metrics p of Inr m \<Rightarrow> Some m | Inl _ \<Rightarrow> None) | None \<Rightarrow> None)"
proof -
  have "distinct (map fst (collect_metrics (pmg_proxies mgr)))"
    using assms by (simp add: collect_metrics_keys manager_wf_def)
  moreover have "t \<in> fst ` set (pmg_proxies mgr)"
    using assms by (cases t) (simp_all add: manager_wf_def)
  then obtain p where "map_of (pmg_proxies mgr) t = Some p"
    by (metis map_of_eq_None_iff not_None_eq)
  ultimately show ?thesis
    using impl_metrics_ok [of p]
    by (auto simp: collection_tick_def get_all_metrics_def store_metrics_get map_of_collect_metrics)
qed

text \<open>A fresh manager's monitoring mentions the HTTP proxy only.\<close>

lemma monitoring_tick_new:
  "\<exists>text. monitoring_tick (proxy_manager_new ch) = [Log_Info (''Proxy Http status unknown: '' @ text)]"
  using health_check_all_new [of ch] by (auto simp: monitoring_tick_def show_proxy_type_def)

text \<open>What is logged of a proxy is exactly its state when it is not healthy.\<close>

lemma health_log_length:
  "length (health_log hs) = length (filter (\<lambda>(t, health). ph_status health \<noteq> Healthy) hs)"
  by (induction hs rule: health_log.induct) (auto split: health_state.split)

section \<open>Lemmas: reload\<close>

lemma reload_config_ok:
  assumes "reload_config from_file path (rt, reg) = Inr (rt', reg')"
  shows "from_file path = Inr (rt_config rt')" "rt_manager rt' = rt_manager rt"
    "rt_running rt' = rt_running rt" "mr_config_reloads reg' = mr_config_reloads reg + 1"
  using assms by (auto simp: reload_config_def res_simps record_config_reload_def)

section \<open>Properties\<close>

text \<open>Registering the upstreams of an instance tracks exactly its upstream names, but counts every
one of them: a name that another instance already uses is counted again and replaces the entry.\<close>

lemma registered_upstreams_counted:
  "case register_upstreams now cs (h, reg) of (h1, reg1) \<Rightarrow>
     fst ` set (mr_upstream_metrics reg1) = fst ` set (mr_upstream_metrics reg) \<union> up_name ` set cs \<and>
     mr_upstreams_total reg1 = mr_upstreams_total reg + word_of_nat (length cs)"
proof (induction cs arbitrary: h reg)
  case (Cons c cs)
  let ?h = "h @ [upstream_info_new now c]"
  have "fst ` set (mr_upstream_metrics (add_upstream ?h (length h) reg)) =
      insert (up_name c) (fst ` set (mr_upstream_metrics reg))"
    using dom_update [of "up_name c" "length h" "mr_upstream_metrics reg"]
    by (simp add: add_upstream_def upstream_info_new_def)
  with Cons.IH [where h = ?h and reg = "add_upstream ?h (length h) reg"] show ?case
    by (auto simp: arc_new_def Let_def add_upstream_def split: prod.splits)
qed simp

text \<open>A collection tick files the metrics of the three proxy implementations under the names of
their types, whatever the instances are called and however many there are.\<close>

lemma collection_per_type:
  assumes "manager_wf mgr"
  shows "\<exists>p m. map_of (pmg_proxies mgr) t = Some p \<and> impl_type p = t \<and> impl_metrics p = Inr m \<and>
    map_of (mr_proxy_metrics (collection_tick mgr reg)) (show_proxy_type t) = Some m"
proof -
  have "t \<in> fst ` set (pmg_proxies mgr)"
    using assms by (cases t) (simp_all add: manager_wf_def)
  then obtain p where p: "map_of (pmg_proxies mgr) t = Some p"
    by (metis map_of_eq_None_iff not_None_eq)
  from map_of_SomeD [OF p] assms have "impl_type p = t" by (auto simp: manager_wf_def)
  with p impl_metrics_ok [of p] collection_tick_get [OF assms, of reg t] show ?thesis by auto
qed

text \<open>Triggering a shutdown succeeds exactly if something listens, and nothing listens to a fresh
router: its trigger is an internal error.\<close>

lemma trigger_shutdown_needs_listener:
  assumes "channel_laws ch receivers"
  shows "(fst (trigger_shutdown ch rt) = Inr () \<longleftrightarrow> receivers (rt_shutdown rt) \<noteq> 0) \<and>
    (\<exists>e. fst (trigger_shutdown ch (router_new ch config)) = Inl (err_internal e))"
proof -
  have "receivers (rt_shutdown (router_new ch config)) = 0"
    using assms by (simp add: router_new_def channel_laws_def)
  with trigger_shutdown_unheard [OF assms] trigger_shutdown_heard [OF assms] show ?thesis
    by (metis Inl_not_Inr)
qed


section \<open>Witnesses\<close>

text \<open>A router for the TCP instance of the service loops.\<close>

definition test_router :: "proxy_instance_config list \<Rightarrow> nat router" where
  "test_router instances =
     router_new count_channel \<lparr>cfg_global = global_config_default, cfg_proxy_instances = instances\<rparr>"

lemma test_router_instances [simp]: "cfg_proxy_instances (rt_config (test_router cs)) = cs"
  by (simp add: test_router_def router_new_def)


end
