(* ===== verification/Router_Lifecycle.thy ===== *)
theory Router_Lifecycle
  imports Router_Main
begin

text \<open>
  The life of the router (\<open>Router::start\<close> in \<open>src/router.rs\<close>) as a step relation, with the two servers
  that run beside it, and how its end decides the exit status of the program.
\<close>

section \<open>The wait for a signal\<close>

text \<open>
  The branches of the \<open>select!\<close> that are ready after the given signals. A handler that cannot be
  registered makes its branch ready at once: its error is only discarded or logged. The third branch
  exists on Unix only.
\<close>

datatype wait_branch = Ctrl_C | Programmatic | Sigterm

definition wait_for_sigterm :: "string option \<Rightarrow> wait_branch list \<Rightarrow> bool" where
  "wait_for_sigterm registration_error signals \<longleftrightarrow>
     (case registration_error of Some e \<Rightarrow> True | None \<Rightarrow> Sigterm \<in> set signals)"

definition wait_for_shutdown ::
  "bool \<Rightarrow> string option \<Rightarrow> string option \<Rightarrow> wait_branch list \<Rightarrow> wait_branch list" where
  "wait_for_shutdown unix ctrl_c_error sigterm_error signals =
     (if ctrl_c_error \<noteq> None \<or> Ctrl_C \<in> set signals then [Ctrl_C] else []) @
     (if Programmatic \<in> set signals then [Programmatic] else []) @
     (if unix \<and> wait_for_sigterm sigterm_error signals then [Sigterm] else [])"

section \<open>The lifecycle\<close>

text \<open>
  What the router runs on: binding, hyper's server on an address, the registration of the signal
  handlers, the writers of the metrics page.
\<close>

record 'e platform =
  os_bind :: "socket_addr \<Rightarrow> string option"
  os_hyper :: "socket_addr \<Rightarrow> 'e hyper_server"
  os_unix :: bool
  os_ctrl_c :: "string option"
  os_sigterm :: "string option"
  os_show_f64 :: "f64 \<Rightarrow> string"
  os_to_json :: "system_health \<Rightarrow> string"

text \<open>
  Where \<open>Router::start\<close> stands: the instances still to start; the proxy whose \<open>start\<close> it awaits, with
  what that has seen and the instances after it; the wait for a signal with the signals since; the
  ends.
\<close>

datatype 'e phase =
    Starting "proxy_instance_config list"
  | Awaiting proxy_instance_config proxy_impl balancer "'e serve_event list" "proxy_instance_config list"
  | Waiting "wait_branch list"
  | Finished
  | Failed error
  | Panicked

fun running :: "'e phase \<Rightarrow> bool" where
  "running Finished = False"
| "running (Failed e) = False"
| "running Panicked = False"
| "running _ = True"

text \<open>
  The release profile of \<open>Cargo.toml\<close>, which the image is built with, sets \<open>panic = "abort"\<close>: a panic
  in any task ends the process. So \<open>Panicked\<close> is where the router stands after a panic anywhere, its
  own or that of a task it has spawned.
\<close>

definition after_task :: "start_outcome \<Rightarrow> 'e phase \<Rightarrow> 'e phase" where
  "after_task r ph = (if r = Bind_Panic then Panicked else ph)"

text \<open>
  \<open>lc_stop_sent\<close>: the manager's channel has been sent a message since the proxy subscribed. The tasks
  of the two servers are spawned first: \<open>None\<close> until they have been polled.
\<close>

record ('c, 'e) lifecycle =
  lc_phase :: "'e phase"
  lc_world :: "'c world"
  lc_stop_sent :: bool
  lc_metrics_task :: "start_outcome option"
  lc_health_task :: "start_outcome option"

definition mark_running :: "proxy_instance_config \<Rightarrow> balancer \<Rightarrow> 'c world \<Rightarrow> 'c world" where
  "mark_running config load_balancer w =
     w\<lparr>w_router := (w_router w)\<lparr>rt_running :=
        AList.update (inst_name config) load_balancer (rt_running (w_router w))\<rparr>\<rparr>"

definition started_all :: "'c world \<Rightarrow> 'c world" where
  "started_all w =
     w\<lparr>w_registry := set_proxy_instances_count
        (word_of_nat (length (cfg_proxy_instances (rt_config (w_router w))))) (w_registry w)\<rparr>"

text \<open>The manager, then the two servers; their errors are only logged.\<close>

definition router_shutdown :: "'c channel_lib \<Rightarrow> 'c world \<Rightarrow> 'c world" where
  "router_shutdown ch w =
     (let rt = w_router w;
          rt = rt\<lparr>rt_manager := snd (manager_shutdown ch (rt_manager rt))\<rparr>;
          rt = rt\<lparr>rt_metrics_server :=
                 map_option (\<lambda>srv. snd (metrics_server_shutdown ch srv)) (rt_metrics_server rt)\<rparr>;
          rt = rt\<lparr>rt_health_server :=
                 map_option (\<lambda>srv. snd (health_server_shutdown ch srv)) (rt_health_server rt)\<rparr>
      in w\<lparr>w_router := rt\<rparr>)"

text \<open>
  In the relation, \<open>session_aborted\<close> is the \<open>unwrap\<close> on the socket of a new UDP session's listener,
  \<open>collection_aborted\<close> and \<open>memory_aborted\<close> are tickers with a zero period.
\<close>

inductive lifecycle_step ::
  "(string \<Rightarrow> u64) \<Rightarrow> 'h http_lib \<Rightarrow> 'c channel_lib \<Rightarrow> 'e platform \<Rightarrow>
   ('c, 'e) lifecycle \<Rightarrow> ('c, 'e) lifecycle \<Rightarrow> bool"
  for hasher lib ch pf where
  instance_rejected:
    "lc_phase y = Starting (c # cs) \<Longrightarrow>
     prepare_instance hasher lib ch now c (lc_world y) = (Inl e, w) \<Longrightarrow>
     lifecycle_step hasher lib ch pf y (y\<lparr>lc_phase := Failed e, lc_world := w\<rparr>)"
| instance_started:
    "lc_phase y = Starting (c # cs) \<Longrightarrow>
     prepare_instance hasher lib ch now c (lc_world y) = (Inr (p, b), w) \<Longrightarrow>
     lifecycle_step hasher lib ch pf y
       (y\<lparr>lc_phase := Awaiting c p b [] cs, lc_world := w, lc_stop_sent := False\<rparr>)"
| instance_event:
    "lc_phase y = Awaiting c p b es cs \<Longrightarrow>
     impl_start (os_hyper pf (inst_listen_addr c)) (os_bind pf) p c es = Serving \<Longrightarrow>
     ev = Stop_Received \<longrightarrow> lc_stop_sent y \<Longrightarrow>
     lifecycle_step hasher lib ch pf y (y\<lparr>lc_phase := Awaiting c p b (es @ [ev]) cs\<rparr>)"
| instance_returned:
    "lc_phase y = Awaiting c p b es cs \<Longrightarrow>
     impl_start (os_hyper pf (inst_listen_addr c)) (os_bind pf) p c es = Returned (Inr ()) \<Longrightarrow>
     lifecycle_step hasher lib ch pf y
       (y\<lparr>lc_phase := Starting cs, lc_world := mark_running c b (lc_world y)\<rparr>)"
| instance_failed:
    "lc_phase y = Awaiting c p b es cs \<Longrightarrow>
     impl_start (os_hyper pf (inst_listen_addr c)) (os_bind pf) p c es = Returned (Inl e) \<Longrightarrow>
     lifecycle_step hasher lib ch pf y (y\<lparr>lc_phase := Failed e\<rparr>)"
| instance_panicked:
    "lc_phase y = Awaiting c p b es cs \<Longrightarrow>
     impl_start (os_hyper pf (inst_listen_addr c)) (os_bind pf) p c es = Bind_Panic \<Longrightarrow>
     lifecycle_step hasher lib ch pf y (y\<lparr>lc_phase := Panicked\<rparr>)"
| traffic:
    "lc_phase y = Awaiting c p b es cs \<Longrightarrow> q \<in> set (lb_upstreams b) \<Longrightarrow>
     lifecycle_step hasher lib ch pf y
       (y\<lparr>lc_world := (lc_world y)\<lparr>w_heap := on_stats f q (w_heap (lc_world y))\<rparr>\<rparr>)"
| session_aborted:
    "lc_phase y = Awaiting c (Udp_Impl u) b es cs \<Longrightarrow> lb_upstreams b \<noteq> [] \<Longrightarrow>
     lifecycle_step hasher lib ch pf y (y\<lparr>lc_phase := Panicked\<rparr>)"
| all_started:
    "lc_phase y = Starting [] \<Longrightarrow>
     lifecycle_step hasher lib ch pf y
       (y\<lparr>lc_phase := Waiting [], lc_world := started_all (lc_world y)\<rparr>)"
| signal_arrived:
    "lc_phase y = Waiting signals \<Longrightarrow>
     lifecycle_step hasher lib ch pf y (y\<lparr>lc_phase := Waiting (signals @ [signal])\<rparr>)"
| collected:
    "lc_phase y = Waiting signals \<Longrightarrow>
     start_metrics_collection_task (rt_config (w_router (lc_world y))) \<noteq> None \<Longrightarrow>
     lifecycle_step hasher lib ch pf y
       (y\<lparr>lc_world := (lc_world y)\<lparr>w_registry :=
            collection_tick (rt_manager (w_router (lc_world y))) (w_registry (lc_world y))\<rparr>\<rparr>)"
| collection_aborted:
    "lc_phase y = Waiting signals \<Longrightarrow>
     start_metrics_collection_task (rt_config (w_router (lc_world y))) = None \<Longrightarrow>
     lifecycle_step hasher lib ch pf y (y\<lparr>lc_phase := Panicked\<rparr>)"
| shut_down:
    "lc_phase y = Waiting signals \<Longrightarrow>
     wait_for_shutdown (os_unix pf) (os_ctrl_c pf) (os_sigterm pf) signals \<noteq> [] \<Longrightarrow>
     lifecycle_step hasher lib ch pf y
       (y\<lparr>lc_phase := Finished, lc_world := router_shutdown ch (lc_world y), lc_stop_sent := True\<rparr>)"
| metrics_server_polled:
    "running (lc_phase y) \<Longrightarrow> lc_metrics_task y = None \<Longrightarrow>
     rt_metrics_server (w_router (lc_world y)) = Some srv \<Longrightarrow>
     metrics_server_start ch (os_hyper pf (mc_listen_addr (mts_config srv))) (os_bind pf) [] srv =
       (r, srv') \<Longrightarrow>
     lifecycle_step hasher lib ch pf y
       (y\<lparr>lc_phase := after_task r (lc_phase y), lc_metrics_task := Some r, lc_world := (lc_world y)\<lparr>w_router :=
            (w_router (lc_world y))\<lparr>rt_metrics_server := Some srv'\<rparr>\<rparr>\<rparr>)"
| memory_collected:
    "running (lc_phase y) \<Longrightarrow> lc_metrics_task y = Some r \<Longrightarrow>
     rt_metrics_server (w_router (lc_world y)) = Some srv \<Longrightarrow> mc_enabled (mts_config srv) \<Longrightarrow>
     memory_tick (mts_config srv) (w_registry (lc_world y)) = Some reg \<Longrightarrow>
     lifecycle_step hasher lib ch pf y (y\<lparr>lc_world := (lc_world y)\<lparr>w_registry := reg\<rparr>\<rparr>)"
| memory_aborted:
    "running (lc_phase y) \<Longrightarrow> lc_metrics_task y = Some r \<Longrightarrow>
     rt_metrics_server (w_router (lc_world y)) = Some srv \<Longrightarrow> mc_enabled (mts_config srv) \<Longrightarrow>
     memory_tick (mts_config srv) (w_registry (lc_world y)) = None \<Longrightarrow>
     lifecycle_step hasher lib ch pf y (y\<lparr>lc_phase := Panicked\<rparr>)"
| metrics_requested:
    "running (lc_phase y) \<Longrightarrow> lc_metrics_task y = Some Serving \<Longrightarrow>
     rt_metrics_server (w_router (lc_world y)) = Some srv \<Longrightarrow>
     metrics_handle_request (os_show_f64 pf) (os_to_json pf) now timestamp (w_heap (lc_world y))
       (mc_path (mts_config srv)) path (w_registry (lc_world y)) = (response, reg) \<Longrightarrow>
     lifecycle_step hasher lib ch pf y (y\<lparr>lc_world := (lc_world y)\<lparr>w_registry := reg\<rparr>\<rparr>)"
| health_server_polled:
    "running (lc_phase y) \<Longrightarrow> lc_health_task y = None \<Longrightarrow>
     rt_health_server (w_router (lc_world y)) = Some srv \<Longrightarrow>
     health_server_start ch (os_hyper pf (hc_listen_addr (hls_config srv))) (os_bind pf) [] srv =
       (r, srv') \<Longrightarrow>
     lifecycle_step hasher lib ch pf y
       (y\<lparr>lc_phase := after_task r (lc_phase y), lc_health_task := Some r, lc_world := (lc_world y)\<lparr>w_router :=
            (w_router (lc_world y))\<lparr>rt_health_server := Some srv'\<rparr>\<rparr>\<rparr>)"

definition lifecycle_reachable ::
  "(string \<Rightarrow> u64) \<Rightarrow> 'h http_lib \<Rightarrow> 'c channel_lib \<Rightarrow> 'e platform \<Rightarrow>
   ('c, 'e) lifecycle \<Rightarrow> ('c, 'e) lifecycle \<Rightarrow> bool" where
  "lifecycle_reachable hasher lib ch pf = (lifecycle_step hasher lib ch pf)\<^sup>*\<^sup>*"

definition router_start :: "'c router \<Rightarrow> metrics_registry \<Rightarrow> upstream_heap \<Rightarrow> ('c, 'e) lifecycle" where
  "router_start rt reg h =
     \<lparr>lc_phase = Starting (cfg_proxy_instances (rt_config rt)),
      lc_world = \<lparr>w_router = rt, w_registry = reg, w_heap = h\<rparr>, lc_stop_sent = False,
      lc_metrics_task = None, lc_health_task = None\<rparr>"

section \<open>The exit status\<close>

datatype main_outcome = Exit_Failure | Exit_Success | Run_Router config

text \<open>
  \<open>run_router\<close>: the end of \<open>Router::start\<close> decides the exit status, unless a panic has aborted the
  process before.
\<close>

definition run_router_exit :: "'e phase \<Rightarrow> main_outcome option" where
  "run_router_exit ph =
     (case ph of Finished \<Rightarrow> Some Exit_Success | Failed e \<Rightarrow> Some Exit_Failure
      | Panicked \<Rightarrow> Some Exit_Failure | _ \<Rightarrow> None)"

section \<open>Invariants\<close>

lemma lifecycle_invariant:
  assumes "lifecycle_reachable hasher lib ch pf y y'" "P y"
    and "\<And>z z'. lifecycle_step hasher lib ch pf z z' \<Longrightarrow> P z \<Longrightarrow> P z'"
  shows "P y'"
  using assms(1) unfolding lifecycle_reachable_def
  by (induction rule: rtranclp_induct) (use assms(2,3) in blast)+

text \<open>No step is possible after the end.\<close>

lemma lifecycle_step_running: "lifecycle_step hasher lib ch pf y y' \<Longrightarrow> running (lc_phase y)"
  by (erule lifecycle_step.cases) auto

lemma mark_running_simps [simp]:
  "w_registry (mark_running c b w) = w_registry w" "w_heap (mark_running c b w) = w_heap w"
  by (simp_all add: mark_running_def)

lemma started_all_simps [simp]:
  "mr_upstream_metrics (w_registry (started_all w)) = mr_upstream_metrics (w_registry w)"
  "w_heap (started_all w) = w_heap w" "w_router (started_all w) = w_router w"
  by (simp_all add: started_all_def set_proxy_instances_count_def)

lemma router_shutdown_simps [simp]:
  "w_registry (router_shutdown ch w) = w_registry w" "w_heap (router_shutdown ch w) = w_heap w"
  by (simp_all add: router_shutdown_def Let_def)

lemma prepare_instance_servers:
  "prepare_instance hasher lib ch now c w = (r, w') \<Longrightarrow>
     rt_metrics_server (w_router w') = rt_metrics_server (w_router w)"
  by (auto simp: prepare_instance_def Let_def split: sum.splits prod.splits)

lemmas registry_effects = memory_tick_def update_memory_usage_def update_uptime_def

section \<open>Lemmas: only the first instance is ever served\<close>

text \<open>
  \<open>start\<close> of a proxy returns after the manager's shutdown message, and that message is sent after
  all instances have been started. So from a configuration with an instance the router never gets
  past the first one, and what it does only afterwards never happens.
\<close>

fun at_first :: "proxy_instance_config \<Rightarrow> proxy_instance_config list \<Rightarrow> 'e phase \<Rightarrow> bool" where
  "at_first c cs (Starting cs') \<longleftrightarrow> cs' = c # cs"
| "at_first c cs (Awaiting c' p b es cs') \<longleftrightarrow> c' = c \<and> cs' = cs \<and> Stop_Received \<notin> set es"
| "at_first c cs (Waiting signals) \<longleftrightarrow> False"
| "at_first c cs Finished \<longleftrightarrow> False"
| "at_first c cs (Failed e) \<longleftrightarrow> True"
| "at_first c cs Panicked \<longleftrightarrow> True"

definition held ::
  "proxy_instance_config \<Rightarrow> proxy_instance_config list \<Rightarrow> (string \<times> balancer) list \<Rightarrow>
   ('c, 'e) lifecycle \<Rightarrow> bool" where
  "held c cs bs y \<longleftrightarrow>
     at_first c cs (lc_phase y) \<and> \<not> lc_stop_sent y \<and> rt_running (w_router (lc_world y)) = bs"

lemma lifecycle_step_held:
  assumes "\<forall>addr. graceful (os_hyper pf addr)"
    and "lifecycle_step hasher lib ch pf y y'" "held c cs bs y"
  shows "held c cs bs y'"
  using assms(2)
proof cases
  case (instance_returned c' p b es cs')
  then have "Stop_Received \<in> set es" using impl_start_ok assms(1) by blast
  with instance_returned(2) assms(3) show ?thesis by (simp add: held_def)
qed (use assms(3) in \<open>auto simp: held_def after_task_def dest: prepare_instance_keeps\<close>)

text \<open>The registry of a router that is held: no instance counted, no metrics of a proxy.\<close>

definition unstarted :: "usize \<Rightarrow> metrics_registry \<Rightarrow> bool" where
  "unstarted n reg \<longleftrightarrow> mr_proxy_instances_total reg = n \<and> mr_proxy_metrics reg = []"

lemma lifecycle_step_unstarted:
  assumes "lifecycle_step hasher lib ch pf y y'"
    and "held c cs bs y" "unstarted n (w_registry (lc_world y))"
  shows "unstarted n (w_registry (lc_world y'))"
  using assms(1)
proof cases
  case (metrics_requested srv now timestamp path response reg)
  with metrics_handle_request_registry [OF metrics_requested(5)] assms(3) show ?thesis
    by (auto simp: unstarted_def update_uptime_def)
qed (use assms(2,3) in \<open>auto simp: held_def unstarted_def registry_effects split: if_splits
    dest: prepare_instance_keeps\<close>)

lemma router_start_held:
  assumes "cfg_proxy_instances (rt_config rt) = c # cs"
    and "\<forall>addr. graceful (os_hyper pf addr)"
    and "lifecycle_reachable hasher lib ch pf (router_start rt reg h) y"
  shows "held c cs (rt_running rt) y"
proof (rule lifecycle_invariant [OF assms(3)])
  show "held c cs (rt_running rt) (router_start rt reg h)"
    using assms(1) by (simp add: held_def router_start_def)
qed (rule lifecycle_step_held [OF assms(2)])

lemma router_start_unstarted:
  assumes "cfg_proxy_instances (rt_config rt) = c # cs"
    and "\<forall>addr. graceful (os_hyper pf addr)"
    and "lifecycle_reachable hasher lib ch pf (router_start rt reg h) y" "unstarted n reg"
  shows "unstarted n (w_registry (lc_world y))"
proof -
  have "held c cs (rt_running rt) y \<and> unstarted n (w_registry (lc_world y))"
  proof (rule lifecycle_invariant [OF assms(3)])
    show "held c cs (rt_running rt) (router_start rt reg h) \<and>
        unstarted n (w_registry (lc_world (router_start rt reg h)))"
      using assms(1,4) by (simp add: held_def router_start_def)
  qed (use lifecycle_step_held [OF assms(2)] lifecycle_step_unstarted in blast)
  then show ?thesis ..
qed

section \<open>Lemmas: a router without instances\<close>

fun idle :: "'e phase \<Rightarrow> bool" where
  "idle (Starting cs) \<longleftrightarrow> cs = []"
| "idle (Waiting signals) \<longleftrightarrow> True"
| "idle Finished \<longleftrightarrow> True"
| "idle _ \<longleftrightarrow> False"

text \<open>
  No task of the router can panic: the addresses of the enabled servers are free, and the period of
  the tickers is not zero.
\<close>

definition tasks_safe :: "'e platform \<Rightarrow> 'c router \<Rightarrow> bool" where
  "tasks_safe pf rt \<longleftrightarrow>
     (case rt_metrics_server rt of None \<Rightarrow> True
      | Some srv \<Rightarrow> mc_enabled (mts_config srv) \<longrightarrow>
          os_bind pf (mc_listen_addr (mts_config srv)) = None \<and> mc_interval_secs (mts_config srv) \<noteq> 0) \<and>
     (case rt_health_server rt of None \<Rightarrow> True
      | Some srv \<Rightarrow> hc_enabled (hls_config srv) \<longrightarrow>
          os_bind pf (hc_listen_addr (hls_config srv)) = None) \<and>
     start_metrics_collection_task (rt_config rt) \<noteq> None"

lemma hyper_start_panic: "hyper_start label hyper bind addr es = Bind_Panic \<longleftrightarrow> bind addr \<noteq> None"
  by (simp add: hyper_start_def split: option.split)

lemma metrics_server_start_facts:
  "metrics_server_start ch hyper bind es srv = (r, srv') \<Longrightarrow>
     mts_config srv' = mts_config srv \<and>
     (r = Bind_Panic \<longleftrightarrow> mc_enabled (mts_config srv) \<and> bind (mc_listen_addr (mts_config srv)) \<noteq> None)"
  by (auto simp: metrics_server_start_def hyper_start_panic split: if_splits)

lemma health_server_start_facts:
  "health_server_start ch hyper bind es srv = (r, srv') \<Longrightarrow>
     hls_config srv' = hls_config srv \<and>
     (r = Bind_Panic \<longleftrightarrow> hc_enabled (hls_config srv) \<and> bind (hc_listen_addr (hls_config srv)) \<noteq> None)"
  by (auto simp: health_server_start_def hyper_start_panic split: if_splits)

lemma router_shutdown_safe: "tasks_safe pf (w_router (router_shutdown ch w)) = tasks_safe pf (w_router w)"
  by (simp add: tasks_safe_def router_shutdown_def metrics_server_shutdown_def
      health_server_shutdown_def Let_def split: option.split)

lemma lifecycle_step_idle:
  assumes "lifecycle_step hasher lib ch pf y y'"
    and "idle (lc_phase y) \<and> tasks_safe pf (w_router (lc_world y))"
  shows "idle (lc_phase y') \<and> tasks_safe pf (w_router (lc_world y'))"
  using assms(1)
proof cases
  case (metrics_server_polled srv r srv')
  from metrics_server_start_facts [OF metrics_server_polled(5)] metrics_server_polled assms(2)
  show ?thesis by (auto simp: tasks_safe_def after_task_def)
next
  case (health_server_polled srv r srv')
  from health_server_start_facts [OF health_server_polled(5)] health_server_polled assms(2)
  show ?thesis by (auto simp: tasks_safe_def after_task_def)
next
  case (memory_aborted r srv)
  with assms(2) show ?thesis by (simp add: tasks_safe_def memory_tick_def split: if_splits)
next
  case (collection_aborted signals)
  with assms(2) show ?thesis by (simp add: tasks_safe_def)
qed (use assms(2) in \<open>auto simp: router_shutdown_safe\<close>)

lemma wait_for_shutdown_ends:
  "Ctrl_C \<in> set signals \<Longrightarrow> wait_for_shutdown unix ctrl_c sigterm signals \<noteq> []"
  by (simp add: wait_for_shutdown_def)

lemma waiting_finishes:
  assumes "lc_phase y = Waiting signals"
  shows "\<exists>y'. lifecycle_reachable hasher lib ch pf y y' \<and> lc_phase y' = Finished"
proof -
  let ?y1 = "y\<lparr>lc_phase := Waiting (signals @ [Ctrl_C])\<rparr>"
  let ?y2 = "?y1\<lparr>lc_phase := Finished, lc_world := router_shutdown ch (lc_world ?y1), lc_stop_sent := True\<rparr>"
  have "lifecycle_step hasher lib ch pf y ?y1" using assms by (rule signal_arrived)
  moreover have "lifecycle_step hasher lib ch pf ?y1 ?y2"
    by (rule shut_down [of ?y1 "signals @ [Ctrl_C]"]) (simp_all add: wait_for_shutdown_ends)
  ultimately have "lifecycle_reachable hasher lib ch pf y ?y2"
    unfolding lifecycle_reachable_def by (meson converse_rtranclp_into_rtranclp rtranclp.rtrancl_refl)
  then show ?thesis by (intro exI [of _ ?y2]) simp
qed

lemma idle_finishes:
  assumes "idle (lc_phase y)"
  shows "\<exists>y'. lifecycle_reachable hasher lib ch pf y y' \<and> lc_phase y' = Finished"
proof -
  consider "lc_phase y = Starting []" | signals where "lc_phase y = Waiting signals"
    | "lc_phase y = Finished"
    using assms by (cases "lc_phase y") auto
  then show ?thesis
  proof cases
    case 1
    let ?y1 = "y\<lparr>lc_phase := Waiting [], lc_world := started_all (lc_world y)\<rparr>"
    obtain y2 where "lifecycle_reachable hasher lib ch pf ?y1 y2" "lc_phase y2 = Finished"
      using waiting_finishes [of ?y1 "[]" hasher lib ch pf] by auto
    with all_started [OF 1, of hasher lib ch pf] show ?thesis
      unfolding lifecycle_reachable_def by (meson converse_rtranclp_into_rtranclp)
  next
    case 2
    then show ?thesis by (rule waiting_finishes)
  next
    case 3
    then show ?thesis unfolding lifecycle_reachable_def by blast
  qed
qed

section \<open>Lemmas: a metrics server whose address is taken\<close>

definition taken :: "config \<Rightarrow> ('c, 'e) lifecycle \<Rightarrow> bool" where
  "taken config y \<longleftrightarrow>
     (\<exists>srv. rt_metrics_server (w_router (lc_world y)) = Some srv \<and>
        mts_config srv = g_metrics (cfg_global config)) \<and>
     (lc_metrics_task y = None \<or> lc_phase y = Panicked)"

lemma lifecycle_step_taken:
  assumes "mc_enabled (g_metrics (cfg_global config))"
    and "os_bind pf (mc_listen_addr (g_metrics (cfg_global config))) \<noteq> None"
    and "lifecycle_step hasher lib ch pf y y'" "taken config y"
  shows "taken config y'"
  using assms(3)
proof cases
  case (metrics_server_polled srv r srv')
  from metrics_server_start_facts [OF metrics_server_polled(5)] metrics_server_polled assms(1,2,4)
  show ?thesis by (auto simp: taken_def after_task_def)
qed (use assms(4) in \<open>auto simp: taken_def after_task_def mark_running_def router_shutdown_def
    metrics_server_shutdown_def Let_def dest: prepare_instance_servers\<close>)

lemma router_start_taken:
  assumes "mc_enabled (g_metrics (cfg_global config))"
    and "os_bind pf (mc_listen_addr (g_metrics (cfg_global config))) \<noteq> None"
    and "lifecycle_reachable hasher lib ch pf (router_start (router_new ch config) reg h) y"
  shows "taken config y"
proof (rule lifecycle_invariant [OF assms(3)])
  show "taken config (router_start (router_new ch config) reg h)"
    using assms(1) by (simp add: taken_def router_start_def router_new_def metrics_server_new_def)
qed (rule lifecycle_step_taken [OF assms(1,2)])

section \<open>Lemmas: the registry does not see the traffic\<close>

fun serving_upstreams :: "'e phase \<Rightarrow> arc set" where
  "serving_upstreams (Awaiting c p b es cs) = set (lb_upstreams b)"
| "serving_upstreams _ = {}"

definition registry_blind :: "('c, 'e) lifecycle \<Rightarrow> bool" where
  "registry_blind y \<longleftrightarrow>
     tracked_pristine (lc_world y) \<and> serving_upstreams (lc_phase y) \<inter> tracked (lc_world y) = {}"

lemma registry_blind_kept:
  assumes "registry_blind y" "w_heap (lc_world y') = w_heap (lc_world y)"
    and "mr_upstream_metrics (w_registry (lc_world y')) = mr_upstream_metrics (w_registry (lc_world y))"
    and "serving_upstreams (lc_phase y') \<subseteq> serving_upstreams (lc_phase y)"
  shows "registry_blind y'"
  using assms unfolding registry_blind_def tracked_pristine_def tracked_def by auto

lemma lifecycle_step_blind:
  assumes "lifecycle_step hasher lib ch pf y y'" "registry_blind y"
  shows "registry_blind y'"
  using assms(1)
proof cases
  case (instance_rejected c cs now e w)
  with assms(2) prepare_instance_blind(1) [OF _ instance_rejected(3)] show ?thesis
    by (simp add: registry_blind_def)
next
  case (instance_started c cs now p b w)
  with assms(2) prepare_instance_blind [OF _ instance_started(3)] show ?thesis
    by (simp add: registry_blind_def)
next
  case (traffic c p b es cs q f)
  with assms(2) tracked_pristine_traffic [of "lc_world y" q f] show ?thesis
    by (auto simp: registry_blind_def)
next
  case (metrics_requested srv now timestamp path response reg)
  with metrics_handle_request_registry [OF metrics_requested(5)]
  show ?thesis
    by (intro registry_blind_kept [OF assms(2)]) (auto simp: metrics_requested(1) update_uptime_def)
qed (rule registry_blind_kept [OF assms(2)]; auto simp: registry_effects after_task_def split: if_splits)+

lemma router_start_blind:
  assumes "mr_upstream_metrics reg = []"
    and "lifecycle_reachable hasher lib ch pf (router_start rt reg h) y"
  shows "registry_blind y"
proof (rule lifecycle_invariant [OF assms(2)])
  show "registry_blind (router_start rt reg h)"
    by (simp add: registry_blind_def tracked_pristine_def tracked_def router_start_def assms(1))
qed (rule lifecycle_step_blind)

section \<open>Properties\<close>

text \<open>C14: Only the first instance of a configuration is ever served: from the start on, the router is
starting it, awaiting the end of its service or has failed; no other instance is started, none is
ever entered as running, and the router never gets to wait for a shutdown signal.\<close>

theorem first_instance_only:
  assumes "cfg_proxy_instances (rt_config rt) = c # cs"
    and "\<forall>addr. graceful (os_hyper pf addr)"
    and "lifecycle_reachable hasher lib ch pf (router_start rt reg h) y"
  shows "(case lc_phase y of
      Starting cs' \<Rightarrow> cs' = c # cs
    | Awaiting c' p b es cs' \<Rightarrow> c' = c \<and> cs' = cs \<and> Stop_Received \<notin> set es
    | Waiting signals \<Rightarrow> False | Finished \<Rightarrow> False | Failed e \<Rightarrow> True | Panicked \<Rightarrow> True) \<and>
    rt_running (w_router (lc_world y)) = rt_running rt"
  using router_start_held [OF assms] by (cases "lc_phase y") (simp_all add: held_def)

text \<open>C16: The metrics page of a router with instances never tells of a proxy: whenever it is asked,
while the first instance serves, it counts no instances and is the system section followed by the
sections of the upstreams only.\<close>

theorem metrics_page_without_proxies:
  assumes "cfg_proxy_instances (rt_config rt) = c # cs"
    and "\<forall>addr. graceful (os_hyper pf addr)"
    and "lifecycle_reachable hasher lib ch pf (router_start rt (registry_new t0) h) y"
  shows "pr_body (fst (metrics_handle_request show_f64 to_json now timestamp (w_heap (lc_world y))
      page page (w_registry (lc_world y)))) =
    (let reg = w_registry (lc_world y); hp = w_heap (lc_world y);
         system = ms_system (fst (get_metrics_summary now timestamp hp reg))
     in prometheus_system (system\<lparr>sm_proxy_instances_total := 0\<rparr>) @
        concat (map (prometheus_upstream show_f64 \<circ> upstream_snapshot hp) (mr_upstream_metrics reg)))"
proof -
  let ?reg = "w_registry (lc_world y)" and ?h = "w_heap (lc_world y)"
  have "unstarted 0 ?reg"
    by (rule router_start_unstarted [OF assms]) (simp add: unstarted_def registry_new_def)
  moreover from this have "(ms_system (fst (get_metrics_summary now timestamp ?h ?reg)))
      \<lparr>sm_proxy_instances_total := 0\<rparr> = ms_system (fst (get_metrics_summary now timestamp ?h ?reg))"
    by (simp add: get_metrics_summary_def unstarted_def update_uptime_def Let_def)
  ultimately show ?thesis
    by (simp add: metrics_handle_request_body export_prometheus_sections unstarted_def Let_def)
qed

text \<open>C40: A router without instances, the addresses of whose enabled servers are free and whose
collection interval is not zero, never fails and always can reach its end: whatever has happened, an
interrupt lets it shut down and the program exits with success.\<close>

theorem empty_router_finishes:
  assumes "cfg_proxy_instances (rt_config rt) = []" "tasks_safe pf rt"
    and "lifecycle_reachable hasher lib ch pf (router_start rt reg h) y"
  shows "run_router_exit (lc_phase y) \<noteq> Some Exit_Failure \<and>
    (\<exists>y'. lifecycle_reachable hasher lib ch pf y y' \<and> lc_phase y' = Finished \<and>
      run_router_exit (lc_phase y') = Some Exit_Success)"
proof -
  have idle: "idle (lc_phase y) \<and> tasks_safe pf (w_router (lc_world y))"
  proof (rule lifecycle_invariant [OF assms(3)])
    show "idle (lc_phase (router_start rt reg h)) \<and>
        tasks_safe pf (w_router (lc_world (router_start rt reg h)))"
      using assms(1,2) by (simp add: router_start_def)
  qed (rule lifecycle_step_idle)
  then have "run_router_exit (lc_phase y) \<noteq> Some Exit_Failure"
    by (cases "lc_phase y") (simp_all add: run_router_exit_def)
  moreover have "run_router_exit Finished = Some Exit_Success" by (simp add: run_router_exit_def)
  ultimately show ?thesis using idle_finishes [OF conjunct1 [OF idle], of hasher lib ch pf] by metis
qed

text \<open>C37: A taken address of the metrics server ends the whole program: with the server enabled and its
address in use, in every reachable state either the server's task has not run yet or the process has
been aborted; its first run, possible as long as the router runs, aborts it with the proxy it serves,
whereas the code handles a failure of the server by a line in the log.\<close>

theorem taken_metrics_address_aborts:
  assumes "mc_enabled (g_metrics (cfg_global config))"
    and "os_bind pf (mc_listen_addr (g_metrics (cfg_global config))) \<noteq> None"
    and "lifecycle_reachable hasher lib ch pf (router_start (router_new ch config) reg h) y"
  shows "(lc_metrics_task y = None \<or> lc_phase y = Panicked) \<and>
    (running (lc_phase y) \<longrightarrow>
      (\<exists>y'. lifecycle_step hasher lib ch pf y y' \<and> run_router_exit (lc_phase y') = Some Exit_Failure))"
proof -
  note inv = router_start_taken [OF assms]
  have "\<exists>y'. lifecycle_step hasher lib ch pf y y' \<and> run_router_exit (lc_phase y') = Some Exit_Failure"
    if running: "running (lc_phase y)"
  proof -
    obtain srv where srv: "rt_metrics_server (w_router (lc_world y)) = Some srv"
      "mts_config srv = g_metrics (cfg_global config)" "lc_metrics_task y = None"
      using inv running by (auto simp: taken_def)
    obtain r srv' where poll: "metrics_server_start ch (os_hyper pf (mc_listen_addr (mts_config srv)))
        (os_bind pf) [] srv = (r, srv')" by fastforce
    with metrics_server_start_facts [OF poll] srv(2) assms(1,2) have "r = Bind_Panic" by simp
    with metrics_server_polled [OF running srv(3,1) poll, of hasher lib] show ?thesis
      by (intro exI conjI) (auto simp: after_task_def run_router_exit_def)
  qed
  with inv show ?thesis by (simp add: taken_def)
qed

text \<open>C34: The metrics registry is blind to the traffic: whatever the proxies record, in every
reachable state the statistics of every upstream the registry tracks are those of a fresh upstream,
so the exported counters stay zero and the exported success rate stays one.\<close>

theorem registry_blind_to_traffic:
  assumes "mr_upstream_metrics reg = []"
    and "lifecycle_reachable hasher lib ch pf (router_start rt reg h) y"
    and "(name, p) \<in> set (mr_upstream_metrics (w_registry (lc_world y)))"
  shows "case upstream_snapshot (w_heap (lc_world y)) (name, p) of
    (_, snapshot) \<Rightarrow> us_requests_sent snapshot = 0 \<and> us_failures snapshot = 0 \<and>
      us_active_connections snapshot = 0 \<and> us_success_rate snapshot = 1"
proof -
  obtain now where "ui_stats (w_heap (lc_world y) ! p) = upstream_stats_default now"
    using router_start_blind [OF assms(1,2)] assms(3)
    by (fastforce simp: registry_blind_def tracked_pristine_def tracked_def pristine_def)
  then show ?thesis
    by (simp add: upstream_snapshot_def upstream_stats_default_def success_rate_def Let_def)
qed

section \<open>Witnesses\<close>

text \<open>A platform on which every address is free.\<close>

definition test_platform :: "nat platform" where
  "test_platform =
     \<lparr>os_bind = \<lambda>_. None, os_hyper = \<lambda>_. stop_server, os_unix = True, os_ctrl_c = None,
      os_sigterm = None, os_show_f64 = \<lambda>_. [], os_to_json = \<lambda>_. []\<rparr>"

lemma test_platform_graceful: "\<forall>addr. graceful (os_hyper test_platform addr)"
  by (simp add: test_platform_def stop_server_graceful)

abbreviation test_reachable :: "proxy_instance_config list \<Rightarrow> (nat, nat) lifecycle \<Rightarrow> bool" where
  "test_reachable cs \<equiv> lifecycle_reachable (\<lambda>_. 0) map_http_lib count_channel test_platform
     (router_start (test_router cs) (registry_new 0) [])"

text \<open>The instance is served, and its upstream gets a request.\<close>

definition test_world :: "nat world" where
  "test_world = \<lparr>w_router = test_router [test_instance], w_registry = registry_new 0, w_heap = []\<rparr>"

lemma test_prepared:
  "\<exists>p b w. prepare_instance (\<lambda>_. 0) map_http_lib count_channel 0 test_instance test_world = (Inr (p, b), w) \<and>
     lb_upstreams b = [0] \<and> lb_strategy b = LeastConnections \<and>
     mr_upstream_metrics (w_registry w) = [(''a'', 1)] \<and>
     w_heap w = replicate 2 (upstream_info_new 0 (test_upstream ''a'' 1))"
proof -
  let ?mgr = "rt_manager (w_router test_world)"
  have mgr: "?mgr = proxy_manager_new count_channel"
    by (simp add: test_world_def test_router_def router_new_def)
  obtain p mgr' where "prepare_proxy map_http_lib count_channel test_instance ?mgr = Inr (p, mgr')"
    unfolding mgr using test_instance_prepared [OF proxy_manager_new_wf] by blast
  then show ?thesis
    by (simp add: prepare_instance_def update_upstreams_eq refresh_ring_def test_world_def
        test_instance_def instance_strategy_def balancer_new_def arc_new_def
        add_upstream_def registry_new_def upstream_info_new_def test_upstream_def Let_def numeral_2_eq_2)
qed

lemma test_awaiting:
  "\<exists>y p b. test_reachable [test_instance] y \<and> lc_phase y = Awaiting test_instance p b [] [] \<and>
     lb_upstreams b = [0] \<and> lb_strategy b = LeastConnections \<and>
     mr_upstream_metrics (w_registry (lc_world y)) = [(''a'', 1)] \<and>
     w_heap (lc_world y) = replicate 2 (upstream_info_new 0 (test_upstream ''a'' 1))"
proof -
  let ?y0 = "router_start (test_router [test_instance]) (registry_new 0) []"
  obtain p b w where w: "prepare_instance (\<lambda>_. 0) map_http_lib count_channel 0 test_instance test_world =
      (Inr (p, b), w)" "lb_upstreams b = [0]" "lb_strategy b = LeastConnections"
    "mr_upstream_metrics (w_registry w) = [(''a'', 1)]"
    "w_heap w = replicate 2 (upstream_info_new 0 (test_upstream ''a'' 1))"
    using test_prepared by blast
  let ?y1 = "?y0\<lparr>lc_phase := Awaiting test_instance p b [] [], lc_world := w, lc_stop_sent := False\<rparr>"
  have "lifecycle_step (\<lambda>_. 0) map_http_lib count_channel test_platform ?y0 ?y1"
    using w(1) by (intro instance_started) (simp_all add: router_start_def test_world_def)
  then have "test_reachable [test_instance] ?y1"
    unfolding lifecycle_reachable_def by (rule r_into_rtranclp)
  with w show ?thesis by (intro exI [of _ ?y1]) simp
qed

lemma test_lifecycle:
  "\<exists>y p b. test_reachable [test_instance] y \<and> lc_phase y = Awaiting test_instance p b [] [] \<and>
     mr_upstream_metrics (w_registry (lc_world y)) = [(''a'', 1)] \<and>
     requests_sent (ui_stats (w_heap (lc_world y) ! 0)) \<noteq> 0"
proof -
  obtain y p b where y: "test_reachable [test_instance] y"
    "lc_phase y = Awaiting test_instance p b [] []" "lb_upstreams b = [0]"
    "mr_upstream_metrics (w_registry (lc_world y)) = [(''a'', 1)]"
    "w_heap (lc_world y) = replicate 2 (upstream_info_new 0 (test_upstream ''a'' 1))"
    using test_awaiting by blast
  let ?f = "\<lambda>s. s\<lparr>requests_sent := 1\<rparr>"
  let ?y2 = "y\<lparr>lc_world := (lc_world y)\<lparr>w_heap := on_stats ?f 0 (w_heap (lc_world y))\<rparr>\<rparr>"
  have "lifecycle_step (\<lambda>_. 0) map_http_lib count_channel test_platform y ?y2"
    using traffic [OF y(2), of 0] y(3) by simp
  with y(1) have "test_reachable [test_instance] ?y2"
    unfolding lifecycle_reachable_def by (rule rtranclp.rtrancl_into_rtrancl)
  moreover have "requests_sent (ui_stats (on_stats ?f 0 (w_heap (lc_world y)) ! 0)) \<noteq> 0"
    using y(5) by (simp add: on_stats_nth)
  ultimately show ?thesis using y(2,4) by (intro exI [of _ ?y2]) simp
qed

lemma first_instance_only_witness:
  "\<exists>y p b. test_reachable [test_instance] y \<and> lc_phase y = Awaiting test_instance p b [] [] \<and>
     rt_running (w_router (lc_world y)) = []"
proof -
  obtain y p b where y: "test_reachable [test_instance] y" "lc_phase y = Awaiting test_instance p b [] []"
    using test_lifecycle by blast
  from first_instance_only [OF _ test_platform_graceful y(1), of test_instance "[]"] y show ?thesis
    by (intro exI [of _ y]) (simp add: test_router_def router_new_def)
qed

lemma metrics_page_without_proxies_witness:
  "\<exists>y system. test_reachable [test_instance] y \<and> sm_proxy_instances_total system = 0 \<and>
     pr_body (fst (metrics_handle_request (\<lambda>_. ''1'') (\<lambda>_. []) 0 0 (w_heap (lc_world y)) ''/m'' ''/m''
       (w_registry (lc_world y)))) =
     prometheus_system system @
     prometheus_upstream (\<lambda>_. ''1'') (upstream_snapshot (w_heap (lc_world y)) (''a'', 1))"
proof -
  obtain y where y: "test_reachable [test_instance] y"
    "mr_upstream_metrics (w_registry (lc_world y)) = [(''a'', 1)]"
    using test_lifecycle by blast
  from metrics_page_without_proxies [OF _ test_platform_graceful y(1), of test_instance "[]"
      "\<lambda>_. ''1''" "\<lambda>_. []" 0 0 "''/m''"] y
  show ?thesis by (intro exI [of _ y]) (force simp: Let_def)
qed

lemma empty_router_finishes_witness:
  "\<exists>y'. test_reachable [] y' \<and> lc_phase y' = Finished"
proof -
  have "tasks_safe test_platform (test_router [])"
    by (simp add: tasks_safe_def test_platform_def test_router_def router_new_def metrics_server_new_def
        start_metrics_collection_task_None global_config_default_def metrics_config_default_def
        default_metrics_interval_def split: option.split)
  from empty_router_finishes [OF _ this, where y = "router_start (test_router []) (registry_new 0) []"
      and hasher = "\<lambda>_. 0" and lib = map_http_lib and ch = count_channel and reg = "registry_new 0"
      and h = "[]"]
  show ?thesis by (auto simp: lifecycle_reachable_def test_router_def router_new_def)
qed

text \<open>No address is free: the router of the default configuration dies, and serves before that.\<close>

lemma taken_metrics_address_aborts_witness:
  "\<exists>y. lifecycle_step (\<lambda>_. 0) map_http_lib count_channel
      (test_platform\<lparr>os_bind := \<lambda>_. Some ''in use''\<rparr>)
      (router_start (router_default count_channel) (registry_new 0) []) y \<and>
     run_router_exit (lc_phase y) = Some Exit_Failure"
proof -
  let ?config = "\<lparr>cfg_global = global_config_default, cfg_proxy_instances = []\<rparr>"
  let ?pf = "test_platform\<lparr>os_bind := \<lambda>_. Some ''in use''\<rparr>"
  have enabled: "mc_enabled (g_metrics (cfg_global ?config))"
    by (simp add: global_config_default_def metrics_config_default_def)
  have "os_bind ?pf (mc_listen_addr (g_metrics (cfg_global ?config))) \<noteq> None" by simp
  from taken_metrics_address_aborts [OF enabled this, where hasher = "\<lambda>_. 0" and lib = map_http_lib
      and ch = count_channel and reg = "registry_new 0" and h = "[]"
      and y = "router_start (router_new count_channel ?config) (registry_new 0) []"]
  show ?thesis by (simp add: lifecycle_reachable_def router_default_def) (simp add: router_start_def)
qed

lemma registry_blind_to_traffic_witness:
  "\<exists>y. test_reachable [test_instance] y \<and>
     requests_sent (ui_stats (w_heap (lc_world y) ! 0)) \<noteq> 0 \<and>
     us_requests_sent (snd (upstream_snapshot (w_heap (lc_world y)) (''a'', 1))) = 0"
proof -
  obtain y where y: "test_reachable [test_instance] y"
    "mr_upstream_metrics (w_registry (lc_world y)) = [(''a'', 1)]"
    "requests_sent (ui_stats (w_heap (lc_world y) ! 0)) \<noteq> 0" using test_lifecycle by blast
  from registry_blind_to_traffic [OF _ y(1), of "''a''" 1] y show ?thesis
    by (intro exI [of _ y]) (simp add: registry_new_def split: prod.splits)
qed

end
