(* ===== verification/Program.thy ===== *)
theory Program
  imports Router_Lifecycle
begin

text \<open>
  The program's entry (\<open>src/main.rs\<close>) and constants (\<open>src/lib.rs\<close>): what \<open>main\<close> does with its parsed command line, and how the run
  of the router follows. The command-line parser, the file system, the loader and the system call
  for the affinity are arguments; \<open>version\<close> is the package's version, which the build provides.
\<close>

section \<open>The constants\<close>

text \<open>The constants of \<open>src/lib.rs\<close>; the first is not used by the program.\<close>

definition MAX_PROXY_INSTANCES :: usize where
  "MAX_PROXY_INSTANCES = 1000"

definition DEFAULT_CONFIG_FILE :: string where
  "DEFAULT_CONFIG_FILE = ''config.yml''"

text \<open>The version of the package in \<open>Cargo.toml\<close>, which the build puts in place of \<open>env!\<close>.\<close>

definition VERSION :: string where
  "VERSION = ''0.2.0''"

section \<open>The output\<close>

text \<open>The verbosity is a counter of eight bits; it changes nothing but this line.\<close>

definition adjust_logging_level :: "8 word \<Rightarrow> log_line list" where
  "adjust_logging_level verbosity =
     (if verbosity = 0 then []
      else if verbosity = 1 then [Log_Info ''Verbose logging enabled'']
      else if verbosity = 2 then [Log_Info ''Debug logging enabled'']
      else [Log_Info ''Trace logging enabled''])"

definition show_bool :: "bool \<Rightarrow> string" where
  "show_bool b = (if b then ''true'' else ''false'')"

definition instance_line :: "proxy_instance_config \<Rightarrow> log_line" where
  "instance_line c =
     Log_Info (''  Instance '' @ quoted (inst_name c) @ '': '' @ show_proxy_type (inst_proxy_type c) @
       '' proxy on '' @ show_socket_addr (inst_listen_addr c) @ '' with '' @
       show_nat (length (inst_upstreams c)) @ '' upstreams'')"

definition display_system_info :: "config \<Rightarrow> affinity_manager \<Rightarrow> log_line list" where
  "display_system_info config m =
     [Log_Info ''System Information:'',
      Log_Info (''  CPU cores: '' @ show_nat (unat (am_cpu_count m))),
      Log_Info (''  Optimal workers: '' @ show_nat (unat (optimal_worker_count m))),
      Log_Info (''  '' @ [CHR 0x0A] @ ''Configuration Summary:''),
      Log_Info (''  Proxy instances: '' @ show_nat (length (cfg_proxy_instances config))),
      Log_Info (''  Metrics enabled: '' @ show_bool (mc_enabled (g_metrics (cfg_global config)))),
      Log_Info (''  Health checks enabled: '' @ show_bool (hc_enabled (g_health_check (cfg_global config)))),
      Log_Info (''  CPU affinity enabled: '' @
        show_bool (pf_cpu_affinity (g_performance (cfg_global config))))] @
     map instance_line (cfg_proxy_instances config)"

section \<open>The entry\<close>

record cli_args =
  cli_config :: string
  cli_validate :: bool
  cli_verbosity :: "8 word"

text \<open>
  \<open>main\<close> up to the router: the lines logged, how it goes on and the affinity manager. A panic of the
  affinity call (no CPU) ends the program.
\<close>

definition main_run ::
  "string \<Rightarrow> (string \<Rightarrow> bool) \<Rightarrow> (string \<Rightarrow> config result) \<Rightarrow> (usize \<Rightarrow> unit result) \<Rightarrow> cli_args \<Rightarrow>
   affinity_manager \<Rightarrow> log_line list \<times> main_outcome \<times> affinity_manager" where
  "main_run version file_exists from_file set_affinity args m =
     (let config_path = cli_config args;
          lines = adjust_logging_level (cli_verbosity args) @
            [Log_Info (''Starting Harbr Router v'' @ version),
             Log_Info (''Configuration file: '' @ config_path)]
      in if \<not> file_exists config_path then
           (lines @ [Log_Error (''Configuration file not found: '' @ config_path)], Exit_Failure, m)
         else case from_file config_path of
           Inl e \<Rightarrow> (lines @ [Log_Error (''Failed to load configuration: '' @ show_error e)], Exit_Failure, m)
         | Inr config \<Rightarrow>
             (let lines = lines @ [Log_Info ''Configuration loaded successfully'']
              in if cli_validate args then
                   (lines @ [Log_Info ''Configuration is valid''], Exit_Success, m)
                 else
                   (let lines = lines @ display_system_info config m
                    in if pf_cpu_affinity (g_performance (cfg_global config)) then
                         (let lines = lines @ [Log_Info ''CPU affinity enabled, applying optimizations'']
                          in case optimize_current_thread set_affinity m of
                               None \<Rightarrow> (lines, Exit_Failure, m)
                             | Some (Inl e, m) \<Rightarrow>
                                 (lines @ [Log_Warn (''Failed to optimize current thread: '' @ show_error e)],
                                  Run_Router config, m)
                             | Some (Inr _, m) \<Rightarrow> (lines, Run_Router config, m))
                       else (lines @ [Log_Info ''Using default Tokio runtime''], Run_Router config, m))))"

text \<open>The beginning of \<open>Router::start\<close>, before the tasks of the servers are spawned.\<close>

definition start_prologue ::
  "string \<Rightarrow> (usize \<Rightarrow> unit result) \<Rightarrow> affinity_manager \<Rightarrow> (log_line list \<times> affinity_manager) option" where
  "start_prologue version set_affinity m =
     (let lines = [Log_Info (''Starting Harbr Router v'' @ version)]
      in case optimize_current_thread set_affinity m of
           None \<Rightarrow> None
         | Some (Inl e, m) \<Rightarrow>
             Some (lines @ [Log_Warn (''Failed to optimize main thread: '' @ show_error e)], m)
         | Some (Inr _, m) \<Rightarrow> Some (lines, m))"

text \<open>\<open>run_router\<close> up to the lifecycle: a new router on the process-wide registry and the heap.\<close>

definition run_router ::
  "'c channel_lib \<Rightarrow> config \<Rightarrow> metrics_registry \<Rightarrow> upstream_heap \<Rightarrow> ('c, 'e) lifecycle" where
  "run_router ch config reg h = router_start (router_new ch config) reg h"

section \<open>Lemmas\<close>

lemma main_run_outcome:
  assumes "am_cpu_count m \<noteq> 0"
  shows "fst (snd (main_run version ex ff sa args m)) =
    (if \<not> ex (cli_config args) then Exit_Failure
     else case ff (cli_config args) of
       Inl e \<Rightarrow> Exit_Failure
     | Inr config \<Rightarrow> if cli_validate args then Exit_Success else Run_Router config)"
  using assms
  by (auto simp: main_run_def optimize_current_thread_def assign_current_thread_def Let_def
      split: sum.splits option.splits)

lemma optimize_current_thread_eq:
  assumes "am_cpu_count m \<noteq> 0"
  shows "optimize_current_thread sa m =
    Some (sa (am_next_cpu m mod am_cpu_count m), m\<lparr>am_next_cpu := am_next_cpu m + 1\<rparr>)"
  using assms
  by (cases "sa (am_next_cpu m mod am_cpu_count m)")
    (simp_all add: optimize_current_thread_def assign_current_thread_def Let_def)

lemma prepare_instance_rejects:
  assumes "manager_wf (rt_manager (w_router w))" "\<not> valid_instance_for lib c"
  shows "\<exists>e w'. prepare_instance hasher lib ch now c w = (Inl e, w') \<and> is_config e"
proof -
  obtain e where "prepare_proxy lib ch c (rt_manager (w_router w)) = Inl e" "is_config e"
    using prepare_proxy_ok [OF assms(1), of lib ch c] prepare_proxy_error [OF assms(1), of lib ch c] assms(2)
    by (cases "prepare_proxy lib ch c (rt_manager (w_router w))") auto
  then show ?thesis
    by (simp add: prepare_instance_def update_upstreams_eq Let_def split: prod.split)
qed

lemma run_router_simps [simp]:
  "lc_phase (run_router ch config reg h) = Starting (cfg_proxy_instances config)"
  "rt_manager (w_router (lc_world (run_router ch config reg h))) = proxy_manager_new ch"
  by (simp_all add: run_router_def router_start_def router_new_def)

text \<open>A router whose first instance is rejected.\<close>

definition rejecting ::
  "'h http_lib \<Rightarrow> ('c, 'e) lifecycle \<Rightarrow> bool" where
  "rejecting lib y \<longleftrightarrow>
     (case lc_phase y of
        Starting cs \<Rightarrow> cs \<noteq> [] \<and> \<not> valid_instance_for lib (hd cs) \<and>
          manager_wf (rt_manager (w_router (lc_world y)))
      | Failed e \<Rightarrow> is_config e
      | Panicked \<Rightarrow> True
      | _ \<Rightarrow> False)"

lemma lifecycle_step_rejecting:
  assumes "lifecycle_step hasher lib ch pf y y'" "rejecting lib y"
  shows "rejecting lib y'"
  using assms(1)
proof cases
  case (instance_rejected c cs now e w)
  with assms(2) prepare_instance_rejects [of "lc_world y" lib c hasher ch now] show ?thesis
    by (auto simp: rejecting_def)
next
  case (instance_started c cs now p b w)
  with assms(2) prepare_instance_rejects [of "lc_world y" lib c hasher ch now] show ?thesis
    by (auto simp: rejecting_def)
qed (use assms(2) in \<open>auto simp: rejecting_def after_task_def split: phase.splits\<close>)

text \<open>If its tasks cannot panic, it cannot either.\<close>

lemma prepare_instance_safe:
  "prepare_instance hasher lib ch now c w = (r, w') \<Longrightarrow>
     tasks_safe pf (w_router w') = tasks_safe pf (w_router w)"
  by (auto simp: prepare_instance_def tasks_safe_def Let_def split: sum.splits prod.splits)

lemma lifecycle_step_rejecting_safe:
  assumes "lifecycle_step hasher lib ch pf y y'" "rejecting lib y"
    and "tasks_safe pf (w_router (lc_world y)) \<and> lc_phase y \<noteq> Panicked"
  shows "tasks_safe pf (w_router (lc_world y')) \<and> lc_phase y' \<noteq> Panicked"
  using assms(1)
proof cases
  case (metrics_server_polled srv r srv')
  from metrics_server_start_facts [OF metrics_server_polled(5)] metrics_server_polled assms(3)
  show ?thesis by (auto simp: tasks_safe_def after_task_def)
next
  case (health_server_polled srv r srv')
  from health_server_start_facts [OF health_server_polled(5)] health_server_polled assms(3)
  show ?thesis by (auto simp: tasks_safe_def after_task_def)
next
  case (memory_aborted r srv)
  with assms(3) show ?thesis by (simp add: tasks_safe_def memory_tick_def split: if_splits)
qed (use assms(2,3) in \<open>auto simp: rejecting_def router_shutdown_safe dest: prepare_instance_safe\<close>)

text \<open>Nothing limits the number of instances to the supported maximum.\<close>

definition many_instances :: "nat \<Rightarrow> config" where
  "many_instances n =
     \<lparr>cfg_global = global_config_default,
      cfg_proxy_instances = map (\<lambda>i. test_instance\<lparr>inst_name := show_nat i,
        inst_listen_addr := any_addr (word_of_nat i)\<rparr>) [0..<n]\<rparr>"

lemma instance_limit_unchecked:
  "config_validate (many_instances 1001) = Inr () \<and>
     unat MAX_PROXY_INSTANCES < length (cfg_proxy_instances (many_instances 1001))"
proof -
  have "inj_on (\<lambda>i. any_addr (word_of_nat i)) {0..<1001}"
  proof (rule inj_onI)
    fix i j :: nat assume "i \<in> {0..<1001}" "j \<in> {0..<1001}"
      and "any_addr (word_of_nat i) = any_addr (word_of_nat j)"
    then have "unat (word_of_nat i :: u16) = unat (word_of_nat j :: u16)" "i < 2 ^ 16" "j < 2 ^ 16"
      by (simp_all add: any_addr_def)
    then show "i = j" by (simp add: unat_of_nat take_bit_nat_eq_self)
  qed
  then have "distinct (map inst_listen_addr (cfg_proxy_instances (many_instances 1001)))"
    by (simp add: many_instances_def distinct_map o_def)
  moreover have "distinct (map inst_name (cfg_proxy_instances (many_instances 1001)))"
    by (simp add: many_instances_def distinct_map o_def inj_on_def show_nat_inj)
  moreover have "list_all valid_instance (cfg_proxy_instances (many_instances 1001))"
    by (simp add: many_instances_def list_all_iff valid_instance_def test_instance_def test_upstream_def
        valid_upstream_def)
  moreover have "valid_global (cfg_global (many_instances 1001))"
  proof -
    have "global_validate global_config_default = Inr ()" by code_simp
    then show ?thesis by (simp add: many_instances_def global_validate_ok)
  qed
  ultimately show ?thesis
    by (simp add: config_validate_ok valid_config_def)
      (simp add: many_instances_def MAX_PROXY_INSTANCES_def)
qed

section \<open>Properties\<close>

text \<open>C23: The program runs the router exactly with the configurations that load, are valid and are
not only to be validated; with a missing file or a failure of the loader it exits with failure, and
the run starts with every instance of that configuration still to start.\<close>

theorem main_runs_valid_configurations:
  assumes "am_cpu_count m \<noteq> 0"
  shows "case main_run version ex (config_from_file rd yaml json toml) sa args m of
    (lines, outcome, m') \<Rightarrow>
      (case outcome of
        Run_Router config \<Rightarrow> ex (cli_config args) \<and> \<not> cli_validate args \<and> valid_config config \<and>
          config_from_file rd yaml json toml (cli_config args) = Inr config \<and>
          lc_phase (run_router ch config reg h) = Starting (cfg_proxy_instances config)
      | Exit_Success \<Rightarrow> ex (cli_config args) \<and> cli_validate args \<and>
          is_ok (config_from_file rd yaml json toml (cli_config args))
      | Exit_Failure \<Rightarrow> ex (cli_config args) \<longrightarrow>
          \<not> is_ok (config_from_file rd yaml json toml (cli_config args)))"
proof -
  let ?ff = "config_from_file rd yaml json toml"
  have valid: "valid_config config" if "?ff (cli_config args) = Inr config" for config
    using loaded_config_valid [OF that] .
  obtain lines outcome m' where r: "main_run version ex ?ff sa args m = (lines, outcome, m')"
    by (metis surj_pair)
  with main_run_outcome [OF assms, of version ex ?ff sa args] have "outcome =
      (if \<not> ex (cli_config args) then Exit_Failure
       else case ?ff (cli_config args) of Inl e \<Rightarrow> Exit_Failure
         | Inr config \<Rightarrow> if cli_validate args then Exit_Success else Run_Router config)" by simp
  with valid show ?thesis
    unfolding r by (auto split: sum.splits if_splits)
qed

text \<open>C17: The validation of the configuration is not that of the proxies: a configuration that
a validation-only run declares valid can violate the limits of its first instance's proxy, and then the run
never serves anything: it ends with a configuration error and exit status failure, unless the
panic of a task (a server whose address is taken, a ticker with a zero period) aborts it before.\<close>

theorem validated_configuration_fails_to_run:
  assumes "am_cpu_count m \<noteq> 0" "ex (cli_config args)" "ff (cli_config args) = Inr config"
    and "cfg_proxy_instances config = c # cs" "\<not> valid_instance_for lib c"
    and "lifecycle_reachable hasher lib ch pf (run_router ch config reg h) y"
  shows "fst (snd (main_run version ex ff sa (args\<lparr>cli_validate := True\<rparr>) m)) = Exit_Success \<and>
    (lc_phase y = Starting (c # cs) \<or> (\<exists>e. lc_phase y = Failed e \<and> is_config e) \<or>
      lc_phase y = Panicked \<and> \<not> tasks_safe pf (router_new ch config)) \<and>
    run_router_exit (lc_phase y) \<noteq> Some Exit_Success"
proof -
  have start: "rejecting lib (run_router ch config reg h)"
    using assms(4,5) proxy_manager_new_wf by (simp add: rejecting_def)
  have "rejecting lib y \<and> (tasks_safe pf (router_new ch config) \<longrightarrow>
      tasks_safe pf (w_router (lc_world y)) \<and> lc_phase y \<noteq> Panicked)"
  proof (rule lifecycle_invariant [OF assms(6)])
    show "rejecting lib (run_router ch config reg h) \<and> (tasks_safe pf (router_new ch config) \<longrightarrow>
        tasks_safe pf (w_router (lc_world (run_router ch config reg h))) \<and>
        lc_phase (run_router ch config reg h) \<noteq> Panicked)"
      using start by (simp add: run_router_def router_start_def)
  qed (use lifecycle_step_rejecting lifecycle_step_rejecting_safe in blast)
  then have safe: "lc_phase y = Panicked \<Longrightarrow> \<not> tasks_safe pf (router_new ch config)" by blast
  have y: "rejecting lib y \<and> (\<forall>cs'. lc_phase y = Starting cs' \<longrightarrow> cs' = c # cs)"
  proof (rule lifecycle_invariant [OF assms(6)])
    show "rejecting lib (run_router ch config reg h) \<and>
        (\<forall>cs'. lc_phase (run_router ch config reg h) = Starting cs' \<longrightarrow> cs' = c # cs)"
      using assms(4) start by simp
  next
    fix z z' assume step: "lifecycle_step hasher lib ch pf z z'"
      and z: "rejecting lib z \<and> (\<forall>cs'. lc_phase z = Starting cs' \<longrightarrow> cs' = c # cs)"
    then have "lc_phase z' = Starting cs' \<Longrightarrow> lc_phase z = Starting cs'" for cs'
      by (cases rule: lifecycle_step.cases) (auto simp: rejecting_def after_task_def split: if_splits)
    with lifecycle_step_rejecting [OF step] z show
      "rejecting lib z' \<and> (\<forall>cs'. lc_phase z' = Starting cs' \<longrightarrow> cs' = c # cs)" by blast
  qed
  moreover have "fst (snd (main_run version ex ff sa (args\<lparr>cli_validate := True\<rparr>) m)) = Exit_Success"
    using main_run_outcome [OF assms(1), of version ex ff sa "args\<lparr>cli_validate := True\<rparr>"] assms(2,3) by simp
  ultimately show ?thesis using safe
    by (cases "lc_phase y") (auto simp: rejecting_def run_router_exit_def)
qed

text \<open>The configuration flag for the CPU affinity does not keep the main thread from being pinned: with the flag off
main leaves the CPUs alone, but the start of the router still pins the thread to the first CPU of
the rotation.\<close>

theorem affinity_flag_ignored:
  assumes "am_cpu_count m \<noteq> 0" "\<not> pf_cpu_affinity (g_performance (cfg_global config))"
    and "main_run version ex ff sa args m = (lines, Run_Router config, m')"
  shows "m' = m \<and>
    start_prologue version sa m' =
      Some (Log_Info (''Starting Harbr Router v'' @ version) #
             (case sa (am_next_cpu m mod am_cpu_count m) of
                Inl e \<Rightarrow> [Log_Warn (''Failed to optimize main thread: '' @ show_error e)] | Inr _ \<Rightarrow> []),
            m\<lparr>am_next_cpu := am_next_cpu m + 1\<rparr>)"
proof -
  have "m' = m"
    using assms(2,3) by (auto simp: main_run_def Let_def split: if_splits sum.splits option.splits prod.splits)
  then show ?thesis
    using optimize_current_thread_eq [OF assms(1), of sa]
    by (simp add: start_prologue_def Let_def split: sum.split)
qed

section \<open>Witnesses\<close>

text \<open>A TCP instance with a zero buffer: the configuration is valid, the proxy refuses it.\<close>

definition bad_instance :: proxy_instance_config where
  "bad_instance = test_instance\<lparr>inst_config := proxy_specific_config_default
     \<lparr>ps_tcp := tcp_proxy_config_default\<lparr>tcp_buffer_size := 0\<rparr>\<rparr>\<rparr>"

definition bad_config :: config where
  "bad_config = \<lparr>cfg_global = global_config_default, cfg_proxy_instances = [bad_instance]\<rparr>"

lemma bad_instance_refused: "\<not> valid_instance_for lib bad_instance"
  by (simp add: valid_instance_for_def valid_tcp_instance_def bad_instance_def test_instance_def Let_def)

lemma bad_config_valid: "config_validate bad_config = Inr ()"
  by code_simp

definition test_args :: cli_args where
  "test_args = \<lparr>cli_config = DEFAULT_CONFIG_FILE, cli_validate = False, cli_verbosity = 0\<rparr>"

lemma bad_config_loaded:
  "config_from_file (\<lambda>_. Inr []) (\<lambda>_. Inr bad_config) (\<lambda>_. Inl []) (\<lambda>_. Inl []) ''config.yml'' = Inr bad_config"
  by code_simp

lemma main_runs_valid_configurations_witness:
  "\<exists>lines. main_run ''1'' (\<lambda>_. True)
       (config_from_file (\<lambda>_. Inr []) (\<lambda>_. Inr bad_config) (\<lambda>_. Inl []) (\<lambda>_. Inl []))
       (\<lambda>_. Inr ()) test_args (affinity_manager_new 4) =
     (lines, Run_Router bad_config, \<lparr>am_cpu_count = 4, am_next_cpu = 1\<rparr>) \<and> valid_config bad_config"
proof -
  let ?ff = "config_from_file (\<lambda>_. Inr []) (\<lambda>_. Inr bad_config) (\<lambda>_. Inl []) (\<lambda>_. Inl [])"
  have pinned: "pf_cpu_affinity (g_performance (cfg_global bad_config))"
    by (simp add: bad_config_def global_config_default_def performance_config_default_def)
  obtain lines where r: "main_run ''1'' (\<lambda>_. True) ?ff (\<lambda>_. Inr ()) test_args (affinity_manager_new 4) =
      (lines, Run_Router bad_config, \<lparr>am_cpu_count = 4, am_next_cpu = 1\<rparr>)"
    using pinned by (auto simp: main_run_def test_args_def DEFAULT_CONFIG_FILE_def bad_config_loaded
        optimize_current_thread_eq affinity_manager_new_def Let_def)
  have cpus: "am_cpu_count (affinity_manager_new 4) \<noteq> 0" by (simp add: affinity_manager_new_def)
  from main_runs_valid_configurations [OF cpus, where version = "''1''" and ex = "\<lambda>_. True"
      and rd = "\<lambda>_. Inr []" and yaml = "\<lambda>_. Inr bad_config" and json = "\<lambda>_. Inl []"
      and toml = "\<lambda>_. Inl []" and sa = "\<lambda>_. Inr ()" and args = test_args] r
  show ?thesis by auto
qed

lemma validated_configuration_fails_to_run_witness:
  "\<exists>y e. lifecycle_reachable (\<lambda>_. 0) map_http_lib count_channel test_platform
       (run_router count_channel bad_config (registry_new 0) []) y \<and>
     lc_phase y = Failed e \<and> is_config e \<and> config_validate bad_config = Inr ()"
proof -
  let ?start = "run_router count_channel bad_config (registry_new 0) [] :: (nat, nat) lifecycle"
  have instances: "cfg_proxy_instances bad_config = [bad_instance]" by (simp add: bad_config_def)
  have start: "lc_phase ?start = Starting [bad_instance]"
    "manager_wf (rt_manager (w_router (lc_world ?start)))"
    using proxy_manager_new_wf by (simp_all add: instances)
  from prepare_instance_rejects [OF start(2) bad_instance_refused, where lib = map_http_lib]
  obtain e w where "prepare_instance (\<lambda>_. 0) map_http_lib count_channel 0 bad_instance (lc_world ?start) =
      (Inl e, w)" by blast
  then have "lifecycle_reachable (\<lambda>_. 0) map_http_lib count_channel test_platform ?start
      (?start\<lparr>lc_phase := Failed e, lc_world := w\<rparr>)" (is "lifecycle_reachable _ _ _ _ _ ?y")
    unfolding lifecycle_reachable_def using instance_rejected [OF start(1)] by blast
  with validated_configuration_fails_to_run [of "affinity_manager_new 4" "\<lambda>_. True" test_args
      "\<lambda>_. Inr bad_config" bad_config, OF _ _ _ instances bad_instance_refused this]
  show ?thesis using bad_config_valid
    by (intro exI [of _ ?y] exI [of _ e]) (simp add: affinity_manager_new_def)
qed

definition unpinned_config :: config where
  "unpinned_config = bad_config\<lparr>cfg_global := global_config_default\<lparr>g_performance :=
     performance_config_default\<lparr>pf_cpu_affinity := False\<rparr>\<rparr>\<rparr>"

lemma affinity_flag_ignored_witness:
  "start_prologue ''1'' (\<lambda>cpu. if cpu = 0 then Inl (err_internal ''denied'') else Inr ())
     (snd (snd (main_run ''1'' (\<lambda>_. True) (\<lambda>_. Inr unpinned_config)
       (\<lambda>cpu. if cpu = 0 then Inl (err_internal ''denied'') else Inr ()) test_args (affinity_manager_new 4)))) =
   Some ([Log_Info ''Starting Harbr Router v1'',
      Log_Warn (''Failed to optimize main thread: '' @ show_error (err_internal ''denied''))],
     \<lparr>am_cpu_count = 4, am_next_cpu = 1\<rparr>)"
proof -
  let ?sa = "\<lambda>cpu. if cpu = 0 then Inl (err_internal ''denied'') else Inr ()"
  have off: "\<not> pf_cpu_affinity (g_performance (cfg_global unpinned_config))"
    by (simp add: unpinned_config_def)
  obtain lines m where r: "main_run ''1'' (\<lambda>_. True) (\<lambda>_. Inr unpinned_config) ?sa test_args
      (affinity_manager_new 4) = (lines, Run_Router unpinned_config, m)"
    using off by (auto simp: main_run_def test_args_def Let_def)
  have cpus: "am_cpu_count (affinity_manager_new 4) \<noteq> 0" by (simp add: affinity_manager_new_def)
  note pinned = affinity_flag_ignored [OF cpus off r]
  then have m: "m = \<lparr>am_cpu_count = 4, am_next_cpu = 0\<rparr>" by (simp add: affinity_manager_new_def)
  from pinned [THEN conjunct2] show ?thesis
    unfolding r m by (simp add: affinity_manager_new_def)
qed

end
