(* ===== verification/Unit_Tests.thy ===== *)
theory Unit_Tests
  imports Program
begin

text \<open>
  The crate's own unit tests (the \<open>tests\<close> modules under \<open>src/\<close>), test by test, run on the model: a
  test is the truth of all its assertions, and an \<open>unwrap\<close> of an error is a failure. What a test gets
  from outside (the number of CPUs, the clock, the header parser, the channel, the outcome of a
  connect) is an argument. \<open>test_udp_session\<close> asserts nothing and is left out.
\<close>

section \<open>What the tests share\<close>







section \<open>\<open>affinity.rs\<close>, \<open>main.rs\<close>, \<open>server.rs\<close>, \<open>metrics.rs\<close>\<close>










section \<open>\<open>routing.rs\<close>\<close>





section \<open>\<open>proxy.rs\<close>\<close>





section \<open>\<open>router.rs\<close>\<close>





section \<open>\<open>proxy/http.rs\<close>\<close>







section \<open>\<open>proxy/tcp.rs\<close>\<close>








section \<open>\<open>proxy/udp.rs\<close>\<close>






section \<open>Lemmas: the tests that pass\<close>



















section \<open>Lemmas: the tests that fail\<close>



section \<open>Property\<close>


section \<open>Witness\<close>


end
