(* ===== verification/Task_System.thy ===== *)
theory Task_System
  imports Prelude
begin

text \<open>
  Tasks that share a state, as \<open>tokio::spawn\<close> creates them: each task is a small state machine, and
  the runtime lets any task make its next step at any time. The proxies supply the machine of one
  request or connection; what holds of their counters in every interleaving is proved here once.
\<close>

section \<open>The system\<close>

record ('s, 'x, 't) task_system =
  sy_state :: 's
  sy_tasks :: "('x \<times> 't) list"

text \<open>
  \<open>arrive\<close> and \<open>fresh\<close> are the effect of a new task on the state and the point it starts from; \<open>step\<close>
  is one step of the task of \<open>x\<close>, or \<open>None\<close> if the task has ended or waits for ever.
\<close>

inductive task_step ::
  "('s \<Rightarrow> 's) \<Rightarrow> 't \<Rightarrow> ('x \<Rightarrow> 't \<times> 's \<Rightarrow> ('t \<times> 's) option) \<Rightarrow>
   ('s, 'x, 't) task_system \<Rightarrow> ('s, 'x, 't) task_system \<Rightarrow> bool"
  for arrive fresh step where
  spawned:
    "task_step arrive fresh step y
       (y\<lparr>sy_state := arrive (sy_state y), sy_tasks := sy_tasks y @ [(x, fresh)]\<rparr>)"
| progressed:
    "i < length (sy_tasks y) \<Longrightarrow> sy_tasks y ! i = (x, t) \<Longrightarrow> step x (t, sy_state y) = Some (t', s') \<Longrightarrow>
     task_step arrive fresh step y (y\<lparr>sy_state := s', sy_tasks := (sy_tasks y)[i := (x, t')]\<rparr>)"

definition task_reachable ::
  "('s \<Rightarrow> 's) \<Rightarrow> 't \<Rightarrow> ('x \<Rightarrow> 't \<times> 's \<Rightarrow> ('t \<times> 's) option) \<Rightarrow>
   ('s, 'x, 't) task_system \<Rightarrow> ('s, 'x, 't) task_system \<Rightarrow> bool" where
  "task_reachable arrive fresh step = (task_step arrive fresh step)\<^sup>*\<^sup>*"

definition no_tasks :: "'s \<Rightarrow> ('s, 'x, 't) task_system" where
  "no_tasks s = \<lparr>sy_state = s, sy_tasks = []\<rparr>"

lemma no_tasks_simps [simp]: "sy_state (no_tasks s) = s" "sy_tasks (no_tasks s) = []"
  by (simp_all add: no_tasks_def)

section \<open>One task on its own\<close>

text \<open>A task that runs undisturbed from its arrival is one of the runs of the system.\<close>

definition solo :: "('x \<Rightarrow> 't \<times> 's \<Rightarrow> ('t \<times> 's) option) \<Rightarrow> 'x \<Rightarrow> 't \<times> 's \<Rightarrow> 't \<times> 's \<Rightarrow> bool" where
  "solo step x = (\<lambda>c c'. step x c = Some c')\<^sup>*\<^sup>*"

lemma solo_refl: "solo step x c c"
  by (simp add: solo_def)

lemma solo_step: "step x c = Some c' \<Longrightarrow> solo step x c' c'' \<Longrightarrow> solo step x c c''"
  unfolding solo_def by (rule converse_rtranclp_into_rtranclp)

lemma solo_trans [trans]: "solo step x c c' \<Longrightarrow> solo step x c' c'' \<Longrightarrow> solo step x c c''"
  unfolding solo_def by (rule rtranclp_trans)

lemma solo_reachable:
  assumes "solo step x (fresh, arrive (sy_state y)) (t, s)"
  shows "task_reachable arrive fresh step y (y\<lparr>sy_state := s, sy_tasks := sy_tasks y @ [(x, t)]\<rparr>)"
  using assms unfolding solo_def
proof (induction rule: rtranclp_induct2)
  case refl
  then show ?case unfolding task_reachable_def by (intro r_into_rtranclp spawned)
next
  case (step t s t' s')
  let ?y = "y\<lparr>sy_state := s, sy_tasks := sy_tasks y @ [(x, t)]\<rparr>"
  have "task_step arrive fresh step ?y
      (?y\<lparr>sy_state := s', sy_tasks := (sy_tasks ?y)[length (sy_tasks y) := (x, t')]\<rparr>)"
    using step.hyps(2) by (intro progressed [where t = t]) simp_all
  with step.IH show ?case unfolding task_reachable_def by simp
qed

section \<open>Invariants of every interleaving\<close>

text \<open>
  \<open>inv\<close> speaks of the shared state, \<open>ok\<close> of one task in it; a step of one task keeps the others ok.
\<close>

locale tasks =
  fixes arrive :: "'s \<Rightarrow> 's" and fresh :: 't
    and step :: "'x \<Rightarrow> 't \<times> 's \<Rightarrow> ('t \<times> 's) option"
    and inv :: "'s \<Rightarrow> bool" and ok :: "'s \<Rightarrow> 'x \<Rightarrow> 't \<Rightarrow> bool"
  assumes inv_arrive: "inv s \<Longrightarrow> inv (arrive s) \<and> ok (arrive s) x fresh"
    and ok_arrive: "ok s x t \<Longrightarrow> ok (arrive s) x t"
    and inv_step: "inv s \<Longrightarrow> ok s x t \<Longrightarrow> step x (t, s) = Some (t', s') \<Longrightarrow> inv s' \<and> ok s' x t'"
    and ok_step: "inv s \<Longrightarrow> ok s x t \<Longrightarrow> step x (t, s) = Some (t', s') \<Longrightarrow> ok s x0 t0 \<Longrightarrow> ok s' x0 t0"
begin

definition all_ok :: "('s, 'x, 't) task_system \<Rightarrow> bool" where
  "all_ok y \<longleftrightarrow> inv (sy_state y) \<and> (\<forall>(x, t) \<in> set (sy_tasks y). ok (sy_state y) x t)"

lemma all_okD: "all_ok y \<Longrightarrow> i < length (sy_tasks y) \<Longrightarrow> sy_tasks y ! i = (x, t) \<Longrightarrow> ok (sy_state y) x t"
  unfolding all_ok_def using nth_mem by fastforce

lemma task_step_ok:
  assumes "task_step arrive fresh step y y'" "all_ok y"
  shows "all_ok y'"
  using assms(1)
proof cases
  case (spawned x)
  with assms(2) show ?thesis by (auto simp: all_ok_def inv_arrive ok_arrive)
next
  case (progressed i x t t' s')
  note i = all_okD [OF assms(2) progressed(2,3)]
  from assms(2) inv_step [OF _ i progressed(4)] ok_step [OF _ i progressed(4)] show ?thesis
    using set_update_subset_insert [of "sy_tasks y" i "(x, t')"]
    by (fastforce simp: all_ok_def progressed(1))
qed

lemma reachable_ok: "task_reachable arrive fresh step y y' \<Longrightarrow> all_ok y \<Longrightarrow> all_ok y'"
  unfolding task_reachable_def by (induction rule: rtranclp_induct) (blast intro: task_step_ok)+

lemma no_tasks_ok: "inv s \<Longrightarrow> all_ok (no_tasks s)"
  by (simp add: all_ok_def)

end

section \<open>Gauges\<close>

text \<open>
  A counter to which every task contributes: \<open>weight x t\<close> is what the task of \<open>x\<close> contributes while it
  stands at \<open>t\<close>. If each step changes the counter by the change of its own task's weight, the
  counter is the sum of the weights, however the tasks interleave.
\<close>

definition tally :: "('x \<Rightarrow> 't \<Rightarrow> u64) \<Rightarrow> ('x \<times> 't) list \<Rightarrow> u64" where
  "tally weight ts = (\<Sum>(x, t) \<leftarrow> ts. weight x t)"

lemma tally_simps [simp]:
  "tally w [] = 0" "tally w (ts @ [(x, t)]) = tally w ts + w x t"
  by (simp_all add: tally_def)

lemma tally_update:
  "i < length ts \<Longrightarrow> ts ! i = (x, t) \<Longrightarrow> tally w (ts[i := (x, t')]) + w x t = tally w ts + w x t'"
proof (induction ts arbitrary: i)
  case (Cons e ts)
  then show ?case
    by (cases i) (auto simp: tally_def algebra_simps split: prod.splits)
qed simp

locale gauge = tasks +
  fixes reading :: "'a \<Rightarrow> u64" and weight :: "'c \<Rightarrow> 'b \<Rightarrow> u64"
  assumes reading_arrive: "inv s \<Longrightarrow> reading (arrive s) = reading s + weight x fresh"
    and reading_step: "inv s \<Longrightarrow> ok s x t \<Longrightarrow> step x (t, s) = Some (t', s') \<Longrightarrow>
      reading s' + weight x t = reading s + weight x t'"
begin

lemma task_step_reading:
  assumes "task_step arrive fresh step y y'" "all_ok y"
    and "reading (sy_state y) = base + tally weight (sy_tasks y)"
  shows "reading (sy_state y') = base + tally weight (sy_tasks y')"
  using assms(1)
proof cases
  case (spawned x)
  have "reading (arrive (sy_state y)) = reading (sy_state y) + weight x fresh"
    using assms(2) by (intro reading_arrive) (simp add: all_ok_def)
  with assms(3) show ?thesis by (simp add: spawned)
next
  case (progressed i x t t' s')
  have "reading s' + weight x t = reading (sy_state y) + weight x t'"
    using reading_step [OF _ all_okD [OF assms(2) progressed(2,3)] progressed(4)] assms(2)
    by (simp add: all_ok_def)
  then have "reading s' = base + (tally weight (sy_tasks y) + weight x t') - weight x t"
    using assms(3) by (simp add: algebra_simps)
  then have "reading s' = base + tally weight ((sy_tasks y)[i := (x, t')])"
    unfolding tally_update [OF progressed(2,3), symmetric] by simp
  then show ?thesis by (simp add: progressed(1))
qed

lemma reading_exact:
  assumes "task_reachable arrive fresh step (no_tasks s) y" "inv s"
  shows "reading (sy_state y) = reading s + tally weight (sy_tasks y)"
  using assms(1) unfolding task_reachable_def
proof (induction rule: rtranclp_induct)
  case (step y y')
  have "all_ok y"
    using reachable_ok [OF _ no_tasks_ok [OF assms(2)]] step.hyps(1) by (simp add: task_reachable_def)
  with step show ?case by (blast intro: task_step_reading)
qed simp

end

text \<open>A weight of zero or one counts tasks.\<close>

definition tasks_at :: "('x \<Rightarrow> 't \<Rightarrow> bool) \<Rightarrow> ('x \<times> 't) list \<Rightarrow> nat" where
  "tasks_at P ts = length (filter (\<lambda>(x, t). P x t) ts)"

lemma tally_indicator: "tally (\<lambda>x t. if P x t then 1 else 0) ts = word_of_nat (tasks_at P ts)"
  by (induction ts) (auto simp: tally_def tasks_at_def)

lemma tally_one: "tally (\<lambda>x t. 1) ts = word_of_nat (length ts)"
  by (induction ts) (auto simp: tally_def)

lemma tasks_at_le: "tasks_at P ts \<le> length ts"
  by (simp add: tasks_at_def)

lemma tasks_at_update:
  "i < length ts \<Longrightarrow> ts ! i = (x, t) \<Longrightarrow>
     tasks_at P (ts[i := (x, t')]) + (if P x t then 1 else 0) =
     tasks_at P ts + (if P x t' then 1 else 0)"
proof (induction ts arbitrary: i)
  case (Cons e ts)
  then show ?case by (cases i) (auto simp: tasks_at_def split: prod.splits)
qed simp

lemma tally_of_nat: "tally (\<lambda>x t. word_of_nat (f x t)) ts = word_of_nat (\<Sum>(x, t) \<leftarrow> ts. f x t)"
  by (induction ts) (auto simp: tally_def)

end
