(* ===== verification/Tcp_Concurrency.thy ===== *)
theory Tcp_Concurrency
  imports Tcp_Proxy Task_System
begin

text \<open>
  TCP connections served at the same time. \<open>start\<close> spawns a task for every connection; the tasks
  share the proxy's counters, the connection pools, the balancer and the statistics of the
  upstreams. The handler of \<open>Tcp_Proxy\<close> is cut here at its accesses to the shared state, so that
  other connections can come between any two of them: the scan of least connections, the strategy the
  router gives its TCP proxies, reads one upstream per step, and every read and every partial write
  of a relay is a step. A relay's last write of an iteration and the two counter updates behind it
  are one step; no \<open>await\<close> stands between them, so \<open>select!\<close> cannot part them, and other tasks see
  only the counter. The pick of another strategy, the pool lookup (which holds a lock) and the
  compound updates of one statistics object (\<open>record_success\<close>: two counters and the moving average;
  the beginning and the end of a handler: counters only) stay single steps.
\<close>

section \<open>The task of a connection\<close>

text \<open>
  Where \<open>handle_connection\<close> stands: before the choice of the upstream, within the scan for the fewest
  connections (with the available upstreams seen so far, the count read of each, and the upstreams
  to come), before the connection to the chosen one, before it is counted there, relaying (with the
  reads and writes to come), after the relay, before the end of the handler, ended. A connection that
  was relayed keeps its upstream and what it delivered.
\<close>

datatype tcp_task =
    Accepted
  | Scanning "(arc \<times> u64) list" "arc list"
  | Chosen arc
  | Opened arc
  | Streaming arc relay_state "(direction \<times> io_step) list"
  | Recording arc relay_state "u64 result"
  | Returning "(arc \<times> relay_state) option" "unit result"
  | Closed "(arc \<times> relay_state) option" "unit result"

definition tcp_arrive :: "'q tcp_state \<Rightarrow> 'q tcp_state" where
  "tcp_arrive s = s\<lparr>ts_metrics := tcp_begin (ts_metrics s)\<rparr>"

definition chosen :: "arc option \<Rightarrow> tcp_task" where
  "chosen selected =
     (case selected of
        None \<Rightarrow>
          Returning None (Inl (err_proxy ''No healthy upstream available'' ''tcp'' ''unknown''))
      | Some p \<Rightarrow> Chosen p)"

text \<open>
  \<open>select_upstream\<close> holds the read lock of the list and, under least connections, takes the first
  minimum over the available upstreams (\<open>min_by_key\<close>), each counter being loaded on its own.
\<close>

fun tcp_task_step ::
  "(string \<Rightarrow> u64) \<Rightarrow> 'q queue_lib \<Rightarrow> tcp_proxy_config \<Rightarrow> tcp_exchange \<Rightarrow>
   tcp_task \<times> 'q tcp_state \<Rightarrow> (tcp_task \<times> 'q tcp_state) option" where
  "tcp_task_step hasher lib config x (Accepted, s) =
     (if lb_strategy (ts_balancer s) = LeastConnections
      then Some (Scanning [] (lb_upstreams (ts_balancer s)), s)
      else
        let (selected, lb) =
              select_upstream hasher (ts_heap s) (Some (show_socket_addr (tx_client_addr x)))
                (ts_balancer s)
        in Some (chosen selected, s\<lparr>ts_balancer := lb\<rparr>))"
| "tcp_task_step hasher lib config x (Scanning seen rest, s) =
     (case rest of
        [] \<Rightarrow> Some (chosen (map_option fst (min_by_key snd seen)), s)
      | q # rest \<Rightarrow>
          (let read = (q, active_connections (ui_stats (ts_heap s ! q)))
           in Some (Scanning (if heap_available (ts_heap s) q then seen @ [read] else seen) rest, s)))"
| "tcp_task_step hasher lib config x (Chosen p, s) =
     (case get_upstream_connection lib config x (ts_heap s ! p) (ts_metrics s, ts_pools s) of
        None \<Rightarrow> None
      | Some (Inl e, m, pools) \<Rightarrow>
          Some (Returning None (Inl e), s\<lparr>ts_metrics := m, ts_pools := pools\<rparr>)
      | Some (Inr st, m, pools) \<Rightarrow> Some (Opened p, s\<lparr>ts_metrics := m, ts_pools := pools\<rparr>))"
| "tcp_task_step hasher lib config x (Opened p, s) =
     Some (Streaming p (relay_start (tm_bytes_transferred (ts_metrics s))) (tx_schedule x),
           s\<lparr>ts_heap := on_stats (\<lambda>st. snd (increment_connections st)) p (ts_heap s)\<rparr>)"
| "tcp_task_step hasher lib config x (Streaming p r es, s) =
     (case relay_result r of
        Some result \<Rightarrow>
          Some (Recording p r result,
                s\<lparr>ts_heap := on_stats (\<lambda>st. snd (decrement_connections st)) p (ts_heap s)\<rparr>)
      | None \<Rightarrow>
          (case es of
             [] \<Rightarrow> None
           | (d, e) # es \<Rightarrow>
               (let r = relay_step (tx_sent x) d e (r\<lparr>rl_transferred := tm_bytes_transferred (ts_metrics s)\<rparr>)
                in Some (Streaming p r es,
                     s\<lparr>ts_metrics := (ts_metrics s)\<lparr>tm_bytes_transferred := rl_transferred r\<rparr>\<rparr>))))"
| "tcp_task_step hasher lib config x (Recording p r result, s) =
     (case result of
        Inr bytes \<Rightarrow>
          Some (Returning (Some (p, r)) (Inr ()),
                s\<lparr>ts_heap := on_stats (record_success (tx_end x) (tx_stream_elapsed x)) p (ts_heap s)\<rparr>)
      | Inl e \<Rightarrow>
          Some (Returning (Some (p, r)) (Inl e),
                s\<lparr>ts_heap := on_stats (record_failure (tx_end x)) p (ts_heap s)\<rparr>))"
| "tcp_task_step hasher lib config x (Returning relayed result, s) =
     Some (Closed relayed result, s\<lparr>ts_metrics := tcp_end (tx_elapsed x) (ts_metrics s)\<rparr>)"
| "tcp_task_step hasher lib config x (Closed relayed result, s) = None"

type_synonym 'q tcp_system = "('q tcp_state, tcp_exchange, tcp_task) task_system"

definition tcp_reachable ::
  "(string \<Rightarrow> u64) \<Rightarrow> 'q queue_lib \<Rightarrow> tcp_proxy_config \<Rightarrow> 'q tcp_system \<Rightarrow> 'q tcp_system \<Rightarrow> bool" where
  "tcp_reachable hasher lib config =
     task_reachable tcp_arrive Accepted (tcp_task_step hasher lib config)"

section \<open>What a task stands for\<close>

text \<open>The relay of a task, where it has one, and the upstreams a task knows.\<close>

fun task_relay :: "tcp_task \<Rightarrow> relay_state option" where
  "task_relay (Streaming p r es) = Some r"
| "task_relay (Recording p r result) = Some r"
| "task_relay (Returning relayed result) = map_option snd relayed"
| "task_relay (Closed relayed result) = map_option snd relayed"
| "task_relay t = None"

fun task_arcs :: "tcp_task \<Rightarrow> arc set" where
  "task_arcs Accepted = {}"
| "task_arcs (Scanning seen rest) = fst ` set seen \<union> set rest"
| "task_arcs (Chosen p) = {p}"
| "task_arcs (Opened p) = {p}"
| "task_arcs (Streaming p r es) = {p}"
| "task_arcs (Recording p r result) = {p}"
| "task_arcs (Returning relayed result) = set_option (map_option fst relayed)"
| "task_arcs (Closed relayed result) = set_option (map_option fst relayed)"

fun is_open :: "tcp_task \<Rightarrow> bool" where
  "is_open (Closed relayed result) = False"
| "is_open t = True"

fun streams_to :: "arc \<Rightarrow> tcp_task \<Rightarrow> bool" where
  "streams_to p (Streaming q r es) = (q = p)"
| "streams_to p t = False"

fun recorded_at :: "arc \<Rightarrow> tcp_task \<Rightarrow> bool" where
  "recorded_at p (Returning (Some (q, r)) result) = (q = p)"
| "recorded_at p (Closed (Some (q, r)) result) = (q = p)"
| "recorded_at p t = False"

text \<open>The bytes a connection has delivered, in both directions, and those it has counted.\<close>

definition task_delivered :: "tcp_task \<Rightarrow> nat" where
  "task_delivered t = (case task_relay t of None \<Rightarrow> 0 | Some r \<Rightarrow> delivered_bytes r)"

definition task_counted :: "tcp_task \<Rightarrow> nat" where
  "task_counted t = (case task_relay t of None \<Rightarrow> 0 | Some r \<Rightarrow> counted_bytes r)"

lemma chosen_facts [simp]:
  "task_relay (chosen u) = None" "task_arcs (chosen u) = set_option u" "is_open (chosen u)"
  "\<not> streams_to p (chosen u)" "\<not> recorded_at p (chosen u)" "chosen u = Chosen p \<longleftrightarrow> u = Some p"
  "chosen u \<noteq> Scanning seen rest"
  by (cases u; simp add: chosen_def)+

section \<open>Lemmas: relays of concurrent connections\<close>

text \<open>The shared byte counter is no part of what a relay has delivered.\<close>

definition same_copies :: "relay_state \<Rightarrow> relay_state \<Rightarrow> bool" where
  "same_copies r r' \<longleftrightarrow> (\<forall>d. relay_side d r = relay_side d r')"

lemma same_copies_facts:
  assumes "same_copies r r'"
  shows "relay_result r = relay_result r'" "relay_ordered sent r = relay_ordered sent r'"
proof -
  have sides: "relay_side d r = relay_side d r'" for d using assms by (simp add: same_copies_def)
  then have "rl_up r = rl_up r'" "rl_down r = rl_down r'" by (simp_all add: relay_sides)
  then show "relay_result r = relay_result r'" by (simp add: relay_result_def split: option.split)
  show "relay_ordered sent r = relay_ordered sent r'" using sides by (simp add: relay_ordered_def)
qed

lemma relay_side_transferred [simp]: "relay_side d (r\<lparr>rl_transferred := t\<rparr>) = relay_side d r"
  by (cases d) (simp_all add: relay_side_def)

lemma same_copies_step:
  assumes "same_copies r r'"
  shows "same_copies (relay_step sent d e (r\<lparr>rl_transferred := t\<rparr>)) (relay_step sent d e r')"
  using assms copy_step_transferred_irrelevant
  by (auto simp: same_copies_def relay_step_side)

lemma relay_snoc:
  "relay_result (relay sent es r) = None \<Longrightarrow>
     relay sent (es @ [(d, e)]) r = relay_step sent d e (relay sent es r)"
  by (simp add: relay_append Let_def)

lemma relay_ended:
  "relay_result (relay sent es r) \<noteq> None \<Longrightarrow> relay_result r = None \<Longrightarrow>
     relay sent (es @ es') r = relay sent es r"
  by (induction sent es r rule: relay.induct) (auto simp: Let_def split: if_splits)

lemma relay_start_transferred [simp]: "(relay_start t)\<lparr>rl_transferred := t'\<rparr> = relay_start t'"
  by (simp add: relay_start_def)

text \<open>A task's relay is the relay of its own connection's steps so far.\<close>

definition relays ::
  "(direction \<Rightarrow> u8 list) \<Rightarrow> (direction \<times> io_step) list \<Rightarrow> relay_state \<Rightarrow> bool" where
  "relays sent es r \<longleftrightarrow> same_copies r (relay sent es (relay_start 0))"

lemma relays_start: "relays sent [] (relay_start t)"
  by (simp add: relays_def same_copies_def)

lemma relays_facts:
  assumes "relays sent es r"
  shows "relay_result r = relay_result (relay sent es (relay_start 0))" "relay_ordered sent r"
proof -
  note same = same_copies_facts [OF assms [unfolded relays_def]]
  show "relay_result r = relay_result (relay sent es (relay_start 0))" by (rule same(1))
  show "relay_ordered sent r"
    using same(2) [of sent] relay_ok [of sent "relay_start 0" es] by simp
qed

lemma relays_step:
  "relays sent es r \<Longrightarrow> relay_result r = None \<Longrightarrow>
     relays sent (es @ [(d, e)]) (relay_step sent d e (r\<lparr>rl_transferred := t\<rparr>))"
  using same_copies_step [of r "relay sent es (relay_start 0)" sent d e t] relays_facts(1) [of sent es r]
  by (simp add: relays_def relay_snoc)

lemma relays_ended: "relays sent es r \<Longrightarrow> relay_result r \<noteq> None \<Longrightarrow> relays sent (es @ es') r"
  using relays_facts(1) [of sent es r] relay_ended [of sent es "relay_start 0" es']
  by (simp add: relays_def)

fun relay_fits :: "tcp_exchange \<Rightarrow> tcp_task \<Rightarrow> bool" where
  "relay_fits x (Streaming p r es) \<longleftrightarrow>
     (\<exists>before. tx_schedule x = before @ es \<and> relays (tx_sent x) before r)"
| "relay_fits x (Recording p r result) \<longleftrightarrow>
     relays (tx_sent x) (tx_schedule x) r \<and> relay_result r = Some result"
| "relay_fits x (Returning relayed result) \<longleftrightarrow>
     (case relayed of None \<Rightarrow> True | Some (p, r) \<Rightarrow> relays (tx_sent x) (tx_schedule x) r)"
| "relay_fits x (Closed relayed result) \<longleftrightarrow>
     (case relayed of None \<Rightarrow> True | Some (p, r) \<Rightarrow> relays (tx_sent x) (tx_schedule x) r)"
| "relay_fits x t \<longleftrightarrow> True"

lemma relay_fits_ordered: "relay_fits x t \<Longrightarrow> task_relay t = Some r \<Longrightarrow> relay_ordered (tx_sent x) r"
  by (cases t) (auto dest: relays_facts(2) split: option.splits)

lemma relay_fits_chosen [simp]: "relay_fits x (chosen u)"
  by (simp add: chosen_def split: option.split)

definition tcp_task_ok :: "'q tcp_state \<Rightarrow> tcp_exchange \<Rightarrow> tcp_task \<Rightarrow> bool" where
  "tcp_task_ok s x t \<longleftrightarrow> task_arcs t \<subseteq> {..<length (ts_heap s)} \<and> relay_fits x t"

section \<open>Lemmas: the steps of a task\<close>

lemma tcp_task_step_relay_fits:
  assumes "relay_fits x t" "tcp_task_step hasher lib config x (t, s) = Some (t', s')"
  shows "relay_fits x t'"
proof (cases t)
  case (Opened p)
  with assms(2) have "t' = Streaming p (relay_start (tm_bytes_transferred (ts_metrics s))) (tx_schedule x)"
    by simp
  then show ?thesis using relays_start by auto
next
  case (Streaming p r es)
  then obtain before where b: "tx_schedule x = before @ es" "relays (tx_sent x) before r"
    using assms(1) by auto
  show ?thesis
  proof (cases "relay_result r")
    case None
    with Streaming assms(2) obtain d e es' where es: "es = (d, e) # es'"
      by (cases es) auto
    with None Streaming assms(2) have "t' = Streaming p
        (relay_step (tx_sent x) d e (r\<lparr>rl_transferred := tm_bytes_transferred (ts_metrics s)\<rparr>)) es'"
      by (simp add: Let_def)
    moreover have "tx_schedule x = (before @ [(d, e)]) @ es'" using b(1) es by simp
    ultimately show ?thesis using relays_step [OF b(2) None] by (fastforce intro: exI [of _ "before @ [(d, e)]"])
  next
    case (Some result)
    with Streaming assms(2) have "t' = Recording p r result" by simp
    with relays_ended [OF b(2), of es] b(1) Some show ?thesis by simp
  qed
next
  case Accepted
  with assms(2) show ?thesis by (auto simp: Let_def split: if_splits prod.splits)
qed (use assms in \<open>auto simp: Let_def split: option.splits prod.splits sum.splits list.splits\<close>)

lemma tcp_task_step_length:
  "tcp_task_step hasher lib config x (t, s) = Some (t', s') \<Longrightarrow>
     length (ts_heap s') = length (ts_heap s)"
  by (cases t) (auto simp: Let_def split: if_splits option.splits prod.splits sum.splits list.splits)

lemma tcp_task_step_wf:
  assumes "tcp_wf hasher s" "tcp_task_step hasher lib config x (t, s) = Some (t', s')"
  shows "tcp_wf hasher s'"
proof (cases t)
  case Accepted
  obtain sel lb where sel: "select_upstream hasher (ts_heap s)
      (Some (show_socket_addr (tx_client_addr x))) (ts_balancer s) = (sel, lb)" by fastforce
  have "balancer_wf hasher (ts_heap s) lb"
    using balancer_select.pick_frame [OF _ sel] assms(1) by (auto simp: tcp_wf_def)
  with sel assms Accepted show ?thesis by (auto simp: tcp_wf_def split: if_splits)
qed (use assms in \<open>auto simp: tcp_wf_def Let_def balancer_wf_on_stats
    split: option.splits prod.splits sum.splits list.splits\<close>)

text \<open>A task learns only of upstreams in the list.\<close>

lemma tcp_task_step_arcs:
  assumes "balancer_wf hasher (ts_heap s) (ts_balancer s)"
    and "tcp_task_step hasher lib config x (t, s) = Some (t', s')"
  shows "task_arcs t' \<subseteq> task_arcs t \<union> set (lb_upstreams (ts_balancer s))"
proof (cases t)
  case Accepted
  obtain sel lb where sel: "select_upstream hasher (ts_heap s)
      (Some (show_socket_addr (tx_client_addr x))) (ts_balancer s) = (sel, lb)" by fastforce
  have "set_option sel \<subseteq> set (lb_upstreams (ts_balancer s))"
    using balancer_select.pick_sound [OF assms(1)] sel by (cases sel) auto
  with sel assms(2) Accepted show ?thesis by (auto split: if_splits)
next
  case (Scanning seen rest)
  show ?thesis
  proof (cases rest)
    case Nil
    with Scanning assms(2) have "t' = chosen (map_option fst (min_by_key snd seen))" by simp
    then show ?thesis
      using min_by_key_mem [of snd seen] by (auto simp: Scanning intro: rev_image_eqI)
  next
    case (Cons q rest')
    with Scanning assms(2) show ?thesis by (auto simp: Let_def split: if_splits)
  qed
qed (use assms(2) in \<open>auto simp: Let_def split: option.splits prod.splits sum.splits list.splits\<close>)

interpretation tcp_tasks:
  tasks tcp_arrive Accepted "tcp_task_step hasher lib config" "tcp_wf hasher" tcp_task_ok
  for hasher lib config
proof unfold_locales
  fix s :: "'q tcp_state" and x :: tcp_exchange and t t' :: tcp_task and s' :: "'q tcp_state"
    and lib :: "'q queue_lib"
  show "tcp_wf hasher s \<Longrightarrow> tcp_wf hasher (tcp_arrive s) \<and> tcp_task_ok (tcp_arrive s) x Accepted"
    by (simp add: tcp_wf_def tcp_arrive_def tcp_task_ok_def)
  show "tcp_task_ok s x t \<Longrightarrow> tcp_task_ok (tcp_arrive s) x t"
    by (simp add: tcp_task_ok_def tcp_arrive_def)
  assume step: "tcp_wf hasher s" "tcp_task_ok s x t"
    "tcp_task_step hasher lib config x (t, s) = Some (t', s')"
  have wf: "balancer_wf hasher (ts_heap s) (ts_balancer s)" using step(1) by (simp add: tcp_wf_def)
  have "task_arcs t' \<subseteq> {..<length (ts_heap s)}"
    using tcp_task_step_arcs [OF wf step(3)] balancer_wf_fields(1) [OF wf] step(2)
    by (auto simp: tcp_task_ok_def)
  then show "tcp_wf hasher s' \<and> tcp_task_ok s' x t'"
    using tcp_task_step_wf [OF step(1,3)] step(2)
      tcp_task_step_relay_fits [OF _ step(3)] tcp_task_step_length [OF step(3)]
    by (simp add: tcp_task_ok_def)
  show "tcp_task_ok s x0 t0 \<Longrightarrow> tcp_task_ok s' x0 t0" for x0 t0
    by (simp add: tcp_task_ok_def tcp_task_step_length [OF step(3)])
qed

section \<open>Lemmas: the gauges\<close>

text \<open>The pool changes only its own counters.\<close>

lemma get_upstream_connection_frame:
  "get_upstream_connection lib config x u (m, pools) = Some (r, m1, pools1) \<Longrightarrow>
     tm_connections_total m1 = tm_connections_total m \<and>
     tm_connections_active m1 = tm_connections_active m \<and>
     tm_connection_duration_count m1 = tm_connection_duration_count m \<and>
     tm_bytes_transferred m1 = tm_bytes_transferred m"
  by (auto simp: get_upstream_connection_def split: if_splits option.splits)

definition connection_counters :: "'q tcp_state \<Rightarrow> u64 \<times> u64 \<times> u64" where
  "connection_counters s =
     (tm_connections_total (ts_metrics s), tm_connections_active (ts_metrics s),
      tm_connection_duration_count (ts_metrics s))"

lemma connection_counters_arrive:
  "connection_counters (tcp_arrive s) = (case connection_counters s of (n, a, d) \<Rightarrow> (n + 1, a + 1, d))"
  by (simp add: connection_counters_def tcp_arrive_def tcp_begin_def)

lemma connection_counters_step:
  assumes "tcp_task_step hasher lib config x (t, s) = Some (t', s')"
  shows "connection_counters s' =
    (case connection_counters s of (n, a, d) \<Rightarrow>
       if is_open t' then (n, a, d) else (n, a - 1, d + 1)) \<and> is_open t"
  using assms
  by (cases t) (auto simp: connection_counters_def tcp_end_def Let_def
      dest!: get_upstream_connection_frame
      split: if_splits option.splits prod.splits sum.splits list.splits)

lemma bytes_step:
  assumes "tcp_task_ok s x t" "tcp_task_step hasher lib config x (t, s) = Some (t', s')"
  shows "tm_bytes_transferred (ts_metrics s') + word_of_nat (task_counted t) =
    tm_bytes_transferred (ts_metrics s) + word_of_nat (task_counted t')"
proof (cases t)
  case (Streaming p r es)
  show ?thesis
  proof (cases "relay_result r")
    case None
    with Streaming assms(2) obtain d e es' where es: "es = (d, e) # es'"
      by (cases es) auto
    let ?r = "r\<lparr>rl_transferred := tm_bytes_transferred (ts_metrics s)\<rparr>"
    have "relay_ordered (tx_sent x) ?r"
      using assms(1) Streaming relays_facts(2) by (auto simp: tcp_task_ok_def relay_ordered_def)
    from relay_step_ok(2) [OF this, of d e] show ?thesis
      using assms(2) None es
      by (auto simp: Streaming task_counted_def counted_bytes_def Let_def)
  next
    case (Some result)
    with Streaming assms(2) show ?thesis by (auto simp: task_counted_def)
  qed
next
  case Accepted
  with assms(2) show ?thesis by (auto simp: task_counted_def split: if_splits prod.splits)
qed (use assms(2) in \<open>auto simp: task_counted_def tcp_end_def Let_def
    dest!: get_upstream_connection_frame
    split: option.splits prod.splits sum.splits list.splits\<close>)

lemma on_stats_other: "q \<noteq> p \<Longrightarrow> on_stats f q h ! p = h ! p"
  by (simp add: on_stats_def)

lemma streams_step:
  assumes "tcp_task_ok s x t" "tcp_task_step hasher lib config x (t, s) = Some (t', s')"
  shows "active_connections (ui_stats (ts_heap s' ! p)) + (if streams_to p t then 1 else 0) =
    active_connections (ui_stats (ts_heap s ! p)) + (if streams_to p t' then 1 else 0)"
  using assms
  by (cases t; cases "p \<in> task_arcs t")
    (auto simp: tcp_task_ok_def on_stats_other on_stats_nth increment_connections_def
      decrement_connections_def record_success_def record_failure_def Let_def
      split: if_splits option.splits prod.splits sum.splits list.splits)

lemma recorded_step:
  assumes "tcp_task_ok s x t" "tcp_task_step hasher lib config x (t, s) = Some (t', s')"
  shows "requests_sent (ui_stats (ts_heap s' ! p)) + (if recorded_at p t then 1 else 0) =
    requests_sent (ui_stats (ts_heap s ! p)) + (if recorded_at p t' then 1 else 0)"
  using assms
  by (cases t; cases "p \<in> task_arcs t")
    (auto simp: tcp_task_ok_def on_stats_other on_stats_nth increment_connections_def
      decrement_connections_def record_success_def record_failure_def Let_def
      split: if_splits option.splits prod.splits sum.splits list.splits)

interpretation tcp_active:
  gauge tcp_arrive Accepted "tcp_task_step hasher lib config" "tcp_wf hasher" tcp_task_ok
    "\<lambda>s. tm_connections_active (ts_metrics s)" "\<lambda>x t. if is_open t then 1 else 0"
  for hasher lib config
  by unfold_locales (simp add: tcp_arrive_def tcp_begin_def,
    auto simp: connection_counters_def dest!: connection_counters_step split: if_splits)

interpretation tcp_total:
  gauge tcp_arrive Accepted "tcp_task_step hasher lib config" "tcp_wf hasher" tcp_task_ok
    "\<lambda>s. tm_connections_total (ts_metrics s)" "\<lambda>x t. 1"
  for hasher lib config
  by unfold_locales (simp add: tcp_arrive_def tcp_begin_def,
    auto simp: connection_counters_def dest!: connection_counters_step split: if_splits)

interpretation tcp_ended:
  gauge tcp_arrive Accepted "tcp_task_step hasher lib config" "tcp_wf hasher" tcp_task_ok
    "\<lambda>s. tm_connection_duration_count (ts_metrics s)" "\<lambda>x t. if \<not> is_open t then 1 else 0"
  for hasher lib config
  by unfold_locales (simp add: tcp_arrive_def tcp_begin_def,
    auto simp: connection_counters_def dest!: connection_counters_step split: if_splits)

interpretation tcp_bytes:
  gauge tcp_arrive Accepted "tcp_task_step hasher lib config" "tcp_wf hasher" tcp_task_ok
    "\<lambda>s. tm_bytes_transferred (ts_metrics s)" "\<lambda>x t. word_of_nat (task_counted t)"
  for hasher lib config
  by unfold_locales (simp add: tcp_arrive_def tcp_begin_def task_counted_def,
    rule bytes_step)

interpretation tcp_streams:
  gauge tcp_arrive Accepted "tcp_task_step hasher lib config" "tcp_wf hasher" tcp_task_ok
    "\<lambda>s. active_connections (ui_stats (ts_heap s ! p))" "\<lambda>x t. if streams_to p t then 1 else 0"
  for hasher lib config p
  by unfold_locales (simp add: tcp_arrive_def, rule streams_step)

interpretation tcp_recorded:
  gauge tcp_arrive Accepted "tcp_task_step hasher lib config" "tcp_wf hasher" tcp_task_ok
    "\<lambda>s. requests_sent (ui_stats (ts_heap s ! p))" "\<lambda>x t. if recorded_at p t then 1 else 0"
  for hasher lib config p
  by unfold_locales (simp add: tcp_arrive_def, rule recorded_step)

lemmas tcp_readings =
  tcp_total.reading_exact tcp_active.reading_exact tcp_ended.reading_exact tcp_bytes.reading_exact
  tcp_streams.reading_exact tcp_recorded.reading_exact

lemma tcp_reachable_ok:
  assumes "tcp_reachable hasher lib config (no_tasks s) y" "tcp_wf hasher s"
  shows "tcp_wf hasher (sy_state y)" "(x, t) \<in> set (sy_tasks y) \<Longrightarrow> tcp_task_ok (sy_state y) x t"
  using tcp_tasks.reachable_ok [OF assms(1) [unfolded tcp_reachable_def] tcp_tasks.no_tasks_ok [OF assms(2)]]
  by (auto simp: tcp_tasks.all_ok_def)

section \<open>Lemmas: the handler is a run\<close>

lemma relay_solo:
  assumes "rl_transferred r = tm_bytes_transferred (ts_metrics s)"
    and "relay_result r = None" "relay_result (relay (tx_sent x) es r) \<noteq> None"
  shows "\<exists>es'. solo (tcp_task_step hasher lib config) x (Streaming p r es, s)
    (Streaming p (relay (tx_sent x) es r) es',
     s\<lparr>ts_metrics := (ts_metrics s)\<lparr>tm_bytes_transferred := rl_transferred (relay (tx_sent x) es r)\<rparr>\<rparr>)"
  using assms
proof (induction "tx_sent x" es r arbitrary: s rule: relay.induct)
  case (2 d e es r)
  let ?relay = "relay (tx_sent x)"
  let ?r = "relay_step (tx_sent x) d e r"
  let ?s = "s\<lparr>ts_metrics := (ts_metrics s)\<lparr>tm_bytes_transferred := rl_transferred ?r\<rparr>\<rparr>"
  have "r\<lparr>rl_transferred := tm_bytes_transferred (ts_metrics s)\<rparr> = r"
    by (simp flip: "2.prems"(1))
  then have step: "tcp_task_step hasher lib config x (Streaming p r ((d, e) # es), s) =
      Some (Streaming p ?r es, ?s)"
    using "2.prems"(2) by (simp add: Let_def)
  show ?case
  proof (cases "relay_result ?r = None")
    case True
    with "2.prems"(3) have "relay_result (?relay es ?r) \<noteq> None" by (simp add: Let_def)
    with "2.hyps" [OF refl True, of ?s] True obtain es' where
      "solo (tcp_task_step hasher lib config) x (Streaming p ?r es, ?s)
        (Streaming p (?relay es ?r) es',
         s\<lparr>ts_metrics := (ts_metrics s)\<lparr>tm_bytes_transferred := rl_transferred (?relay es ?r)\<rparr>\<rparr>)"
      by auto
    from solo_step [of "tcp_task_step hasher lib config", OF step this] True show ?thesis
      by (auto simp: Let_def)
  next
    case False
    with solo_step [of "tcp_task_step hasher lib config", OF step solo_refl] show ?thesis
      by (auto simp: Let_def)
  qed
qed simp

lemma stream_solo:
  assumes "stream_bidirectional x p (ts_metrics s, ts_heap s) = (Some res, m1, h1)"
  shows "\<exists>r. solo (tcp_task_step hasher lib config) x (Opened p, s)
    (Returning (Some (p, r)) res, s\<lparr>ts_metrics := m1, ts_heap := h1\<rparr>)"
proof -
  let ?run = "solo (tcp_task_step hasher lib config) x"
  let ?idle = "relay_start (tm_bytes_transferred (ts_metrics s))"
  let ?r = "relay (tx_sent x) (tx_schedule x) ?idle"
  let ?s1 = "s\<lparr>ts_heap := on_stats (\<lambda>st. snd (increment_connections st)) p (ts_heap s)\<rparr>"
  let ?s2 = "?s1\<lparr>ts_metrics := (ts_metrics s)\<lparr>tm_bytes_transferred := rl_transferred ?r\<rparr>\<rparr>"
  let ?s3 = "?s2\<lparr>ts_heap := on_stats (\<lambda>st. snd (decrement_connections st)) p (ts_heap ?s2)\<rparr>"
  from assms obtain result where result: "relay_result ?r = Some result"
    by (auto simp: stream_bidirectional_def Let_def split: option.splits)
  obtain es' where relayed: "?run (Streaming p ?idle (tx_schedule x), ?s1) (Streaming p ?r es', ?s2)"
    using relay_solo [of ?idle ?s1 x "tx_schedule x" hasher lib config p] result by auto
  have close: "tcp_task_step hasher lib config x (Streaming p ?r es', ?s2) = Some (Recording p ?r result, ?s3)"
    using result by simp
  have recorded: "tcp_task_step hasher lib config x (Recording p ?r result, ?s3) =
      Some (Returning (Some (p, ?r)) res, s\<lparr>ts_metrics := m1, ts_heap := h1\<rparr>)"
    using assms result by (cases result) (auto simp: stream_bidirectional_def Let_def)
  have "?run (Opened p, s) (Streaming p ?idle (tx_schedule x), ?s1)"
    by (rule solo_step [OF _ solo_refl]) simp
  also note relayed
  also have "?run (Streaming p ?r es', ?s2) (Recording p ?r result, ?s3)"
    by (rule solo_step [of "tcp_task_step hasher lib config", OF close solo_refl])
  also have "?run (Recording p ?r result, ?s3)
      (Returning (Some (p, ?r)) res, s\<lparr>ts_metrics := m1, ts_heap := h1\<rparr>)"
    by (rule solo_step [of "tcp_task_step hasher lib config", OF recorded solo_refl])
  finally show ?thesis by blast
qed

text \<open>A scan that nobody disturbs is the selection of least connections.\<close>

definition counts :: "upstream_heap \<Rightarrow> arc list \<Rightarrow> (arc \<times> u64) list" where
  "counts h ups = map (\<lambda>q. (q, active_connections (ui_stats (h ! q)))) (filter (heap_available h) ups)"

lemma min_by_key_map: "min_by_key key (map f xs) = map_option f (min_by_key (\<lambda>x. key (f x)) xs)"
  by (induction xs) (auto split: option.splits)

lemma min_of_counts: "map_option fst (min_by_key snd (counts h ups)) = select_least_connections h ups"
  by (simp add: counts_def min_by_key_map select_least_connections_def option.map_comp comp_def option.map_ident)

lemma scan_solo:
  "solo (tcp_task_step hasher lib config) x (Scanning seen rest, s)
     (Scanning (seen @ counts (ts_heap s) rest) [], s)"
proof (induction rest arbitrary: seen)
  case (Cons q rest)
  let ?seen = "if heap_available (ts_heap s) q
    then seen @ [(q, active_connections (ui_stats (ts_heap s ! q)))] else seen"
  have "tcp_task_step hasher lib config x (Scanning seen (q # rest), s) = Some (Scanning ?seen rest, s)"
    by (simp add: Let_def)
  from solo_step [of "tcp_task_step hasher lib config", OF this Cons.IH [of ?seen]]
  show ?case by (simp add: counts_def split: if_splits)
qed (simp add: counts_def solo_refl)

lemma choose_solo:
  assumes "select_upstream hasher (ts_heap s) (Some (show_socket_addr (tx_client_addr x)))
      (ts_balancer s) = (u, lb)"
  shows "solo (tcp_task_step hasher lib config) x (Accepted, s) (chosen u, s\<lparr>ts_balancer := lb\<rparr>)"
proof (cases "lb_strategy (ts_balancer s) = LeastConnections")
  case True
  let ?ups = "lb_upstreams (ts_balancer s)"
  let ?scan = "Scanning (counts (ts_heap s) ?ups) []"
  have "u = select_least_connections (ts_heap s) ?ups" "lb = ts_balancer s"
    using assms True by (auto simp: select_upstream_def select_least_connections_def Let_def
        split: if_splits)
  then have "tcp_task_step hasher lib config x (?scan, s) = Some (chosen u, s\<lparr>ts_balancer := lb\<rparr>)"
    by (simp add: min_of_counts)
  from solo_step [of "tcp_task_step hasher lib config", OF this solo_refl]
  have last: "solo (tcp_task_step hasher lib config) x (?scan, s) (chosen u, s\<lparr>ts_balancer := lb\<rparr>)" .
  have "tcp_task_step hasher lib config x (Accepted, s) = Some (Scanning [] ?ups, s)"
    using True by simp
  from solo_trans [OF solo_step [of "tcp_task_step hasher lib config", OF this
        scan_solo [of hasher lib config x "[]", simplified]] last]
  show ?thesis .
next
  case False
  with assms have "tcp_task_step hasher lib config x (Accepted, s) =
      Some (chosen u, s\<lparr>ts_balancer := lb\<rparr>)" by simp
  from solo_step [of "tcp_task_step hasher lib config", OF this solo_refl] show ?thesis .
qed

lemma process_solo:
  assumes "process_connection hasher lib config x s = (Some res, s1)"
  shows "\<exists>relayed. solo (tcp_task_step hasher lib config) x (Accepted, s) (Returning relayed res, s1)"
proof -
  let ?run = "solo (tcp_task_step hasher lib config) x"
  obtain sel lb where sel: "select_upstream hasher (ts_heap s)
      (Some (show_socket_addr (tx_client_addr x))) (ts_balancer s) = (sel, lb)" by fastforce
  let ?s = "s\<lparr>ts_balancer := lb\<rparr>"
  note choose = choose_solo [OF sel, of lib config]
  show ?thesis
  proof (cases sel)
    case None
    with assms sel choose have "?run (Accepted, s) (Returning None res, s1)"
      by (auto simp: process_connection_def chosen_def)
    then show ?thesis by blast
  next
    case (Some p)
    with choose have chosen: "?run (Accepted, s) (Chosen p, ?s)" by (simp add: chosen_def)
    obtain r m pools where c:
      "get_upstream_connection lib config x (ts_heap s ! p) (ts_metrics s, ts_pools s) = Some (r, m, pools)"
      using assms sel Some by (auto simp: process_connection_def Let_def split: option.splits)
    show ?thesis
    proof (cases r)
      case (Inl e)
      with assms sel Some c have "tcp_task_step hasher lib config x (Chosen p, ?s) = Some (Returning None res, s1)"
        by (auto simp: process_connection_def)
      from solo_trans [OF chosen solo_step [of "tcp_task_step hasher lib config", OF this solo_refl]]
      show ?thesis by blast
    next
      case (Inr st)
      let ?s2 = "?s\<lparr>ts_metrics := m, ts_pools := pools\<rparr>"
      obtain m1 h1 where b: "stream_bidirectional x p (ts_metrics ?s2, ts_heap ?s2) = (Some res, m1, h1)"
        and s1: "s1 = ?s2\<lparr>ts_metrics := m1, ts_heap := h1\<rparr>"
        using assms sel Some c Inr by (auto simp: process_connection_def Let_def split: prod.splits)
      have "tcp_task_step hasher lib config x (Chosen p, ?s) = Some (Opened p, ?s2)"
        using c Inr by simp
      from solo_trans [OF chosen solo_step [of "tcp_task_step hasher lib config", OF this]]
        stream_solo [OF b, of hasher lib config] show ?thesis unfolding s1 by blast
    qed
  qed
qed

lemma tcp_handle_connection_solo:
  assumes "tcp_handle_connection hasher lib config x s = (Some res, s1)"
  shows "\<exists>relayed. solo (tcp_task_step hasher lib config) x (Accepted, tcp_arrive s) (Closed relayed res, s1)"
proof -
  obtain s2 where p: "process_connection hasher lib config x (tcp_arrive s) = (Some res, s2)"
    and s1: "s1 = s2\<lparr>ts_metrics := tcp_end (tx_elapsed x) (ts_metrics s2)\<rparr>"
    using assms by (auto simp: tcp_handle_connection_def tcp_arrive_def split: prod.splits option.splits)
  from process_solo [OF p] obtain relayed where
    run: "solo (tcp_task_step hasher lib config) x (Accepted, tcp_arrive s) (Returning relayed res, s2)" by blast
  have "tcp_task_step hasher lib config x (Returning relayed res, s2) = Some (Closed relayed res, s1)"
    by (simp add: s1)
  from solo_trans [OF run solo_step [of "tcp_task_step hasher lib config", OF this solo_refl]] show ?thesis by blast
qed

section \<open>Lemmas: least connections\<close>

lemma tcp_task_step_frame:
  "tcp_task_step hasher lib config x (t, s) = Some (t', s') \<Longrightarrow>
     lb_strategy (ts_balancer s') = lb_strategy (ts_balancer s) \<and>
     lb_upstreams (ts_balancer s') = lb_upstreams (ts_balancer s) \<and>
     heap_available (ts_heap s') = heap_available (ts_heap s)"
  by (cases t) (auto simp: Let_def dest!: select_upstream_frame
      split: if_splits option.splits prod.splits sum.splits list.splits)

lemma tcp_step_frame:
  assumes "task_step tcp_arrive Accepted (tcp_task_step hasher lib config) y z"
  shows "length (ts_heap (sy_state z)) = length (ts_heap (sy_state y)) \<and>
    lb_strategy (ts_balancer (sy_state z)) = lb_strategy (ts_balancer (sy_state y)) \<and>
    lb_upstreams (ts_balancer (sy_state z)) = lb_upstreams (ts_balancer (sy_state y)) \<and>
    heap_available (ts_heap (sy_state z)) = heap_available (ts_heap (sy_state y)) \<and>
    length (sy_tasks y) \<le> length (sy_tasks z)"
  using assms
proof cases
  case (progressed i x t t' s')
  from tcp_task_step_frame [OF progressed(4)] tcp_task_step_length [OF progressed(4)] show ?thesis
    by (simp add: progressed(1))
qed (simp add: tcp_arrive_def)

lemma tcp_reachable_frame:
  assumes "tcp_reachable hasher lib config y z"
  shows "length (ts_heap (sy_state z)) = length (ts_heap (sy_state y))"
    "lb_strategy (ts_balancer (sy_state z)) = lb_strategy (ts_balancer (sy_state y))"
    "lb_upstreams (ts_balancer (sy_state z)) = lb_upstreams (ts_balancer (sy_state y))"
    "heap_available (ts_heap (sy_state z)) = heap_available (ts_heap (sy_state y))"
    "length (sy_tasks y) \<le> length (sy_tasks z)"
proof -
  have "length (ts_heap (sy_state z)) = length (ts_heap (sy_state y)) \<and>
    lb_strategy (ts_balancer (sy_state z)) = lb_strategy (ts_balancer (sy_state y)) \<and>
    lb_upstreams (ts_balancer (sy_state z)) = lb_upstreams (ts_balancer (sy_state y)) \<and>
    heap_available (ts_heap (sy_state z)) = heap_available (ts_heap (sy_state y)) \<and>
    length (sy_tasks y) \<le> length (sy_tasks z)"
    using assms unfolding tcp_reachable_def task_reachable_def
  proof (induction rule: rtranclp_induct)
    case (step z z')
    from tcp_step_frame [OF step.hyps(2)] step.IH show ?case by simp
  qed simp
  then show "length (ts_heap (sy_state z)) = length (ts_heap (sy_state y))"
    "lb_strategy (ts_balancer (sy_state z)) = lb_strategy (ts_balancer (sy_state y))"
    "lb_upstreams (ts_balancer (sy_state z)) = lb_upstreams (ts_balancer (sy_state y))"
    "heap_available (ts_heap (sy_state z)) = heap_available (ts_heap (sy_state y))"
    "length (sy_tasks y) \<le> length (sy_tasks z)" by simp_all
qed

text \<open>
  \<open>scan_reads i q z y\<close>: the scan of the \<open>i\<close>-th task read the upstream \<open>q\<close> when the system was in the
  state \<open>z\<close>, and the system went on to \<open>y\<close>.
\<close>

definition scan_reads ::
  "(string \<Rightarrow> u64) \<Rightarrow> 'q queue_lib \<Rightarrow> tcp_proxy_config \<Rightarrow> nat \<Rightarrow> arc \<Rightarrow>
   'q tcp_system \<Rightarrow> 'q tcp_system \<Rightarrow> bool" where
  "scan_reads hasher lib config i q z y \<longleftrightarrow>
     (\<exists>x seen rest t s. i < length (sy_tasks z) \<and> sy_tasks z ! i = (x, Scanning seen (q # rest)) \<and>
        tcp_task_step hasher lib config x (Scanning seen (q # rest), sy_state z) = Some (t, s) \<and>
        tcp_reachable hasher lib config
          (z\<lparr>sy_state := s, sy_tasks := (sy_tasks z)[i := (x, t)]\<rparr>) y)"

lemma tcp_reachable_trans:
  "tcp_reachable hasher lib config x y \<Longrightarrow> tcp_reachable hasher lib config y z \<Longrightarrow>
     tcp_reachable hasher lib config x z"
  unfolding tcp_reachable_def task_reachable_def by (rule rtranclp_trans)

lemma tcp_reachable_step:
  "task_step tcp_arrive Accepted (tcp_task_step hasher lib config) y z \<Longrightarrow> tcp_reachable hasher lib config y z"
  unfolding tcp_reachable_def task_reachable_def by (rule r_into_rtranclp)

lemma tcp_reachable_refl: "tcp_reachable hasher lib config y y"
  unfolding tcp_reachable_def task_reachable_def by simp

lemma scan_reads_later:
  "scan_reads hasher lib config i q z y \<Longrightarrow> tcp_reachable hasher lib config y y' \<Longrightarrow>
     scan_reads hasher lib config i q z y'"
  unfolding scan_reads_def by (meson tcp_reachable_trans)

lemma scan_reads_length:
  "scan_reads hasher lib config i q z y \<Longrightarrow> length (sy_tasks z) \<le> length (sy_tasks y)"
  unfolding scan_reads_def by (auto dest: tcp_reachable_frame(5))

lemma scanning_step:
  assumes "tcp_task_step hasher lib config x (t, s) = Some (Scanning seen rest, s')"
  shows "s' = s \<and> (t = Accepted \<and> seen = [] \<and> rest = lb_upstreams (ts_balancer s) \<or>
    (\<exists>q seen0. t = Scanning seen0 (q # rest) \<and>
       seen = (if heap_available (ts_heap s) q
               then seen0 @ [(q, active_connections (ui_stats (ts_heap s ! q)))] else seen0)))"
proof (cases t)
  case Accepted
  with assms show ?thesis
    using chosen_facts(7) by (auto split: if_splits prod.splits dest: sym [of "chosen _"])
next
  case (Scanning seen0 rest0)
  with assms show ?thesis
    using chosen_facts(7) by (auto simp: Let_def split: list.splits)
qed (use assms in \<open>auto simp: Let_def split: option.splits prod.splits sum.splits list.splits\<close>)

text \<open>What a scan has seen is what it read, each count at the time of its own reading.\<close>

definition seen_counts ::
  "(string \<Rightarrow> u64) \<Rightarrow> 'q queue_lib \<Rightarrow> tcp_proxy_config \<Rightarrow> 'q tcp_state \<Rightarrow> nat \<Rightarrow>
   (arc \<times> u64) list \<Rightarrow> 'q tcp_system \<Rightarrow> bool" where
  "seen_counts hasher lib config s i seen y \<longleftrightarrow>
     (\<forall>(q, c) \<in> set seen. \<exists>z. tcp_reachable hasher lib config (no_tasks s) z \<and>
        scan_reads hasher lib config i q z y \<and>
        c = active_connections (ui_stats (ts_heap (sy_state z) ! q)))"

lemma seen_counts_later:
  "seen_counts hasher lib config s i seen y \<Longrightarrow> tcp_reachable hasher lib config y z \<Longrightarrow>
     seen_counts hasher lib config s i seen z"
  unfolding seen_counts_def by (fast intro: scan_reads_later)

lemma scan_history:
  assumes "tcp_reachable hasher lib config (no_tasks s) y"
    and "i < length (sy_tasks y)" "sy_tasks y ! i = (x, Scanning seen rest)"
  shows "map fst seen @ filter (heap_available (ts_heap s)) rest =
      filter (heap_available (ts_heap s)) (lb_upstreams (ts_balancer s)) \<and>
    seen_counts hasher lib config s i seen y"
  using assms unfolding tcp_reachable_def task_reachable_def
proof (induction arbitrary: seen rest rule: rtranclp_induct)
  case (step y z)
  have y: "tcp_reachable hasher lib config (no_tasks s) y"
    using step.hyps(1) by (simp add: tcp_reachable_def task_reachable_def)
  note frame = tcp_reachable_frame [OF y, simplified]
  note go = tcp_reachable_step [OF step.hyps(2)]
  note IH = step.IH [unfolded tcp_reachable_def [symmetric] task_reachable_def [symmetric]]
  from step.hyps(2) show ?case
  proof cases
    case (spawned x')
    with step.prems have "i < length (sy_tasks y)" "sy_tasks y ! i = (x, Scanning seen rest)"
      by (auto simp: nth_append split: if_splits)
    from IH [OF this] seen_counts_later [OF _ go] show ?thesis by blast
  next
    case (progressed j x' t t' s')
    show ?thesis
    proof (cases "j = i")
      case False
      with step.prems progressed have "i < length (sy_tasks y)" "sy_tasks y ! i = (x, Scanning seen rest)"
        by auto
      from IH [OF this] seen_counts_later [OF _ go] show ?thesis by blast
    next
      case True
      with step.prems progressed have t': "x' = x" "t' = Scanning seen rest" by auto
      from scanning_step [OF progressed(4) [unfolded t']] consider
        "seen = []" "rest = lb_upstreams (ts_balancer (sy_state y))" |
        q seen0 where "t = Scanning seen0 (q # rest)" "seen = (if heap_available (ts_heap (sy_state y)) q
          then seen0 @ [(q, active_connections (ui_stats (ts_heap (sy_state y) ! q)))] else seen0)"
        by blast
      then show ?thesis
      proof cases
        case 1
        then show ?thesis by (simp add: frame seen_counts_def)
      next
        case 2
        have before: "sy_tasks y ! i = (x, Scanning seen0 (q # rest))"
          using progressed(3) 2(1) True t' by simp
        have "scan_reads hasher lib config i q y z"
          using progressed 2(1) True t' unfolding scan_reads_def
          by (intro exI conjI) (auto simp: tcp_reachable_refl)
        moreover from IH [OF _ before] progressed(2) True seen_counts_later [OF _ go]
        have "map fst seen0 @ filter (heap_available (ts_heap s)) (q # rest) =
            filter (heap_available (ts_heap s)) (lb_upstreams (ts_balancer s))"
          "seen_counts hasher lib config s i seen0 z" by blast+
        ultimately show ?thesis using y 2(2) by (auto simp: seen_counts_def frame)
      qed
    qed
  qed
qed simp

text \<open>Choosing changes nothing, so connections that choose before any of them is counted agree.\<close>

lemma choosing_run:
  assumes "lb_strategy (ts_balancer (sy_state y)) = LeastConnections"
    and "fst (select_upstream hasher (ts_heap (sy_state y)) None (ts_balancer (sy_state y))) = Some p"
  shows "\<exists>m. tcp_reachable hasher lib config y
    (y\<lparr>sy_state := (sy_state y)\<lparr>ts_metrics := m\<rparr>,
       sy_tasks := sy_tasks y @ map (\<lambda>x. (x, Chosen p)) xs\<rparr>)"
  using assms
proof (induction xs arbitrary: y)
  case Nil
  have "y\<lparr>sy_state := (sy_state y)\<lparr>ts_metrics := ts_metrics (sy_state y)\<rparr>,
      sy_tasks := sy_tasks y @ map (\<lambda>x. (x, Chosen p)) []\<rparr> = y" by simp
  then show ?case unfolding tcp_reachable_def task_reachable_def by (metis rtranclp.rtrancl_refl)
next
  case (Cons x xs)
  let ?s = "tcp_arrive (sy_state y)"
  let ?y = "y\<lparr>sy_state := ?s, sy_tasks := sy_tasks y @ [(x, Chosen p)]\<rparr>"
  have pick: "select_upstream hasher (ts_heap ?s) key (ts_balancer ?s) = (Some p, ts_balancer ?s)" for key
    using select_least_connections_frame [OF Cons.prems(1), of hasher "ts_heap (sy_state y)" None]
      select_least_connections_key [OF Cons.prems(1), of hasher "ts_heap (sy_state y)" key None]
      Cons.prems(2) unfolding tcp_arrive_def by (simp add: prod_eq_iff)
  from choose_solo [OF this, where x = x and lib = lib and config = config]
  have "solo (tcp_task_step hasher lib config) x (Accepted, ?s) (Chosen p, ?s)"
    by (simp add: chosen_def)
  then have "tcp_reachable hasher lib config y ?y"
    unfolding tcp_reachable_def by (rule solo_reachable)
  moreover from Cons.IH [of ?y] Cons.prems pick obtain m where
    "tcp_reachable hasher lib config ?y (?y\<lparr>sy_state := (sy_state ?y)\<lparr>ts_metrics := m\<rparr>,
       sy_tasks := sy_tasks ?y @ map (\<lambda>x. (x, Chosen p)) xs\<rparr>)"
    by (auto simp: tcp_arrive_def)
  ultimately show ?case
    unfolding tcp_reachable_def task_reachable_def
    by (intro exI [of _ m]) (auto simp: tcp_arrive_def dest: rtranclp_trans)
qed

section \<open>Properties\<close>

text \<open>C4: In every interleaving of TCP connections nothing is miscounted but the bytes of unfinished
writes: the counters of the proxy are the numbers of connections accepted, open and ended and of the
bytes the relays have counted; no relay has counted more than it delivered, and what it delivered and
has not counted (or, dropped inside a write_all, never will) is less than a buffer in each direction;
and for every upstream the active connections are the relays that run on it and the requests sent are
the relays that have been recorded there.\<close>

theorem tcp_interleavings_accounted:
  assumes "lb_exec hasher strategy ops = (ts_heap s, ts_balancer s)"
    and "tcp_reachable hasher lib config (no_tasks s) y"
  shows "let m = ts_metrics s; m' = ts_metrics (sy_state y); h = ts_heap s; h' = ts_heap (sy_state y);
      ts = sy_tasks y
    in tm_connections_total m' = tm_connections_total m + word_of_nat (length ts) \<and>
       tm_connections_active m' =
         tm_connections_active m + word_of_nat (tasks_at (\<lambda>x. is_open) ts) \<and>
       tm_connection_duration_count m' =
         tm_connection_duration_count m + word_of_nat (tasks_at (\<lambda>x t. \<not> is_open t) ts) \<and>
       tm_bytes_transferred m' =
         tm_bytes_transferred m + word_of_nat (\<Sum>(x, t) \<leftarrow> ts. task_counted t) \<and>
       (\<forall>(x, t) \<in> set ts. task_counted t \<le> task_delivered t \<and>
          task_delivered t < task_counted t + 2 * 65536) \<and>
       (\<forall>p. active_connections (ui_stats (h' ! p)) =
          active_connections (ui_stats (h ! p)) + word_of_nat (tasks_at (\<lambda>x. streams_to p) ts) \<and>
          requests_sent (ui_stats (h' ! p)) =
          requests_sent (ui_stats (h ! p)) + word_of_nat (tasks_at (\<lambda>x. recorded_at p) ts))"
proof -
  have wf: "tcp_wf hasher s" using lb_exec_wf [OF assms(1)] by (simp add: tcp_wf_def)
  note readings = tcp_readings [OF assms(2) [unfolded tcp_reachable_def] wf]
  have "task_counted t \<le> task_delivered t \<and> task_delivered t < task_counted t + 2 * 65536"
    if "(x, t) \<in> set (sy_tasks y)" for x t
  proof (cases "task_relay t")
    case (Some r)
    from tcp_reachable_ok(2) [OF assms(2) wf that] Some have "relay_ordered (tx_sent x) r"
      by (auto simp: tcp_task_ok_def dest: relay_fits_ordered)
    from relay_ordered_delivered [OF this] Some show ?thesis
      by (simp add: task_counted_def task_delivered_def RELAY_BUFFER_def)
  qed (simp add: task_counted_def task_delivered_def)
  with readings show ?thesis
    by (auto simp: Let_def tally_one tally_indicator tally_of_nat simp del: tally_simps)
qed

text \<open>C8: Concurrent connections do not mix: however the relays interleave, what a connection has
delivered to either peer is a prefix of what its own other peer sent.\<close>

theorem concurrent_relays_private:
  assumes "lb_exec hasher strategy ops = (ts_heap s, ts_balancer s)"
    and "tcp_reachable hasher lib config (no_tasks s) y"
    and "(x, t) \<in> set (sy_tasks y)" "task_relay t = Some r"
  shows "prefix (cs_written (relay_side d r)) (tx_sent x d)"
proof -
  have "tcp_wf hasher s" using lb_exec_wf [OF assms(1)] by (simp add: tcp_wf_def)
  from tcp_reachable_ok(2) [OF assms(2) this assms(3)] relay_fits_ordered [OF _ assms(4), of x]
  have "copy_ok (tx_sent x d) (relay_side d r)" by (simp add: tcp_task_ok_def relay_ordered_def)
  then show ?thesis by (rule copy_ok_prefix)
qed

text \<open>C9: Least connections picks by what it read, in every interleaving: when the scan of a new
connection picks an upstream, the pick is available, and it had, at the moment the scan read it, no
more relays than each other available upstream at the moment the scan read that one. The moments
differ, since the counters are loaded one by one while other connections come and go.\<close>

theorem least_connections_fewest_relays:
  assumes "lb_exec hasher LeastConnections ops = (ts_heap s, ts_balancer s)"
    and "tcp_reachable hasher lib config (no_tasks s) y"
    and "\<forall>u \<in> set (ts_heap s). active_connections (ui_stats u) = 0" "length (sy_tasks y) < 2 ^ 64"
    and "i < length (sy_tasks y)" "sy_tasks y ! i = (x, Scanning seen [])"
    and "tcp_task_step hasher lib config x (Scanning seen [], sy_state y) = Some (Chosen p, s')"
  shows "heap_available (ts_heap (sy_state y)) p \<and>
    (\<exists>zp. tcp_reachable hasher lib config (no_tasks s) zp \<and> scan_reads hasher lib config i p zp y \<and>
      (\<forall>q \<in> set (get_upstreams (ts_balancer (sy_state y))). heap_available (ts_heap (sy_state y)) q \<longrightarrow>
        (\<exists>zq. tcp_reachable hasher lib config (no_tasks s) zq \<and> scan_reads hasher lib config i q zq y \<and>
          tasks_at (\<lambda>x. streams_to p) (sy_tasks zp) \<le> tasks_at (\<lambda>x. streams_to q) (sy_tasks zq))))"
proof -
  have wf: "balancer_wf hasher (ts_heap s) (ts_balancer s)" "tcp_wf hasher s"
    using lb_exec_wf [OF assms(1)] by (simp_all add: tcp_wf_def)
  note frame = tcp_reachable_frame [OF assms(2), simplified]
  note history = scan_history [OF assms(2,5,6), simplified]
  let ?ups = "filter (heap_available (ts_heap s)) (lb_upstreams (ts_balancer s))"
  have ups: "fst ` set seen = set ?ups" using arg_cong [OF conjunct1 [OF history], of set] by simp
  have active: "unat (active_connections (ui_stats (ts_heap (sy_state z) ! u))) =
      tasks_at (\<lambda>x. streams_to u) (sy_tasks z)"
    if "tcp_reachable hasher lib config (no_tasks s) z" "scan_reads hasher lib config i u z y" "u \<in> set ?ups" for u z
  proof -
    have "active_connections (ui_stats (ts_heap s ! u)) = 0"
      using that(3) balancer_wf_fields(1) [OF wf(1)] assms(3) by auto
    with tcp_streams.reading_exact [OF that(1) [unfolded tcp_reachable_def] wf(2), of u]
    have "active_connections (ui_stats (ts_heap (sy_state z) ! u)) = word_of_nat (tasks_at (\<lambda>x. streams_to u) (sy_tasks z))"
      by (simp add: tally_indicator)
    then show ?thesis
      using tasks_at_le [of "\<lambda>x. streams_to u" "sy_tasks z"] scan_reads_length [OF that(2)] assms(4)
      by (simp add: unat_of_nat_small)
  qed
  have read: "\<exists>z. tcp_reachable hasher lib config (no_tasks s) z \<and> scan_reads hasher lib config i q z y \<and>
      unat c = tasks_at (\<lambda>x. streams_to q) (sy_tasks z)" if "(q, c) \<in> set seen" for q c
  proof -
    have "q \<in> set ?ups" using imageI [OF that, of fst] by (simp only: ups fst_conv)
    with that history active show ?thesis by (fastforce simp: seen_counts_def)
  qed
  from assms(7) obtain cp where least: "min_by_key snd seen = Some (p, cp)" by auto
  then have p: "(p, cp) \<in> set seen" by (rule min_by_key_mem)
  from read [OF p] obtain zp where zp: "tcp_reachable hasher lib config (no_tasks s) zp"
    "scan_reads hasher lib config i p zp y" "unat cp = tasks_at (\<lambda>x. streams_to p) (sy_tasks zp)" by blast
  have "\<exists>zq. tcp_reachable hasher lib config (no_tasks s) zq \<and> scan_reads hasher lib config i q zq y \<and>
      tasks_at (\<lambda>x. streams_to p) (sy_tasks zp) \<le> tasks_at (\<lambda>x. streams_to q) (sy_tasks zq)"
    if "q \<in> set ?ups" for q
  proof -
    from that obtain cq where q: "(q, cq) \<in> set seen" unfolding ups [symmetric] by auto
    with min_by_key_least [OF least q] have "unat cp \<le> unat cq" by (simp add: word_le_nat_alt)
    with read [OF q] zp(3) show ?thesis by auto
  qed
  moreover have "p \<in> set ?ups" using imageI [OF p, of fst] by (simp only: ups fst_conv)
  ultimately show ?thesis using zp(1,2) by (auto simp: frame get_upstreams_def)
qed

text \<open>C20: Least connections does not spread a burst: a connection counts for its upstream only once the
connection to the upstream stands, so any number of connections that arrive before that choose the
same upstream.\<close>

theorem least_connections_burst:
  assumes "lb_strategy (ts_balancer (sy_state y)) = LeastConnections"
    and "fst (select_upstream hasher (ts_heap (sy_state y)) None (ts_balancer (sy_state y))) = Some p"
  shows "\<exists>y'. tcp_reachable hasher lib config y y' \<and>
    sy_tasks y' = sy_tasks y @ map (\<lambda>x. (x, Chosen p)) xs"
proof -
  let ?after = "\<lambda>m. y\<lparr>sy_state := (sy_state y)\<lparr>ts_metrics := m\<rparr>,
    sy_tasks := sy_tasks y @ map (\<lambda>x. (x, Chosen p)) xs\<rparr>"
  from choosing_run [OF assms, of lib config xs] obtain m where
    "tcp_reachable hasher lib config y (?after m)" by blast
  then show ?thesis by (intro exI [of _ "?after m"]) simp
qed


text \<open>The connection handler, run from beginning to end, is one of the interleavings: if it returns,
the system can serve that connection alone and ends in the handler's state and result.\<close>

lemma tcp_handler_is_a_run:
  assumes "tcp_handle_connection hasher lib config x (sy_state y) = (Some result, s1)"
  shows "\<exists>relayed. tcp_reachable hasher lib config y
    (y\<lparr>sy_state := s1, sy_tasks := sy_tasks y @ [(x, Closed relayed result)]\<rparr>)"
proof -
  from tcp_handle_connection_solo [OF assms] obtain relayed where
    "solo (tcp_task_step hasher lib config) x (Accepted, tcp_arrive (sy_state y)) (Closed relayed result, s1)"
    by blast
  then show ?thesis
    unfolding tcp_reachable_def by (intro exI [of _ relayed] solo_reachable)
qed

section \<open>Witnesses\<close>

text \<open>
  Connections to one upstream, one of them in the middle of a write: the state a single history of
  the balancer leaves, with a pooled connection so that nothing has to be dialled.
\<close>

definition test_relay_exchange :: tcp_exchange where
  "test_relay_exchange = test_tcp_exchange
     \<lparr>tx_sent := (\<lambda>d. case d of To_Upstream \<Rightarrow> [1, 2, 3] | To_Client \<Rightarrow> []),
      tx_schedule := [(To_Upstream, Read 3), (To_Upstream, Wrote 2)]\<rparr>"

definition test_shared_state :: "pooled_connection list tcp_state" where
  "test_shared_state =
     (case lb_exec (\<lambda>_. 0) LeastConnections [Set_Upstreams 0 [test_upstream ''a'' 1]] of
        (h, lb) \<Rightarrow> \<lparr>ts_metrics = tcp_metrics_default, ts_pools = [''a'' \<mapsto> [pooled_connection_new 0 7]],
                    ts_heap = h, ts_balancer = lb\<rparr>)"

lemma test_shared_history:
  "lb_exec (\<lambda>_. 0) LeastConnections [Set_Upstreams 0 [test_upstream ''a'' 1]] =
     (ts_heap test_shared_state, ts_balancer test_shared_state)"
  by (simp add: test_shared_state_def split: prod.split)

lemma test_shared_facts:
  "ts_heap test_shared_state = [upstream_info_new 0 (test_upstream ''a'' 1)]"
  "lb_upstreams (ts_balancer test_shared_state) = [0]"
  "lb_strategy (ts_balancer test_shared_state) = LeastConnections"
  "ts_metrics test_shared_state = tcp_metrics_default"
  "ts_pools test_shared_state = [''a'' \<mapsto> [pooled_connection_new 0 7]]"
  using lb_exec_wf [OF test_shared_history]
  by (simp_all add: test_shared_state_def lb_exec_def update_upstreams_eq Let_def)

definition relay_ready :: "pooled_connection list tcp_state \<Rightarrow> bool" where
  "relay_ready s \<longleftrightarrow>
     ts_heap s \<noteq> [] \<and> ts_heap s ! 0 = upstream_info_new 0 (test_upstream ''a'' 1) \<and>
     lb_upstreams (ts_balancer s) = [0] \<and> lb_strategy (ts_balancer s) = LeastConnections \<and>
     ts_metrics s = tcp_metrics_default \<and> ts_pools s = [''a'' \<mapsto> [pooled_connection_new 0 7]]"

lemma test_shared_ready: "relay_ready test_shared_state"
  by (simp add: relay_ready_def test_shared_facts)

lemma streaming_uncounted:
  assumes "relay_result r = None" "rl_transferred r = tm_bytes_transferred (ts_metrics s)"
    and "rl_transferred (relay_step (tx_sent x) d e r) = rl_transferred r"
  shows "tcp_task_step hasher lib config x (Streaming p r ((d, e) # es), s) =
    Some (Streaming p (relay_step (tx_sent x) d e r) es, s)"
proof -
  have "r\<lparr>rl_transferred := tm_bytes_transferred (ts_metrics s)\<rparr> = r" by (simp flip: assms(2))
  moreover have "s\<lparr>ts_metrics := (ts_metrics s)
      \<lparr>tm_bytes_transferred := rl_transferred (relay_step (tx_sent x) d e r)\<rparr>\<rparr> = s"
    unfolding assms(2,3) by simp
  ultimately show ?thesis
    unfolding tcp_task_step.simps assms(1) option.case list.case prod.case Let_def by (simp only:)
qed

lemma test_relay_run:
  assumes "relay_ready s0"
  shows "\<exists>r s1. solo (tcp_task_step (\<lambda>_. 0) list_queue test_tcp_config) test_relay_exchange
      (Accepted, tcp_arrive s0) (Streaming 0 r [], s1) \<and>
    ts_heap s1 = on_stats (\<lambda>st. snd (increment_connections st)) 0 (ts_heap s0) \<and>
    cs_written (rl_up r) = [1, 2] \<and> task_counted (Streaming 0 r []) = 0 \<and>
    lb_strategy (ts_balancer s1) = LeastConnections \<and>
    fst (select_upstream (\<lambda>_. 0) (ts_heap s1) None (ts_balancer s1)) = Some 0"
proof -
  note facts = assms [unfolded relay_ready_def]
  let ?step = "tcp_task_step (\<lambda>_. 0) list_queue test_tcp_config"
  let ?x = test_relay_exchange
  let ?s = "tcp_arrive s0"
  let ?s2 = "?s\<lparr>ts_metrics := (ts_metrics ?s)\<lparr>tm_pool_hits := tm_pool_hits (ts_metrics ?s) + 1\<rparr>,
                 ts_pools := [''a'' \<mapsto> []]\<rparr>"
  let ?s3 = "?s2\<lparr>ts_heap := on_stats (\<lambda>st. snd (increment_connections st)) 0 (ts_heap ?s2)\<rparr>"
  let ?r = "relay_start (tm_bytes_transferred (ts_metrics ?s2))"
  let ?r1 = "relay_step (tx_sent ?x) To_Upstream (Read 3) ?r"
  let ?r2 = "relay_step (tx_sent ?x) To_Upstream (Wrote 2) ?r1"
  have pick: "select_upstream (\<lambda>_. 0) (ts_heap s) key (ts_balancer s) = (Some 0, ts_balancer s)"
    if "ts_heap s ! 0 = u" "heap_available (ts_heap s) 0" "ts_balancer s = ts_balancer s0"
    for s :: "pooled_connection list tcp_state" and u key
    using that by (simp add: select_upstream_def select_least_connections_def facts Let_def)
  have u: "heap_available (ts_heap ?s) 0"
    by (simp add: tcp_arrive_def facts test_defs)
  have "solo ?step ?x (Accepted, ?s) (Chosen 0, ?s)"
    using choose_solo [of "\<lambda>_. 0" ?s ?x "Some 0" "ts_balancer ?s"] pick [of ?s, OF refl u]
    by (simp add: tcp_arrive_def chosen_def)
  moreover have "?step ?x (Chosen 0, ?s) = Some (Opened 0, ?s2)"
  proof -
    have "pop_valid list_queue 1 [pooled_connection_new 0 7] = Some (Some 7, [])"
      by (subst pop_valid.simps) (simp add: list_queue_def pc_is_valid_def pooled_connection_new_def
          max_idle_time_def max_lifetime_def pc_touch_def)
    then show ?thesis
      by (simp add: get_upstream_connection_def try_get_pooled_connection_def tcp_arrive_def
          facts test_tcp_config_def test_relay_exchange_def test_tcp_exchange_def
          upstream_info_new_def test_upstream_def)
  qed
  moreover have "?step ?x (Opened 0, ?s2) = Some (Streaming 0 ?r (tx_schedule ?x), ?s3)"
    by simp
  moreover have r2: "rl_transferred ?r1 = 0" "rl_transferred ?r2 = 0" "relay_result ?r1 = None"
    "cs_written (rl_up ?r2) = [1, 2]" "task_counted (Streaming 0 ?r2 []) = 0"
    by (simp_all add: relay_eval test_relay_exchange_def tcp_arrive_def facts tcp_metrics_default_def
        tcp_begin_def task_counted_def counted_bytes_def counted_def uncounted_def)
  moreover have idle: "tm_bytes_transferred (ts_metrics ?s3) = 0"
    by (simp add: tcp_arrive_def facts tcp_metrics_default_def tcp_begin_def)
  moreover have "?step ?x (Streaming 0 ?r (tx_schedule ?x), ?s3) =
      Some (Streaming 0 ?r1 [(To_Upstream, Wrote 2)], ?s3)"
    using streaming_uncounted [of ?r ?s3 ?x To_Upstream "Read 3"] r2(1) idle
    by (simp add: test_relay_exchange_def)
  moreover have "?step ?x (Streaming 0 ?r1 [(To_Upstream, Wrote 2)], ?s3) = Some (Streaming 0 ?r2 [], ?s3)"
    using streaming_uncounted [of ?r1 ?s3 ?x To_Upstream "Wrote 2"] r2 idle by simp
  ultimately have "solo ?step ?x (Accepted, ?s) (Streaming 0 ?r2 [], ?s3)"
    unfolding solo_def by (meson rtranclp.rtrancl_into_rtrancl)
  moreover have "fst (select_upstream (\<lambda>_. 0) (ts_heap ?s3) None (ts_balancer ?s3)) = Some 0"
    using pick [of ?s3, OF refl] u by (simp add: tcp_arrive_def)
  moreover have "lb_strategy (ts_balancer ?s3) = LeastConnections"
    by (simp add: tcp_arrive_def facts)
  moreover have "ts_heap ?s3 = on_stats (\<lambda>st. snd (increment_connections st)) 0 (ts_heap s0)"
    by (simp add: tcp_arrive_def)
  ultimately show ?thesis using r2(4,5) by blast
qed

lemma test_relay_reachable:
  "\<exists>y r. tcp_reachable (\<lambda>_. 0) list_queue test_tcp_config (no_tasks test_shared_state) y \<and>
    sy_tasks y = [(test_relay_exchange, Streaming 0 r [])] \<and> cs_written (rl_up r) = [1, 2] \<and>
    task_counted (Streaming 0 r []) = 0 \<and>
    lb_strategy (ts_balancer (sy_state y)) = LeastConnections \<and>
    fst (select_upstream (\<lambda>_. 0) (ts_heap (sy_state y)) None (ts_balancer (sy_state y))) = Some 0"
proof -
  let ?idle = "no_tasks test_shared_state :: pooled_connection list tcp_system"
  from test_relay_run [OF test_shared_ready] obtain r s1 where run:
    "solo (tcp_task_step (\<lambda>_. 0) list_queue test_tcp_config) test_relay_exchange
      (Accepted, tcp_arrive (sy_state ?idle)) (Streaming 0 r [], s1)"
    "cs_written (rl_up r) = [1, 2]" "task_counted (Streaming 0 r []) = 0"
    "lb_strategy (ts_balancer s1) = LeastConnections"
    "fst (select_upstream (\<lambda>_. 0) (ts_heap s1) None (ts_balancer s1)) = Some 0" by auto
  let ?y = "?idle\<lparr>sy_state := s1, sy_tasks := sy_tasks ?idle @ [(test_relay_exchange, Streaming 0 r [])]\<rparr>"
  have "tcp_reachable (\<lambda>_. 0) list_queue test_tcp_config ?idle ?y"
    unfolding tcp_reachable_def using run(1) by (rule solo_reachable)
  with run(2-5) show ?thesis by (intro exI [of _ ?y] exI [of _ r]) simp
qed

lemma tcp_interleavings_accounted_witness:
  "\<exists>y r. tcp_reachable (\<lambda>_. 0) list_queue test_tcp_config (no_tasks test_shared_state) y \<and>
    sy_tasks y = [(test_relay_exchange, Streaming 0 r [])] \<and> cs_written (rl_up r) = [1, 2] \<and>
    active_connections (ui_stats (ts_heap (sy_state y) ! 0)) = 1 \<and>
    tm_bytes_transferred (ts_metrics (sy_state y)) = 0"
proof -
  obtain y r where y: "tcp_reachable (\<lambda>_. 0) list_queue test_tcp_config (no_tasks test_shared_state) y"
    "sy_tasks y = [(test_relay_exchange, Streaming 0 r [])]" "cs_written (rl_up r) = [1, 2]"
    "task_counted (Streaming 0 r []) = 0" using test_relay_reachable by blast
  from tcp_interleavings_accounted [OF test_shared_history y(1)] have
    "active_connections (ui_stats (ts_heap (sy_state y) ! 0)) =
      active_connections (ui_stats (ts_heap test_shared_state ! 0)) + 1"
    "tm_bytes_transferred (ts_metrics (sy_state y)) = tm_bytes_transferred (ts_metrics test_shared_state)"
    unfolding Let_def y(2) by (simp_all add: tasks_at_def y(4))
  with y(1-3) show ?thesis
    by (intro exI [of _ y] exI [of _ r])
      (simp add: test_shared_facts upstream_info_new_def upstream_stats_default_def tcp_metrics_default_def)
qed

lemma concurrent_relays_private_witness:
  "\<exists>y r. tcp_reachable (\<lambda>_. 0) list_queue test_tcp_config (no_tasks test_shared_state) y \<and>
    (test_relay_exchange, Streaming 0 r []) \<in> set (sy_tasks y) \<and> cs_written (rl_up r) \<noteq> [] \<and>
    prefix (cs_written (rl_up r)) [1, 2, 3]"
proof -
  obtain y r where y: "tcp_reachable (\<lambda>_. 0) list_queue test_tcp_config (no_tasks test_shared_state) y"
    "sy_tasks y = [(test_relay_exchange, Streaming 0 r [])]" "cs_written (rl_up r) = [1, 2]"
    using test_relay_reachable by blast
  then have "(test_relay_exchange, Streaming 0 r []) \<in> set (sy_tasks y)" by simp
  from concurrent_relays_private [OF test_shared_history y(1) this, of r To_Upstream] y this
  show ?thesis
    by (intro exI [of _ y] exI [of _ r]) (simp add: relay_side_def test_relay_exchange_def)
qed

text \<open>Two upstreams, and a connection whose scan has read both.\<close>

definition test_pair_state :: "pooled_connection list tcp_state" where
  "test_pair_state =
     (case lb_exec (\<lambda>_. 0) LeastConnections
             [Set_Upstreams 0 [test_upstream ''a'' 1, test_upstream ''b'' 1]] of
        (h, lb) \<Rightarrow> \<lparr>ts_metrics = tcp_metrics_default, ts_pools = Map.empty, ts_heap = h, ts_balancer = lb\<rparr>)"

lemma test_pair_history:
  "lb_exec (\<lambda>_. 0) LeastConnections [Set_Upstreams 0 [test_upstream ''a'' 1, test_upstream ''b'' 1]] =
     (ts_heap test_pair_state, ts_balancer test_pair_state)"
  by (simp add: test_pair_state_def split: prod.split)

lemma test_pair_facts:
  "ts_heap test_pair_state =
     [upstream_info_new 0 (test_upstream ''a'' 1), upstream_info_new 0 (test_upstream ''b'' 1)]"
  "lb_upstreams (ts_balancer test_pair_state) = [0, 1]"
  "lb_strategy (ts_balancer test_pair_state) = LeastConnections"
  using lb_exec_wf [OF test_pair_history]
  by (simp_all add: test_pair_state_def lb_exec_def update_upstreams_eq Let_def)

lemma least_connections_fewest_relays_witness:
  "\<exists>y za zb. scan_reads (\<lambda>_. 0) list_queue test_tcp_config 0 0 za y \<and>
    scan_reads (\<lambda>_. 0) list_queue test_tcp_config 0 1 zb y \<and>
    tasks_at (\<lambda>x. streams_to 0) (sy_tasks za) \<le> tasks_at (\<lambda>x. streams_to 1) (sy_tasks zb)"
proof -
  let ?step = "tcp_task_step (\<lambda>_. 0) list_queue test_tcp_config"
  let ?idle = "no_tasks test_pair_state :: pooled_connection list tcp_system"
  let ?s = "tcp_arrive test_pair_state" and ?x = test_tcp_exchange
  let ?scan = "Scanning (counts (ts_heap ?s) [0, 1]) []"
  let ?y = "\<lparr>sy_state = ?s, sy_tasks = [(?x, ?scan)]\<rparr>"
  have heap: "ts_heap ?s = ts_heap test_pair_state" "ts_balancer ?s = ts_balancer test_pair_state"
    by (simp_all add: tcp_arrive_def)
  have scan: "counts (ts_heap ?s) [0, 1] = [(0, 0), (1, 0)]" "heap_available (ts_heap ?s) q = True"
    if "q < 2" for q
    using that by (auto simp: heap counts_def test_pair_facts test_defs less_2_cases_iff)
  have "?step ?x (Accepted, ?s) = Some (Scanning [] [0, 1], ?s)"
    by (simp add: heap test_pair_facts)
  from solo_step [of ?step, OF this scan_solo [of _ _ _ _ "[]", simplified]]
  have "solo ?step ?x (Accepted, tcp_arrive (sy_state ?idle)) (?scan, ?s)" by simp
  then have "tcp_reachable (\<lambda>_. 0) list_queue test_tcp_config ?idle
      (?idle\<lparr>sy_state := ?s, sy_tasks := sy_tasks ?idle @ [(?x, ?scan)]\<rparr>)"
    unfolding tcp_reachable_def by (rule solo_reachable)
  then have y: "tcp_reachable (\<lambda>_. 0) list_queue test_tcp_config ?idle ?y" by (simp add: no_tasks_def)
  have "?step ?x (?scan, ?s) = Some (Chosen 0, ?s)" using scan(1) [of 0] by simp
  with least_connections_fewest_relays [OF test_pair_history y, of 0 ?x _ 0]
  obtain za where za: "scan_reads (\<lambda>_. 0) list_queue test_tcp_config 0 0 za ?y"
    "\<forall>q \<in> set (get_upstreams (ts_balancer (sy_state ?y))). heap_available (ts_heap (sy_state ?y)) q \<longrightarrow>
      (\<exists>zq. tcp_reachable (\<lambda>_. 0) list_queue test_tcp_config ?idle zq \<and>
        scan_reads (\<lambda>_. 0) list_queue test_tcp_config 0 q zq ?y \<and>
        tasks_at (\<lambda>x. streams_to 0) (sy_tasks za) \<le> tasks_at (\<lambda>x. streams_to q) (sy_tasks zq))"
    by (auto simp: test_pair_facts upstream_info_new_def upstream_stats_default_def)
  moreover have "1 \<in> set (get_upstreams (ts_balancer (sy_state ?y)))"
    by (simp add: get_upstreams_def heap test_pair_facts)
  ultimately show ?thesis using scan(2) [of 1] by fastforce
qed

lemma least_connections_burst_witness:
  "\<exists>y y'. tcp_reachable (\<lambda>_. 0) list_queue test_tcp_config y y' \<and>
    sy_tasks y' = sy_tasks y @ [(test_tcp_exchange, Chosen 0), (test_relay_exchange, Chosen 0)]"
proof -
  obtain y where y: "lb_strategy (ts_balancer (sy_state y)) = LeastConnections"
    "fst (select_upstream (\<lambda>_. 0) (ts_heap (sy_state y)) None (ts_balancer (sy_state y))) = Some 0"
    "tcp_reachable (\<lambda>_. 0) list_queue test_tcp_config (no_tasks test_shared_state) y"
    using test_relay_reachable by blast
  from least_connections_burst [OF y(1,2), of list_queue test_tcp_config
      "[test_tcp_exchange, test_relay_exchange]"] show ?thesis by auto
qed


end
