(* ===== verification/Http_Concurrency.thy ===== *)
theory Http_Concurrency
  imports Http_Proxy Task_System
begin

text \<open>
  HTTP requests served at the same time. hyper runs the handler of every request as a future of its
  own; the futures share the proxy's metrics, the balancer and the statistics of the upstreams. The
  handler of \<open>Http_Proxy\<close> is cut here at its accesses to the shared state. hyper drops the future of
  a request when its client disconnects; the handler then ends at its only suspension point, the
  exchange with the upstream, and what follows it is never executed.
\<close>

section \<open>The task of a request\<close>

text \<open>
  Where \<open>handle_request\<close> stands: before the choice of the upstream, before the answer of the
  upstream, with the result and still active, after the decrement of the active requests, after the
  entry of the duration, and at the end; or dropped. A request that reached an upstream keeps it.
\<close>

datatype 'h http_task =
    Arrived
  | Forwarding arc "'h http_request"
  | Answered "arc option" "'h http_response result"
  | Released "arc option" "'h http_response result"
  | Measured "arc option" "'h http_response result"
  | Replied "arc option" "'h http_response"
  | Dropped arc

text \<open>A request, with whether its client disconnects while the upstream is awaited.\<close>

type_synonym 'h client_request = "'h exchange \<times> bool"

definition http_arrive :: "http_state \<Rightarrow> http_state" where
  "http_arrive s = (case s of (m, h, lb) \<Rightarrow> (http_begin m, h, lb))"

lemma http_arrive_parts [simp]:
  "fst (http_arrive s) = http_begin (fst s)" "snd (http_arrive s) = snd s"
  by (simp_all add: http_arrive_def split: prod.split)

fun http_task_step ::
  "(string \<Rightarrow> u64) \<Rightarrow> 'h http_lib \<Rightarrow> http_proxy_config \<Rightarrow> 'h client_request \<Rightarrow>
   'h http_task \<times> http_state \<Rightarrow> ('h http_task \<times> http_state) option" where
  "http_task_step hasher lib config (x, gone) (Arrived, s) =
     (case route_request hasher lib config (ex_request x) s of
        (Inl e, s) \<Rightarrow> Some (Answered None (Inl e), s)
      | (Inr (p, req), s) \<Rightarrow> Some (Forwarding p req, s))"
| "http_task_step hasher lib config (x, gone) (Forwarding p req, s) =
     (if gone then Some (Dropped p, s)
      else
        let request_timeout = millis_to_duration (up_timeout_ms (ui_config (fst (snd s) ! p)));
            (r, s) = complete_request lib config (ex_now x) p (ex_client x request_timeout req) s
        in Some (Answered (Some p) r, s))"
| "http_task_step hasher lib config (x, gone) (Answered u r, (m, h, lb)) =
     Some (Released u r, (m\<lparr>hm_connections_active := hm_connections_active m - 1\<rparr>, h, lb))"
| "http_task_step hasher lib config (x, gone) (Released u r, (m, h, lb)) =
     Some (Measured u r,
       (m\<lparr>hm_request_durations :=
            push_duration (duration_to_millis_f64 (ex_elapsed x)) (hm_request_durations m)\<rparr>, h, lb))"
| "http_task_step hasher lib config (x, gone) (Measured u r, (m, h, lb)) =
     Some (Replied u (http_reply lib r),
       (m\<lparr>hm_status_codes := count_status (rs_status (http_reply lib r)) (hm_status_codes m)\<rparr>, h, lb))"
| "http_task_step hasher lib config (x, gone) (Replied u response, s) = None"
| "http_task_step hasher lib config (x, gone) (Dropped p, s) = None"

type_synonym 'h http_system = "(http_state, 'h client_request, 'h http_task) task_system"

definition http_reachable ::
  "(string \<Rightarrow> u64) \<Rightarrow> 'h http_lib \<Rightarrow> http_proxy_config \<Rightarrow> 'h http_system \<Rightarrow> 'h http_system \<Rightarrow> bool" where
  "http_reachable hasher lib config =
     task_reachable http_arrive Arrived (http_task_step hasher lib config)"

section \<open>What a task stands for\<close>

text \<open>Counted as active: until the decrement, and for ever if there is none.\<close>

fun counted_active :: "'h http_task \<Rightarrow> bool" where
  "counted_active (Released u r) = False"
| "counted_active (Measured u r) = False"
| "counted_active (Replied u response) = False"
| "counted_active t = True"

fun replied_with :: "u16 \<Rightarrow> 'h http_task \<Rightarrow> bool" where
  "replied_with status (Replied u response) = (rs_status response = status)"
| "replied_with status t = False"

fun answered_by :: "arc \<Rightarrow> 'h http_task \<Rightarrow> bool" where
  "answered_by p (Answered u r) = (u = Some p)"
| "answered_by p (Released u r) = (u = Some p)"
| "answered_by p (Measured u r) = (u = Some p)"
| "answered_by p (Replied u response) = (u = Some p)"
| "answered_by p t = False"

fun is_dropped :: "'h http_task \<Rightarrow> bool" where
  "is_dropped (Dropped p) = True"
| "is_dropped t = False"

fun is_over :: "'h http_task \<Rightarrow> bool" where
  "is_over (Dropped p) = True"
| "is_over (Replied u response) = True"
| "is_over t = False"

section \<open>Lemmas: the steps of a task\<close>

fun http_task_ok :: "http_state \<Rightarrow> 'h client_request \<Rightarrow> 'h http_task \<Rightarrow> bool" where
  "http_task_ok s x (Forwarding p req) = (p < length (fst (snd s)))"
| "http_task_ok s x t = True"

lemma complete_request_frame:
  "complete_request lib config now p outcome (m, h, lb) = (r, m1, h1, lb1) \<Longrightarrow>
     hm_requests_total m1 = hm_requests_total m \<and>
     hm_connections_active m1 = hm_connections_active m \<and>
     hm_status_codes m1 = hm_status_codes m \<and> lb1 = lb \<and>
     (\<exists>f. h1 = on_stats f p h \<and> (\<forall>s. requests_sent (f s) = requests_sent s + 1))"
  by (cases outcome)
    (auto simp: complete_request_def record_success_def record_failure_def Let_def)

lemma route_request_frame:
  "route_request hasher lib config req (m, h, lb) = (r, m1, h1, lb1) \<Longrightarrow>
     hm_requests_total m1 = hm_requests_total m \<and>
     hm_connections_active m1 = hm_connections_active m \<and>
     hm_status_codes m1 = hm_status_codes m \<and> h1 = h"
  by (auto simp: route_request_def split: prod.splits option.splits sum.splits)

lemma http_task_step_wf:
  assumes "http_wf hasher s" "http_task_step hasher lib config x (t, s) = Some (t', s')"
  shows "http_wf hasher s'"
proof -
  obtain e gone where x: "x = (e, gone)" by (metis surj_pair)
  obtain m h lb where s: "s = (m, h, lb)" by (metis surj_pair)
  show ?thesis
  proof (cases t)
    case Arrived
    obtain r s1 where r: "route_request hasher lib config (ex_request e) s = (r, s1)" by (metis surj_pair)
    with assms(2) Arrived have "s' = s1" by (auto simp: x split: sum.splits prod.splits)
    with route_request_wf(1) [OF assms(1) r] show ?thesis by simp
  next
    case (Forwarding p req)
    obtain r s1 where r: "complete_request lib config (ex_now e) p
        (ex_client e (millis_to_duration (up_timeout_ms (ui_config (fst (snd s) ! p)))) req) s = (r, s1)"
      by (metis surj_pair)
    with assms(2) Forwarding have "s' = s \<or> s' = s1" by (auto simp: x Let_def split: if_splits)
    with complete_request_wf [OF assms(1) r] assms(1) show ?thesis by auto
  qed (use assms in \<open>auto simp: x s http_wf_def\<close>)
qed

lemma http_task_step_heap:
  assumes "http_task_step hasher lib config x (t, s) = Some (t', s')"
  shows "length (fst (snd s')) = length (fst (snd s))"
proof -
  obtain e gone where x: "x = (e, gone)" by (metis surj_pair)
  obtain m h lb where s: "s = (m, h, lb)" by (metis surj_pair)
  obtain m' h' lb' where s': "s' = (m', h', lb')" by (metis surj_pair)
  show ?thesis
    using assms
    by (cases t) (auto simp: x s s' Let_def dest!: route_request_frame complete_request_frame
        split: sum.splits prod.splits if_splits)
qed

lemma http_task_step_target:
  assumes "http_wf hasher s" "http_task_step hasher lib config x (t, s) = Some (Forwarding p req, s')"
  shows "p < length (fst (snd s))"
proof -
  obtain e gone where x: "x = (e, gone)" by (metis surj_pair)
  obtain m h lb where s: "s = (m, h, lb)" by (metis surj_pair)
  from assms(2) have "route_request hasher lib config (ex_request e) s = (Inr (p, req), s')"
    by (cases t) (auto simp: x s Let_def split: sum.splits prod.splits if_splits)
  from route_request_wf [OF assms(1) this] show ?thesis
    using balancer_wf_fields(1) by (fastforce simp: http_wf_def s)
qed

interpretation http_tasks:
  tasks http_arrive Arrived "http_task_step hasher lib config" "http_wf hasher" http_task_ok
  for hasher lib config
proof unfold_locales
  fix s s' :: http_state and x :: "'h client_request" and t t' :: "'h http_task"
    and lib :: "'h http_lib"
  show "http_wf hasher s \<Longrightarrow> http_wf hasher (http_arrive s) \<and> http_task_ok (http_arrive s) x Arrived"
    by (auto simp: http_wf_def http_arrive_def)
  show "http_task_ok s x t \<Longrightarrow> http_task_ok (http_arrive s) x t"
    by (cases t) (auto simp: http_arrive_def split: prod.split)
  assume step: "http_wf hasher s" "http_task_ok s x t"
    "http_task_step hasher lib config x (t, s) = Some (t', s')"
  show "http_wf hasher s' \<and> http_task_ok s' x t'"
  proof (cases t')
    case (Forwarding p req)
    from http_task_step_target [OF step(1) step(3) [unfolded Forwarding]] show ?thesis
      using http_task_step_wf [OF step(1,3)] http_task_step_heap [OF step(3)] by (simp add: Forwarding)
  qed (use http_task_step_wf [OF step(1,3)] in simp_all)
  show "http_task_ok s x0 t0 \<Longrightarrow> http_task_ok s' x0 t0" for x0 and t0 :: "'h http_task"
    using http_task_step_heap [OF step(3)] by (cases t0) auto
qed

section \<open>Lemmas: the gauges\<close>

definition status_count :: "u16 \<Rightarrow> http_metrics \<Rightarrow> u64" where
  "status_count status m = unwrap_or 0 (map_of (hm_status_codes m) status)"

lemma http_counters_step:
  assumes "http_task_step hasher lib config x (t, s) = Some (t', s')"
  shows "hm_requests_total (fst s') = hm_requests_total (fst s)"
    "hm_connections_active (fst s') + (if counted_active t then 1 else 0) =
      hm_connections_active (fst s) + (if counted_active t' then 1 else 0)"
    "status_count c (fst s') + (if replied_with c t then 1 else 0) =
      status_count c (fst s) + (if replied_with c t' then 1 else 0)"
proof -
  obtain e gone where x: "x = (e, gone)" by (metis surj_pair)
  obtain m h lb where s: "s = (m, h, lb)" by (metis surj_pair)
  obtain m' h' lb' where s': "s' = (m', h', lb')" by (metis surj_pair)
  show "hm_requests_total (fst s') = hm_requests_total (fst s)"
    using assms by (cases t) (auto simp: x s s' Let_def dest!: route_request_frame complete_request_frame
        split: sum.splits prod.splits if_splits)
  show "hm_connections_active (fst s') + (if counted_active t then 1 else 0) =
      hm_connections_active (fst s) + (if counted_active t' then 1 else 0)"
    using assms by (cases t) (auto simp: x s s' Let_def dest!: route_request_frame complete_request_frame
        split: sum.splits prod.splits if_splits)
  show "status_count c (fst s') + (if replied_with c t then 1 else 0) =
      status_count c (fst s) + (if replied_with c t' then 1 else 0)"
    using assms by (cases t) (auto simp: x s s' Let_def status_count_def count_status_lookup unwrap_or_def
        dest!: route_request_frame complete_request_frame split: sum.splits prod.splits if_splits)
qed

lemma answered_step:
  assumes "http_task_ok s x t" "http_task_step hasher lib config x (t, s) = Some (t', s')"
  shows "requests_sent (ui_stats (fst (snd s') ! p)) + (if answered_by p t then 1 else 0) =
    requests_sent (ui_stats (fst (snd s) ! p)) + (if answered_by p t' then 1 else 0)"
proof -
  obtain e gone where x: "x = (e, gone)" by (metis surj_pair)
  obtain m h lb where s: "s = (m, h, lb)" by (metis surj_pair)
  obtain m' h' lb' where s': "s' = (m', h', lb')" by (metis surj_pair)
  show ?thesis
  proof (cases t)
    case (Forwarding q req)
    show ?thesis
    proof (cases gone)
      case True
      with assms(2) Forwarding show ?thesis by (auto simp: x)
    next
      case False
      obtain r m1 h1 lb1 where r: "complete_request lib config (ex_now e) q
          (ex_client e (millis_to_duration (up_timeout_ms (ui_config (h ! q)))) req) (m, h, lb) =
          (r, m1, h1, lb1)" by (metis surj_pair)
      from complete_request_frame [OF r] obtain f where
        f: "h1 = on_stats f q h" "\<And>s. requests_sent (f s) = requests_sent s + 1" by blast
      have "q < length h" using assms(1) Forwarding by (simp add: s)
      with assms(2) Forwarding False r f show ?thesis
        by (cases "q = p") (auto simp: x s s' on_stats_nth on_stats_def Let_def)
    qed
  qed (use assms(2) in \<open>auto simp: x s s' Let_def dest!: route_request_frame
      split: sum.splits prod.splits\<close>)
qed

interpretation http_total:
  gauge http_arrive Arrived "http_task_step hasher lib config" "http_wf hasher" http_task_ok
    "\<lambda>s. hm_requests_total (fst s)" "\<lambda>x t. 1"
  for hasher lib config
  by unfold_locales (simp_all add: http_arrive_def http_begin_def http_counters_step split: prod.split)

interpretation http_active:
  gauge http_arrive Arrived "http_task_step hasher lib config" "http_wf hasher" http_task_ok
    "\<lambda>s. hm_connections_active (fst s)" "\<lambda>x t. if counted_active t then 1 else 0"
  for hasher lib config
  by unfold_locales (simp add: http_arrive_def http_begin_def split: prod.split, rule http_counters_step)

interpretation http_status:
  gauge http_arrive Arrived "http_task_step hasher lib config" "http_wf hasher" http_task_ok
    "\<lambda>s. status_count c (fst s)" "\<lambda>x t. if replied_with c t then 1 else 0"
  for hasher lib config c
  by unfold_locales
    (simp add: http_arrive_def http_begin_def status_count_def split: prod.split, rule http_counters_step)

interpretation http_answered:
  gauge http_arrive Arrived "http_task_step hasher lib config" "http_wf hasher" http_task_ok
    "\<lambda>s. requests_sent (ui_stats (fst (snd s) ! p))" "\<lambda>x t. if answered_by p t then 1 else 0"
  for hasher lib config p
  by unfold_locales (simp add: http_arrive_def split: prod.split, rule answered_step)

lemmas http_readings =
  http_total.reading_exact http_active.reading_exact http_status.reading_exact
  http_answered.reading_exact

section \<open>Lemmas: the handler is a run\<close>

lemma http_handle_request_solo:
  "\<exists>u. solo (http_task_step hasher lib config) (x, False) (Arrived, http_arrive s)
     (Replied u (fst (http_handle_request hasher lib config x s)),
      snd (http_handle_request hasher lib config x s))"
proof -
  let ?step = "http_task_step hasher lib config"
  obtain m h lb where s: "s = (m, h, lb)" by (metis surj_pair)
  obtain r m1 h1 lb1 where p: "process_request hasher lib config x (http_begin m, h, lb) = (r, m1, h1, lb1)"
    by (metis surj_pair)
  obtain r0 s0 where route: "route_request hasher lib config (ex_request x) (http_begin m, h, lb) = (r0, s0)"
    by (metis surj_pair)
  have "\<exists>u. solo ?step (x, False) (Arrived, http_arrive s) (Answered u r, m1, h1, lb1)"
  proof (cases r0)
    case (Inl e)
    with p route have "?step (x, False) (Arrived, http_arrive s) = Some (Answered None r, m1, h1, lb1)"
      by (simp add: s http_arrive_def process_request_def)
    from solo_step [of ?step, OF this solo_refl] show ?thesis by blast
  next
    case (Inr pr)
    then obtain q req where q: "r0 = Inr (q, req)" by (cases pr) simp
    with route have "?step (x, False) (Arrived, http_arrive s) = Some (Forwarding q req, s0)"
      by (simp add: s http_arrive_def)
    moreover have "?step (x, False) (Forwarding q req, s0) = Some (Answered (Some q) r, m1, h1, lb1)"
      using p route q by (simp add: process_request_def Let_def split: prod.splits)
    ultimately show ?thesis using solo_step [of ?step] solo_step [of ?step, OF _ solo_refl] by blast
  qed
  then obtain u where "solo ?step (x, False) (Arrived, http_arrive s) (Answered u r, m1, h1, lb1)" by blast
  moreover have "solo ?step (x, False) (Answered u r, m1, h1, lb1)
      (Replied u (fst (http_handle_request hasher lib config x s)),
       snd (http_handle_request hasher lib config x s))"
  proof -
    let ?m2 = "m1\<lparr>hm_connections_active := hm_connections_active m1 - 1\<rparr>"
    let ?m3 = "?m2\<lparr>hm_request_durations :=
        push_duration (duration_to_millis_f64 (ex_elapsed x)) (hm_request_durations ?m2)\<rparr>"
    have "?step (x, False) (Answered u r, m1, h1, lb1) = Some (Released u r, ?m2, h1, lb1)"
      "?step (x, False) (Released u r, ?m2, h1, lb1) = Some (Measured u r, ?m3, h1, lb1)"
      "?step (x, False) (Measured u r, ?m3, h1, lb1) =
        Some (Replied u (fst (http_handle_request hasher lib config x s)),
              snd (http_handle_request hasher lib config x s))"
      by (simp_all add: s http_handle_request_def p http_end_def Let_def)
    then show ?thesis unfolding solo_def by (meson rtranclp.rtrancl_into_rtrancl rtranclp.rtrancl_refl)
  qed
  ultimately show ?thesis by (blast intro: solo_trans)
qed

section \<open>Lemmas: the window of durations\<close>

lemma http_window_step:
  assumes "length (hm_request_durations (fst s)) \<le> 10000"
    and "http_task_step hasher lib config x (t, s) = Some (t', s')"
  shows "length (hm_request_durations (fst s')) \<le> 10000"
proof -
  obtain e gone where x: "x = (e, gone)" by (metis surj_pair)
  obtain m h lb where s: "s = (m, h, lb)" by (metis surj_pair)
  show ?thesis
  proof (cases t)
    case Arrived
    with assms show ?thesis
      by (auto simp: x s route_request_def split: prod.splits option.splits sum.splits)
  next
    case (Forwarding p req)
    with assms show ?thesis
      by (auto simp: x s complete_request_def Let_def split: if_splits prod.splits client_outcome.splits)
  qed (use assms push_duration_length in \<open>auto simp: x s\<close>)
qed

interpretation http_window:
  tasks http_arrive Arrived "http_task_step hasher lib config"
    "\<lambda>s. length (hm_request_durations (fst s)) \<le> 10000" "\<lambda>s x t. True"
  for hasher lib config
proof unfold_locales
  fix s s' :: http_state and x :: "'h client_request" and t t' :: "'h http_task" and lib :: "'h http_lib"
  assume "length (hm_request_durations (fst s)) \<le> 10000" "http_task_step hasher lib config x (t, s) = Some (t', s')"
  then show "length (hm_request_durations (fst s')) \<le> 10000 \<and> True" using http_window_step by blast
qed (simp_all add: http_begin_def)

text \<open>The memory of past requests is bounded, however many there are and however they interleave.\<close>

lemma http_durations_bounded:
  assumes "http_reachable hasher lib config (no_tasks s) y" "length (hm_request_durations (fst s)) \<le> 10000"
  shows "length (hm_request_durations (fst (sy_state y))) \<le> 10000"
  using http_window.reachable_ok [OF assms(1) [unfolded http_reachable_def]
      http_window.no_tasks_ok [OF assms(2)]] by (simp add: http_window.all_ok_def)

section \<open>Lemmas: sticky sessions\<close>

fun task_target :: "'h http_task \<Rightarrow> arc option" where
  "task_target (Forwarding p req) = Some p"
| "task_target (Answered u r) = u"
| "task_target (Released u r) = u"
| "task_target (Measured u r) = u"
| "task_target (Replied u response) = u"
| "task_target (Dropped p) = Some p"
| "task_target Arrived = None"

definition sticky_inv :: "balancer \<Rightarrow> http_state \<Rightarrow> bool" where
  "sticky_inv lb0 s \<longleftrightarrow>
     lb_strategy lb0 = ConsistentHashing \<and> (\<exists>n. snd (snd s) = lb0\<lparr>lb_rr_counter := n\<rparr>)"

definition sticky_ok ::
  "(string \<Rightarrow> u64) \<Rightarrow> 'h http_lib \<Rightarrow> balancer \<Rightarrow> http_state \<Rightarrow> 'h client_request \<Rightarrow> 'h http_task \<Rightarrow> bool"
  where
  "sticky_ok hasher lib lb0 s x t \<longleftrightarrow>
     (case (extract_session_key lib (ex_request (fst x)), task_target t) of
        (Some key, Some p) \<Rightarrow>
          lb_upstreams lb0 \<noteq> [] \<and>
          select_consistent_hash hasher (lb_hash_ring lb0) (lb_upstreams lb0) key = Some p
      | _ \<Rightarrow> True)"

lemma sticky_route:
  assumes "sticky_inv lb0 s" "route_request hasher lib config req s = (r, s')"
  shows "sticky_inv lb0 s'"
    "r = Inr (p, req') \<Longrightarrow> extract_session_key lib req = Some key \<Longrightarrow>
       lb_upstreams lb0 \<noteq> [] \<and>
       select_consistent_hash hasher (lb_hash_ring lb0) (lb_upstreams lb0) key = Some p"
proof -
  obtain m h n where s: "s = (m, h, lb0\<lparr>lb_rr_counter := n\<rparr>)"
    using assms(1) by (cases s) (auto simp: sticky_inv_def)
  obtain q lb' where q: "select_upstream hasher h (extract_session_key lib req)
      (lb0\<lparr>lb_rr_counter := n\<rparr>) = (q, lb')" by fastforce
  from select_upstream_frame [OF q] obtain k where "lb' = lb0\<lparr>lb_rr_counter := k\<rparr>" by auto
  moreover have "snd (snd s') = lb'"
    using assms(2) by (auto simp: s route_request_def q split: option.splits sum.splits prod.splits)
  ultimately show "sticky_inv lb0 s'" using assms(1) by (auto simp: sticky_inv_def)
  assume r: "r = Inr (p, req')" and key: "extract_session_key lib req = Some key"
  have "fst (select_upstream hasher h (Some key) (lb0\<lparr>lb_rr_counter := n\<rparr>)) = Some p"
    using route_request_picks [of hasher lib config req m h _ p] assms(2) by (simp add: s r key)
  with consistent_hash_pick [of "lb0\<lparr>lb_rr_counter := n\<rparr>" hasher h key] assms(1)
  show "lb_upstreams lb0 \<noteq> [] \<and>
      select_consistent_hash hasher (lb_hash_ring lb0) (lb_upstreams lb0) key = Some p"
    by (auto simp: sticky_inv_def split: if_splits)
qed

lemma sticky_step:
  assumes "sticky_inv lb0 s" "sticky_ok hasher lib lb0 s x t"
    and "http_task_step hasher lib config x (t, s) = Some (t', s')"
  shows "sticky_inv lb0 s' \<and> sticky_ok hasher lib lb0 s' x t'"
proof -
  obtain e gone where x: "x = (e, gone)" by (metis surj_pair)
  obtain m h lb where s: "s = (m, h, lb)" by (metis surj_pair)
  show ?thesis
  proof (cases t)
    case Arrived
    obtain r s1 where r: "route_request hasher lib config (ex_request e) s = (r, s1)" by (metis surj_pair)
    show ?thesis
    proof (cases r)
      case (Inl err)
      with assms(3) Arrived r sticky_route(1) [OF assms(1) r] show ?thesis
        by (auto simp: x sticky_ok_def split: option.split)
    next
      case (Inr pr)
      then obtain p req where pr: "r = Inr (p, req)" by (cases pr) simp
      with assms(3) Arrived r have "t' = Forwarding p req" "s' = s1" by (auto simp: x)
      with sticky_route(1) [OF assms(1) r] sticky_route(2) [OF assms(1) r pr] show ?thesis
        by (auto simp: x sticky_ok_def split: option.split)
    qed
  next
    case (Forwarding p req)
    obtain m' h' lb' where s': "s' = (m', h', lb')" by (metis surj_pair)
    have "snd (snd s') = snd (snd s)" "task_target t' = Some p"
      using assms(3) Forwarding
      by (auto simp: x s s' Let_def dest!: complete_request_frame split: prod.splits if_splits)
    with assms(1,2) Forwarding show ?thesis by (simp add: sticky_inv_def sticky_ok_def)
  qed (use assms in \<open>auto simp: x s sticky_inv_def sticky_ok_def split: option.splits\<close>)
qed

interpretation http_sticky:
  tasks http_arrive Arrived "http_task_step hasher lib config" "sticky_inv lb0"
    "sticky_ok hasher lib lb0"
  for hasher lib config lb0
proof unfold_locales
  fix s :: http_state and x :: "'h client_request" and lib :: "'h http_lib"
  show "sticky_inv lb0 s \<Longrightarrow>
      sticky_inv lb0 (http_arrive s) \<and> sticky_ok hasher lib lb0 (http_arrive s) x Arrived"
    by (cases s) (auto simp: sticky_inv_def sticky_ok_def http_arrive_def split: option.split)
qed (simp add: sticky_ok_def, (blast dest: sticky_step), simp add: sticky_ok_def)

section \<open>Properties\<close>

text \<open>C7: In every interleaving of HTTP requests, with clients that disconnect at will, the total is the
number of requests, the counter of each status code is the number of replies with that code, and
the requests sent to an upstream are the requests it has answered or failed.\<close>

theorem http_interleavings_accounted:
  assumes "lb_exec hasher strategy ops = (h, lb)" "heap_balanced h"
    and "http_reachable hasher lib config (no_tasks (m, h, lb)) y"
    and "sy_state y = (m', h', lb')"
  shows "hm_requests_total m' = hm_requests_total m + word_of_nat (length (sy_tasks y)) \<and>
    status_count c m' = status_count c m + word_of_nat (tasks_at (\<lambda>x. replied_with c) (sy_tasks y)) \<and>
    requests_sent (ui_stats (h' ! p)) =
      requests_sent (ui_stats (h ! p)) + word_of_nat (tasks_at (\<lambda>x. answered_by p) (sy_tasks y))"
proof -
  have "http_wf hasher (m, h, lb)" using lb_exec_wf [OF assms(1)] assms(2) by (simp add: http_wf_def)
  note readings = http_readings [OF assms(3) [unfolded http_reachable_def] this]
  from readings(1) readings(3) [of c] readings(4) [of p] show ?thesis
    by (simp add: assms(4) tally_one tally_indicator del: tally_simps)
qed

text \<open>C18: A request whose client disconnects while the upstream is awaited stays active for ever: when
every request is over, the gauge of active connections is the number of dropped requests, and ten
thousand of them make the proxy report itself unhealthy although it serves nothing.\<close>

theorem disconnects_stay_active:
  assumes "lb_exec hasher strategy ops = (h, lb)" "heap_balanced h"
    and "http_reachable hasher lib config (no_tasks (http_metrics_default, h, lb)) y"
    and "sy_state y = (m', h', lb')" "\<forall>(x, t) \<in> set (sy_tasks y). is_over t"
    and "length (sy_tasks y) < 2 ^ 64"
  shows "let n = tasks_at (\<lambda>x. is_dropped) (sy_tasks y)
    in unat (hm_connections_active m') = n \<and>
       (10000 \<le> n \<longrightarrow> (\<exists>ph. http_health_check m' = Inr ph \<and> ph_status ph = Unhealthy))"
proof -
  let ?n = "tasks_at (\<lambda>x. is_dropped) (sy_tasks y)"
  have wf: "http_wf hasher (http_metrics_default, h, lb)"
    using lb_exec_wf [OF assms(1)] assms(2) by (simp add: http_wf_def)
  have "tasks_at (\<lambda>x. counted_active) (sy_tasks y) = ?n"
    using assms(5) unfolding tasks_at_def
    by (intro arg_cong [where f = length] filter_cong refl) (auto elim!: is_over.elims)
  then have "hm_connections_active m' = word_of_nat ?n"
    using http_active.reading_exact [OF assms(3) [unfolded http_reachable_def] wf]
    by (simp add: assms(4) tally_indicator http_metrics_default_def)
  moreover have "?n < 2 ^ 64" using tasks_at_le [of _ "sy_tasks y"] assms(6) le_less_trans by blast
  ultimately have n: "unat (hm_connections_active m') = ?n" by (simp add: unat_of_nat_small)
  then have "\<exists>ph. http_health_check m' = Inr ph \<and> ph_status ph = Unhealthy" if "10000 \<le> ?n"
    using that by (simp add: http_health_check_def Let_def word_less_nat_alt word_le_nat_alt)
  with n show ?thesis by (simp add: Let_def)
qed

text \<open>C19: Sessions stick in every interleaving: under consistent hashing, any two requests with the same
session key go to the same upstream, whatever other requests, failures and disconnections there
are in between.\<close>

theorem http_sticky_sessions:
  assumes "lb_strategy lb = ConsistentHashing"
    and "http_reachable hasher lib config (no_tasks (m, h, lb)) y"
    and "(x1, t1) \<in> set (sy_tasks y)" "(x2, t2) \<in> set (sy_tasks y)"
    and "extract_session_key lib (ex_request (fst x1)) = Some key"
    and "extract_session_key lib (ex_request (fst x2)) = Some key"
    and "task_target t1 = Some p1" "task_target t2 = Some p2"
  shows "p1 = p2"
proof -
  have "sticky_inv lb (m, h, lb)"
    using assms(1) by (auto simp: sticky_inv_def intro: exI [of _ "lb_rr_counter lb"])
  from http_sticky.reachable_ok [OF assms(2) [unfolded http_reachable_def] http_sticky.no_tasks_ok [OF this]]
  have "sticky_ok hasher lib lb (sy_state y) x1 t1" "sticky_ok hasher lib lb (sy_state y) x2 t2"
    using assms(3,4) by (auto simp: http_sticky.all_ok_def)
  with assms(5-8) show ?thesis by (simp add: sticky_ok_def)
qed

text \<open>The request handler, run from beginning to end, is one of the interleavings: serving a request
alone takes the system to the handler's reply and state.\<close>

theorem http_handler_is_a_run:
  "\<exists>u. http_reachable hasher lib config y
    (y\<lparr>sy_state := snd (http_handle_request hasher lib config x (sy_state y)),
       sy_tasks := sy_tasks y @
         [((x, False), Replied u (fst (http_handle_request hasher lib config x (sy_state y))))]\<rparr>)"
proof -
  from http_handle_request_solo [of hasher lib config x "sy_state y"] obtain u where
    "solo (http_task_step hasher lib config) (x, False) (Arrived, http_arrive (sy_state y))
      (Replied u (fst (http_handle_request hasher lib config x (sy_state y))),
       snd (http_handle_request hasher lib config x (sy_state y)))" by blast
  then show ?thesis unfolding http_reachable_def by (intro exI [of _ u] solo_reachable)
qed

section \<open>Witnesses\<close>

text \<open>Consistent hashing over one upstream; one request is answered (by a time-out), one is dropped.\<close>

definition test_http_state :: http_state where
  "test_http_state =
     (case lb_exec (\<lambda>_. 0) ConsistentHashing [Set_Upstreams 0 [test_upstream ''a'' 1]] of
        (h, lb) \<Rightarrow> (http_metrics_default, h, lb))"

lemma test_http_history:
  "lb_exec (\<lambda>_. 0) ConsistentHashing [Set_Upstreams 0 [test_upstream ''a'' 1]] =
     (fst (snd test_http_state), snd (snd test_http_state))"
  by (simp add: test_http_state_def split: prod.split)

lemma test_http_facts:
  "fst (snd test_http_state) = [upstream_info_new 0 (test_upstream ''a'' 1)]"
  "lb_upstreams (snd (snd test_http_state)) = [0]"
  "lb_strategy (snd (snd test_http_state)) = ConsistentHashing"
  "fst test_http_state = http_metrics_default" "heap_balanced (fst (snd test_http_state))"
  using lb_exec_wf [OF test_http_history]
  by (simp_all add: test_http_state_def lb_exec_def update_upstreams_eq Let_def heap_balanced_def
      stats_balanced_def upstream_info_new_def upstream_stats_default_def)

lemma test_http_route:
  assumes "snd (snd s) = (snd (snd test_http_state))\<lparr>lb_rr_counter := n\<rparr>"
    and "fst (snd s) = fst (snd test_http_state)"
  shows "\<exists>out s1. route_request (\<lambda>_. 0) map_http_lib test_http_config test_client_request s =
    (Inr (0, out), s1) \<and> fst (snd s1) = fst (snd s) \<and>
    (\<exists>n. snd (snd s1) = (snd (snd test_http_state))\<lparr>lb_rr_counter := n\<rparr>)"
proof -
  let ?h = "fst (snd s)" and ?lb = "snd (snd s)"
  have wf: "balancer_wf (\<lambda>_. 0) ?h ?lb" using lb_exec_wf [OF test_http_history] assms by simp
  obtain r lb1 where r: "select_upstream (\<lambda>_. 0) ?h (extract_session_key map_http_lib test_client_request) ?lb =
      (r, lb1)" by fastforce
  have "fst (select_upstream (\<lambda>_. 0) ?h (extract_session_key map_http_lib test_client_request) ?lb) \<noteq> None"
    using wf by (subst select_upstream_None)
      (simp_all add: assms test_http_facts some_available_def heap_available_def is_available_def
        upstream_info_new_def)
  with r have "r \<noteq> None" by simp
  then obtain q where "r = Some q" by blast
  with balancer_select.pick_sound [OF wf] r assms(1) have r0: "r = Some 0"
    by (fastforce simp: test_http_facts)
  from select_upstream_frame [OF r] assms(1) obtain k where
    "lb1 = (snd (snd test_http_state))\<lparr>lb_rr_counter := k\<rparr>" by auto
  with r r0 show ?thesis
    by (cases s) (auto simp: route_request_def build_upstream_uri_def transform_request_def header_name_def
        header_value_def map_http_lib_def test_http_config_def Let_def)
qed

lemma surj_triple: "s = (fst s, fst (snd s), snd (snd s))"
  by simp

text \<open>A system whose only request was dropped, and one that forwards two of them.\<close>

lemma test_dropped_run:
  "\<exists>y. http_reachable (\<lambda>_. 0) map_http_lib test_http_config (no_tasks test_http_state) y \<and>
     sy_tasks y = [((test_timeout, True), Dropped 0)] \<and> fst (snd (sy_state y)) = fst (snd test_http_state)"
proof -
  let ?step = "http_task_step (\<lambda>_. 0) map_http_lib test_http_config"
  let ?idle = "no_tasks test_http_state :: (string \<rightharpoonup> string) http_system"
  have "snd (snd (http_arrive test_http_state)) =
      (snd (snd test_http_state))\<lparr>lb_rr_counter := lb_rr_counter (snd (snd test_http_state))\<rparr>"
    "fst (snd (http_arrive test_http_state)) = fst (snd test_http_state)"
    by simp_all
  from test_http_route [OF this] obtain out s1 where
    r: "route_request (\<lambda>_. 0) map_http_lib test_http_config test_client_request (http_arrive test_http_state) =
      (Inr (0, out), s1)" "fst (snd s1) = fst (snd test_http_state)"
    by auto
  have forward: "?step (test_timeout, True) (Arrived, http_arrive (sy_state ?idle)) = Some (Forwarding 0 out, s1)"
    using r(1) by (simp add: test_timeout_def)
  have drop: "?step (test_timeout, True) (Forwarding 0 out, s1) = Some (Dropped 0, s1)" by simp
  note run = solo_step [of ?step, OF forward solo_step [of ?step, OF drop solo_refl]]
  let ?y = "?idle\<lparr>sy_state := s1, sy_tasks := sy_tasks ?idle @ [((test_timeout, True), Dropped 0)]\<rparr>"
  have "http_reachable (\<lambda>_. 0) map_http_lib test_http_config ?idle ?y"
    unfolding http_reachable_def using run by (rule solo_reachable)
  with r(2) show ?thesis by (intro exI [of _ ?y]) simp
qed

lemma http_interleavings_accounted_witness:
  "\<exists>y. http_reachable (\<lambda>_. 0) map_http_lib test_http_config (no_tasks test_http_state) y \<and>
     hm_requests_total (fst (sy_state y)) = 1 \<and> status_count 502 (fst (sy_state y)) = 0"
proof -
  obtain y where y: "http_reachable (\<lambda>_. 0) map_http_lib test_http_config (no_tasks test_http_state) y"
    "sy_tasks y = [((test_timeout, True), Dropped 0)]" using test_dropped_run by blast
  then have reach: "http_reachable (\<lambda>_. 0) map_http_lib test_http_config
      (no_tasks (http_metrics_default, fst (snd test_http_state), snd (snd test_http_state))) y"
    by (simp flip: test_http_facts(4))
  have "hm_requests_total (fst (sy_state y)) = 1 \<and> status_count 502 (fst (sy_state y)) = 0"
    using http_interleavings_accounted [OF test_http_history test_http_facts(5) reach surj_triple, of 502]
    by (simp add: y(2) http_metrics_default_def tasks_at_def status_count_def unwrap_or_def)
  with y(1) show ?thesis by blast
qed

lemma disconnects_stay_active_witness:
  "\<exists>y. http_reachable (\<lambda>_. 0) map_http_lib test_http_config (no_tasks test_http_state) y \<and>
     (\<forall>(x, t) \<in> set (sy_tasks y). is_over t) \<and> unat (hm_connections_active (fst (sy_state y))) = 1"
proof -
  obtain y where y: "http_reachable (\<lambda>_. 0) map_http_lib test_http_config (no_tasks test_http_state) y"
    "sy_tasks y = [((test_timeout, True), Dropped 0)]" using test_dropped_run by blast
  have reach: "http_reachable (\<lambda>_. 0) map_http_lib test_http_config
      (no_tasks (http_metrics_default, fst (snd test_http_state), snd (snd test_http_state))) y"
    using y(1) by (simp flip: test_http_facts(4))
  have "unat (hm_connections_active (fst (sy_state y))) = 1"
    using disconnects_stay_active [OF test_http_history test_http_facts(5) reach surj_triple]
    by (simp add: y(2) tasks_at_def Let_def)
  with y show ?thesis by (intro exI [of _ y]) simp
qed

lemma http_sticky_sessions_witness:
  "\<exists>y p q out1 out2. http_reachable (\<lambda>_. 0) map_http_lib test_http_config (no_tasks test_http_state) y \<and>
     sy_tasks y = [((test_timeout, False), Forwarding p out1), ((test_timeout, False), Forwarding q out2)] \<and>
     p = q"
proof -
  let ?step = "http_task_step (\<lambda>_. 0) map_http_lib test_http_config"
  let ?idle = "no_tasks test_http_state :: (string \<rightharpoonup> string) http_system"
  let ?x = "(test_timeout, False)"
  have spawn: "\<exists>out s. http_reachable (\<lambda>_. 0) map_http_lib test_http_config y
        (y\<lparr>sy_state := s, sy_tasks := sy_tasks y @ [(?x, Forwarding 0 out)]\<rparr>) \<and>
      fst (snd s) = fst (snd test_http_state) \<and>
      (\<exists>n. snd (snd s) = (snd (snd test_http_state))\<lparr>lb_rr_counter := n\<rparr>)"
    if y: "fst (snd (sy_state y)) = fst (snd test_http_state)"
      "\<exists>n. snd (snd (sy_state y)) = (snd (snd test_http_state))\<lparr>lb_rr_counter := n\<rparr>"
    for y :: "(string \<rightharpoonup> string) http_system"
  proof -
    obtain n where "snd (snd (http_arrive (sy_state y))) = (snd (snd test_http_state))\<lparr>lb_rr_counter := n\<rparr>"
      "fst (snd (http_arrive (sy_state y))) = fst (snd test_http_state)"
      using y by auto
    from test_http_route [OF this] obtain out s where r:
      "route_request (\<lambda>_. 0) map_http_lib test_http_config test_client_request (http_arrive (sy_state y)) =
        (Inr (0, out), s)" "fst (snd s) = fst (snd (http_arrive (sy_state y)))"
      "\<exists>n. snd (snd s) = (snd (snd test_http_state))\<lparr>lb_rr_counter := n\<rparr>"
      by blast
    have "?step ?x (Arrived, http_arrive (sy_state y)) = Some (Forwarding 0 out, s)"
      using r(1) by (simp add: test_timeout_def)
    from solo_step [of ?step, OF this solo_refl]
    have "http_reachable (\<lambda>_. 0) map_http_lib test_http_config y
        (y\<lparr>sy_state := s, sy_tasks := sy_tasks y @ [(?x, Forwarding 0 out)]\<rparr>)"
      unfolding http_reachable_def by (rule solo_reachable)
    with r(2,3) y(1) show ?thesis by (metis http_arrive_parts(2))
  qed
  have idle: "\<exists>n. snd (snd (sy_state ?idle)) = (snd (snd test_http_state))\<lparr>lb_rr_counter := n\<rparr>"
    by (intro exI [of _ "lb_rr_counter (snd (snd test_http_state))"]) simp
  have "fst (snd (sy_state ?idle)) = fst (snd test_http_state)" by simp
  from spawn [of ?idle, OF this idle] obtain out1 s1 where
    y1: "http_reachable (\<lambda>_. 0) map_http_lib test_http_config ?idle
      (?idle\<lparr>sy_state := s1, sy_tasks := sy_tasks ?idle @ [(?x, Forwarding 0 out1)]\<rparr>)"
      "fst (snd s1) = fst (snd test_http_state)"
      "\<exists>n. snd (snd s1) = (snd (snd test_http_state))\<lparr>lb_rr_counter := n\<rparr>" by blast
  let ?one = "?idle\<lparr>sy_state := s1, sy_tasks := sy_tasks ?idle @ [(?x, Forwarding 0 out1)]\<rparr>"
  have "fst (snd (sy_state ?one)) = fst (snd test_http_state)"
    "\<exists>n. snd (snd (sy_state ?one)) = (snd (snd test_http_state))\<lparr>lb_rr_counter := n\<rparr>"
    using y1(2,3) by simp_all
  from spawn [of ?one, OF this] obtain out2 s2 where
    y2: "http_reachable (\<lambda>_. 0) map_http_lib test_http_config ?one
      (?one\<lparr>sy_state := s2, sy_tasks := sy_tasks ?one @ [(?x, Forwarding 0 out2)]\<rparr>)" by blast
  let ?two = "?one\<lparr>sy_state := s2, sy_tasks := sy_tasks ?one @ [(?x, Forwarding 0 out2)]\<rparr>"
  have reach: "http_reachable (\<lambda>_. 0) map_http_lib test_http_config ?idle ?two"
    using y1(1) y2 unfolding http_reachable_def task_reachable_def by (rule rtranclp_trans)
  have idle_state: "?idle = no_tasks (fst test_http_state, fst (snd test_http_state), snd (snd test_http_state))"
    by simp
  have key: "extract_session_key map_http_lib (ex_request (fst ?x)) = Some ''10.0.0.1''"
    using test_client_key by (simp add: test_timeout_def)
  have "(0 :: arc) = 0"
    by (rule http_sticky_sessions [OF test_http_facts(3) reach [unfolded idle_state], of ?x
          "Forwarding 0 out1" ?x "Forwarding 0 out2" "''10.0.0.1''"])
      (use key in simp_all)
  with reach show ?thesis
    by (intro exI [of _ ?two] exI [of _ 0] exI [of _ out1] exI [of _ out2]) simp
qed

end
