(* ===== verification/Udp_Isolation.thy ===== *)
theory Udp_Isolation
  imports Udp_Proxy
begin

text \<open>
  What the sessions of different UDP clients have to do with each other, in every interleaving of the
  tasks of \<open>src/proxy/udp.rs\<close>: no session is ever shared, and a session keeps its upstream and its
  socket for life; and what can happen to a session that has expired.
\<close>

section \<open>Who uses a session\<close>

text \<open>
  A client uses a session if the map leads its packets there or a listener sends it the replies; a
  session carries for a client if the client uses it or a packet of the client is being sent through it.
\<close>

definition uses :: "'d dash_lib \<Rightarrow> 'd udp_state \<Rightarrow> socket_addr \<Rightarrow> session_ref \<Rightarrow> bool" where
  "uses lib s a r \<longleftrightarrow> dm_get lib a (ud_sessions s) = Some r \<or> (a, r) \<in> set (ud_listeners s)"

definition carries :: "'d dash_lib \<Rightarrow> 'd udp_system \<Rightarrow> socket_addr \<Rightarrow> session_ref \<Rightarrow> bool" where
  "carries lib y a r \<longleftrightarrow>
     uses lib (sys_state y) a r \<or>
     (a, r) \<in> set (map (\<lambda>(k, r). (pk_client_addr k, r)) (sys_sending y))"

definition isolated :: "'d dash_lib \<Rightarrow> 'd udp_system \<Rightarrow> bool" where
  "isolated lib y \<longleftrightarrow>
     (\<forall>a r. carries lib y a r \<longrightarrow> r < length (ud_cells (sys_state y))) \<and>
     (\<forall>a b r. carries lib y a r \<longrightarrow> carries lib y b r \<longrightarrow> a = b)"

section \<open>Lemmas: what a step changes\<close>

text \<open>
  A step that creates no session: sessions and listeners only go, the cells keep their upstream and
  socket, and at most the statistics of the upstream of a session change.
\<close>

definition kept :: "'d dash_lib \<Rightarrow> 'd udp_state \<Rightarrow> 'd udp_state \<Rightarrow> bool" where
  "kept lib s s' \<longleftrightarrow>
     (\<forall>a r. uses lib s' a r \<longrightarrow> uses lib s a r) \<and>
     length (ud_cells s') = length (ud_cells s) \<and>
     (\<forall>r. us_upstream (ud_cells s' ! r) = us_upstream (ud_cells s ! r) \<and>
          us_socket (ud_cells s' ! r) = us_socket (ud_cells s ! r)) \<and>
     lb_upstreams (ud_balancer s') = lb_upstreams (ud_balancer s) \<and>
     (ud_heap s' = ud_heap s \<or>
      (\<exists>f r. r < length (ud_cells s) \<and>
         ud_heap s' = on_stats f (us_upstream (ud_cells s ! r)) (ud_heap s)))"

lemma kept_refl: "kept lib s s"
  by (simp add: kept_def)

lemma kept_same:
  "ud_sessions s' = ud_sessions s \<Longrightarrow> ud_listeners s' = ud_listeners s \<Longrightarrow> ud_cells s' = ud_cells s \<Longrightarrow>
     ud_heap s' = ud_heap s \<Longrightarrow> lb_upstreams (ud_balancer s') = lb_upstreams (ud_balancer s) \<Longrightarrow> kept lib s s'"
  by (simp add: kept_def uses_def)

lemma kept_trans:
  assumes "kept lib s s'" "kept lib s' s''" "ud_heap s' = ud_heap s"
  shows "kept lib s s''"
  using assms unfolding kept_def by metis

lemma isolated_fewer:
  assumes "kept lib (sys_state y) (sys_state y')" "\<And>a r. carries lib y' a r \<Longrightarrow> carries lib y a r"
    and "isolated lib y"
  shows "isolated lib y'"
  using assms unfolding kept_def isolated_def by metis

lemma on_session_socket:
  assumes "\<And>c. us_socket (f c) = us_socket c"
  shows "us_socket (ud_cells (on_session f r s) ! q) = us_socket (ud_cells s ! q)"
  using assms by (cases "r < length (ud_cells s)")
    (auto simp: on_session_def nth_list_update list_update_beyond)

lemma record_bytes_socket [simp]:
  "us_socket (record_bytes_sent n c) = us_socket c" "us_socket (record_bytes_received n c) = us_socket c"
  by (simp_all add: record_bytes_sent_def record_bytes_received_def)

lemma find_session_kept:
  assumes "dash_laws lib" "find_session hasher lib config k s = Some (res, s1)"
  shows "kept lib s s1" "ud_heap s1 = ud_heap s"
proof -
  obtain lb where s1: "s1 = s\<lparr>ud_balancer := lb\<rparr>" using find_session_other(1) [OF assms] by blast
  have "lb_upstreams (ud_balancer s1) = lb_upstreams (ud_balancer s)"
    using find_session_other(2) [OF assms] by auto
  with s1 show "kept lib s s1" by (intro kept_same) simp_all
  from s1 show "ud_heap s1 = ud_heap s" by simp
qed

lemma forward_kept:
  assumes "forward_to_upstream k r s = (res, s1)" "r < length (ud_cells s)"
  shows "kept lib s s1"
proof -
  have "ud_heap s1 = ud_heap s \<or>
      (\<exists>f. ud_heap s1 = on_stats f (us_upstream (ud_cells s ! r)) (ud_heap s))"
    using assms(1) by (auto simp: forward_to_upstream_def Let_def split: send_outcome.splits)
  moreover have "us_socket (ud_cells s1 ! q) = us_socket (ud_cells s ! q)" for q
    using assms(1) by (auto simp: forward_to_upstream_def Let_def on_session_socket
        split: send_outcome.splits)
  moreover have "uses lib s1 = uses lib s"
    using forward_frame(1,2) [OF assms(1)] by (simp add: uses_def fun_eq_iff)
  ultimately show ?thesis
    using forward_frame(3,4,9) [OF assms(1)] assms(2) unfolding kept_def by auto
qed

lemma touch_kept: "kept lib s (on_session (touch now) r s)"
  by (simp add: kept_def uses_def on_session_upstream on_session_socket)

lemma listener_step_kept:
  assumes "dash_laws lib"
  shows "kept lib s (listener_step lib config addr r e s)"
proof -
  have "us_socket (ud_cells (listener_step lib config addr r e s) ! q) = us_socket (ud_cells s ! q)" for q
    by (cases e) (simp_all add: listener_step_def Let_def on_session_socket split: option.split)
  then show ?thesis
    using listener_step_listeners [of lib config addr r e s]
    by (auto simp: kept_def uses_def dest: listener_step_get [OF assms])
qed

lemma create_session_isolated:
  assumes "dash_laws lib" "create_session lib k p (sys_state y) = (Set_Up r, s1)" "isolated lib y"
    and y': "sys_state y' = on_session f r s1" "sys_sending y' = (k, r) # sys_sending y"
  shows "isolated lib y'" "length (ud_cells s1) = Suc (length (ud_cells (sys_state y)))"
    "us_upstream (ud_cells s1 ! length (ud_cells (sys_state y))) = p"
    "q < length (ud_cells (sys_state y)) \<Longrightarrow> ud_cells s1 ! q = ud_cells (sys_state y) ! q"
    "ud_heap s1 = ud_heap (sys_state y)" "ud_balancer s1 = ud_balancer (sys_state y)"
proof -
  let ?s = "sys_state y" and ?n = "length (ud_cells (sys_state y))"
  from create_session_cases [OF assms(2)] obtain sock where s1: "r = ?n"
    "ud_sessions s1 = dm_insert lib (pk_client_addr k) ?n (ud_sessions ?s)"
    "ud_cells s1 = ud_cells ?s @ [udp_session_new (pk_created k) p sock]"
    "ud_listeners s1 = ud_listeners ?s @ [(pk_client_addr k, ?n)]"
    "ud_heap s1 = ud_heap ?s" "ud_balancer s1 = ud_balancer ?s"
    by auto
  have carries: "carries lib y' a q \<Longrightarrow> carries lib y a q \<or> a = pk_client_addr k \<and> q = ?n" for a q
    using s1 by (auto simp: carries_def uses_def y' dash_lawsD [OF assms(1)] split: if_splits)
  have fresh: "\<not> carries lib y a ?n" for a using assms(3) unfolding isolated_def by blast
  show "isolated lib y'"
    unfolding isolated_def
  proof (intro conjI allI impI)
    show "carries lib y' a q \<Longrightarrow> q < length (ud_cells (sys_state y'))" for a q
      using carries [of a q] assms(3) by (auto simp: isolated_def y' s1(3) less_Suc_eq)
    show "carries lib y' a q \<Longrightarrow> carries lib y' b q \<Longrightarrow> a = b" for a b q
      using carries [of a q] carries [of b q] fresh assms(3) unfolding isolated_def by metis
  qed
  show "q < ?n \<Longrightarrow> ud_cells s1 ! q = ud_cells ?s ! q" for q by (simp add: s1 nth_append)
  show "length (ud_cells s1) = Suc ?n" "us_upstream (ud_cells s1 ! ?n) = p"
    by (simp_all add: s1 udp_session_new_def)
  show "ud_heap s1 = ud_heap ?s" "ud_balancer s1 = ud_balancer ?s" by (simp_all add: s1)
qed

text \<open>Every step is one of the two: a step without a new session, or one with exactly one.\<close>

lemma carries_subset:
  assumes "kept lib (sys_state y) (sys_state y')" "carries lib y' a r"
    and "\<And>k q. (k, q) \<in> set (sys_sending y') \<Longrightarrow>
      (k, q) \<in> set (sys_sending y) \<or> uses lib (sys_state y) (pk_client_addr k) q"
  shows "carries lib y a r"
  using assms by (fastforce simp: carries_def kept_def)

lemma udp_step_kept:
  assumes "dash_laws lib" "udp_step hasher lib config y y'" "isolated lib y"
  shows "kept lib (sys_state y) (sys_state y') \<and> (\<forall>a r. carries lib y' a r \<longrightarrow> carries lib y a r) \<or>
      (\<exists>k p r s1 now. (k, p) \<in> set (sys_pending y) \<and>
         create_session lib k p (sys_state y) = (Set_Up r, s1) \<and>
         sys_state y' = on_session (touch now) r s1 \<and> sys_sending y' = (k, r) # sys_sending y)"
  using assms(2)
proof cases
  case (packet_existing k r s1)
  have "kept lib (sys_state y) (on_metrics count_packet (sys_state y))" by (intro kept_same) simp_all
  then have "kept lib (sys_state y) s1"
    using find_session_kept [OF assms(1) packet_existing(2)] kept_trans on_metrics_simps(4) by metis
  moreover have "ud_heap s1 = ud_heap (sys_state y)"
    using find_session_kept(2) [OF assms(1) packet_existing(2)] by simp
  ultimately have k: "kept lib (sys_state y) (sys_state y')"
    using touch_kept kept_trans packet_existing(1) accepted_simps(1) by metis
  have "uses lib (sys_state y) (pk_client_addr k) r"
    using find_session_other(3) [OF assms(1) packet_existing(2), of r] by (simp add: uses_def)
  then show ?thesis
    using k carries_subset [OF k] by (auto simp: packet_existing(1))
next
  case (packet_new k p s1)
  have "kept lib (sys_state y) (on_metrics count_packet (sys_state y))" by (intro kept_same) simp_all
  then have k: "kept lib (sys_state y) (sys_state y')"
    using find_session_kept [OF assms(1) packet_new(2)] kept_trans on_metrics_simps(4)
    by (metis packet_new(1) udp_system.select_convs(1) udp_system.surjective udp_system.update_convs(1,2))
  then show ?thesis using carries_subset [OF k] by (auto simp: packet_new(1))
next
  case (packet_refused k e s1)
  have "kept lib (sys_state y) (on_metrics count_packet (sys_state y))" by (intro kept_same) simp_all
  then have k: "kept lib (sys_state y) (sys_state y')"
    using find_session_kept [OF assms(1) packet_refused(2)] kept_trans on_metrics_simps(4)
    by (metis packet_refused(1) udp_system.select_convs(1) udp_system.surjective udp_system.update_convs(1))
  then show ?thesis using carries_subset [OF k] by (auto simp: packet_refused(1))
next
  case (packet_blocked k)
  have k: "kept lib (sys_state y) (sys_state y')" by (intro kept_same) (simp_all add: packet_blocked)
  then show ?thesis using carries_subset [OF k] by (auto simp: packet_blocked(1))
next
  case (socket_ready k p r s1)
  then show ?thesis by (auto intro!: disjI2)
next
  case (socket_failed k p e s1)
  then have "s1 = sys_state y" using create_session_cases [OF socket_failed(3)] by auto
  then have k: "kept lib (sys_state y) (sys_state y')" by (simp add: socket_failed(1) kept_refl)
  then show ?thesis using carries_subset [OF k] by (auto simp: socket_failed(1))
next
  case (packet_sent k r res s1)
  have "carries lib y (pk_client_addr k) r" using packet_sent(2) by (force simp: carries_def)
  then have "r < length (ud_cells (sys_state y))" using assms(3) unfolding isolated_def by blast
  with packet_sent have k: "kept lib (sys_state y) (sys_state y')" by (simp add: forward_kept)
  then show ?thesis
    using carries_subset [OF k] by (auto simp: packet_sent(1) dest: set_remove1_subset [THEN subsetD])
next
  case (listener_round addr r e)
  have k: "kept lib (sys_state y) (sys_state y')"
    using listener_step_kept [OF assms(1)] by (simp add: listener_round(1))
  then show ?thesis using carries_subset [OF k] by (auto simp: listener_round(1))
next
  case (sweep_begin now)
  have k: "kept lib (sys_state y) (sys_state y')" by (simp add: sweep_begin(1) kept_refl)
  then show ?thesis using carries_subset [OF k] by (auto simp: sweep_begin(1))
next
  case (sweep_next addr as)
  have k: "kept lib (sys_state y) (sys_state y')"
    using cleanup_remove_frame [OF assms(1), of "[addr]" "sys_state y"]
    by (auto simp: sweep_next(1) kept_def uses_def cleanup_remove_get [OF assms(1)] split: if_splits)
  then show ?thesis using carries_subset [OF k] by (auto simp: sweep_next(1))
next
  case stopped
  have k: "kept lib (sys_state y) (sys_state y')"
    by (auto simp: stopped kept_def uses_def udp_shutdown_def dash_lawsD [OF assms(1)])
  then show ?thesis using carries_subset [OF k] by (auto simp: stopped)
qed

lemma udp_step_pending:
  assumes "dash_laws lib" "udp_step hasher lib config y y'" "(k, p) \<in> set (sys_pending y')"
  shows "(k, p) \<in> set (sys_pending y) \<or>
    (\<exists>lb. select_upstream hasher (ud_heap (sys_state y)) (Some (show_socket_addr (pk_client_addr k)))
       (ud_balancer (sys_state y)) = (Some p, lb))"
  using assms(2,3)
proof cases
  case (packet_new k' p' s1)
  with find_session_new(3) [OF assms(1) packet_new(2)] assms(3) show ?thesis by auto
qed (auto dest: set_remove1_subset [THEN subsetD])

section \<open>Lemmas: what every interleaving keeps\<close>

text \<open>\<open>ps\<close>: the upstreams of the balancer, which are those of the sessions and of the set-ups.\<close>

definition served_by :: "arc set \<Rightarrow> 'd udp_system \<Rightarrow> bool" where
  "served_by ps y \<longleftrightarrow>
     set (lb_upstreams (ud_balancer (sys_state y))) = ps \<and>
     (\<forall>(k, p) \<in> set (sys_pending y). p \<in> ps) \<and>
     (\<forall>r < length (ud_cells (sys_state y)). us_upstream (ud_cells (sys_state y) ! r) \<in> ps)"

definition same_cells :: "'d udp_state \<Rightarrow> 'd udp_state \<Rightarrow> bool" where
  "same_cells s s' \<longleftrightarrow>
     length (ud_cells s) \<le> length (ud_cells s') \<and>
     (\<forall>r < length (ud_cells s).
        us_upstream (ud_cells s' ! r) = us_upstream (ud_cells s ! r) \<and>
        us_socket (ud_cells s' ! r) = us_socket (ud_cells s ! r))"

lemma same_cells_trans: "same_cells s s' \<Longrightarrow> same_cells s' s'' \<Longrightarrow> same_cells s s''"
  unfolding same_cells_def by fastforce

lemma kept_effects:
  assumes "kept lib s s'"
    and "\<forall>r < length (ud_cells s). us_upstream (ud_cells s ! r) \<in> ps"
  shows "same_cells s s'" "(traffic_step ps)\<^sup>=\<^sup>= (ud_heap s) (ud_heap s')"
    "\<forall>r < length (ud_cells s'). us_upstream (ud_cells s' ! r) \<in> ps"
proof -
  show "same_cells s s'" "\<forall>r < length (ud_cells s'). us_upstream (ud_cells s' ! r) \<in> ps"
    using assms by (simp_all add: kept_def same_cells_def)
  show "(traffic_step ps)\<^sup>=\<^sup>= (ud_heap s) (ud_heap s')"
    using assms unfolding kept_def traffic_step_def by auto
qed

lemma udp_step_isolated:
  assumes "dash_laws lib" "udp_step hasher lib config y y'" "udp_inv hasher lib y"
    and "isolated lib y" "served_by ps y"
  shows "isolated lib y'" "served_by ps y'" "same_cells (sys_state y) (sys_state y')"
    "(traffic_step ps)\<^sup>=\<^sup>= (ud_heap (sys_state y)) (ud_heap (sys_state y'))"
proof -
  let ?s = "sys_state y" and ?s' = "sys_state y'"
  have cells: "\<forall>r < length (ud_cells ?s). us_upstream (ud_cells ?s ! r) \<in> ps"
    using assms(5) by (simp add: served_by_def)
  have wf: "balancer_wf hasher (ud_heap ?s) (ud_balancer ?s)" using assms(3) by (simp add: udp_inv_def)
  have pending: "\<forall>(k, p) \<in> set (sys_pending y'). p \<in> ps"
    using udp_step_pending [OF assms(1,2)] assms(5) select_upstream_sound [OF wf]
    unfolding served_by_def by fast
  have main: "isolated lib y' \<and> lb_upstreams (ud_balancer ?s') = lb_upstreams (ud_balancer ?s) \<and>
      same_cells ?s ?s' \<and> (traffic_step ps)\<^sup>=\<^sup>= (ud_heap ?s) (ud_heap ?s') \<and>
      (\<forall>r < length (ud_cells ?s'). us_upstream (ud_cells ?s' ! r) \<in> ps)"
    using udp_step_kept [OF assms(1,2,4)]
  proof (elim conjE disjE exE)
    assume k: "kept lib ?s ?s'" and "\<forall>a r. carries lib y' a r \<longrightarrow> carries lib y a r"
    then have "isolated lib y'" using isolated_fewer [OF k _ assms(4)] by blast
    with kept_effects [OF k cells] k show ?thesis by (simp add: kept_def)
  next
    fix k p r s1 now
    assume c: "(k, p) \<in> set (sys_pending y)" "create_session lib k p ?s = (Set_Up r, s1)"
      and y': "?s' = on_session (touch now) r s1" "sys_sending y' = (k, r) # sys_sending y"
    note new = create_session_isolated [OF assms(1) c(2) assms(4) y']
    have "p \<in> ps" using c(1) assms(5) by (auto simp: served_by_def)
    then have "\<forall>r < length (ud_cells s1). us_upstream (ud_cells s1 ! r) \<in> ps"
      using cells new(2-4) by (simp add: less_Suc_eq all_conj_distrib)
    note k = kept_effects [OF touch_kept this, of now r, folded y'(1)]
    have "same_cells ?s s1" using new(2,4) by (simp add: same_cells_def)
    with new(1,5,6) k show ?thesis by (auto simp: y'(1) intro: same_cells_trans)
  qed
  then show "isolated lib y'" "same_cells ?s ?s'" "(traffic_step ps)\<^sup>=\<^sup>= (ud_heap ?s) (ud_heap ?s')"
    by simp_all
  from main pending assms(5) show "served_by ps y'" by (simp add: served_by_def)
qed

lemma udp_reachable_isolated:
  assumes "dash_laws lib" "udp_reachable hasher lib config y y'" "udp_inv hasher lib y"
    and "isolated lib y" "served_by ps y"
  shows "isolated lib y'" "served_by ps y'" "same_cells (sys_state y) (sys_state y')"
    "(traffic_step ps)\<^sup>*\<^sup>* (ud_heap (sys_state y)) (ud_heap (sys_state y'))"
proof -
  have "isolated lib y' \<and> served_by ps y' \<and> same_cells (sys_state y) (sys_state y') \<and>
      (traffic_step ps)\<^sup>*\<^sup>* (ud_heap (sys_state y)) (ud_heap (sys_state y'))"
    using assms(2) unfolding udp_reachable_def
  proof (induction rule: rtranclp_induct)
    case base
    with assms(4,5) show ?case by (simp add: same_cells_def)
  next
    case (step z z')
    have "udp_inv hasher lib z"
      using udp_reachable_inv [OF assms(1) _ assms(3)] step.hyps(1) by (simp add: udp_reachable_def)
    note z' = udp_step_isolated [OF assms(1) step.hyps(2) this, where ps = ps]
    from step.IH z' show ?case by (blast intro: same_cells_trans rtranclp_maybe)
  qed
  then show "isolated lib y'" "served_by ps y'" "same_cells (sys_state y) (sys_state y')"
    "(traffic_step ps)\<^sup>*\<^sup>* (ud_heap (sys_state y)) (ud_heap (sys_state y'))" by simp_all
qed

lemma udp_initial_isolated:
  assumes "session_keys lib d = {}"
  shows "isolated lib (udp_initial d h lb)"
    "served_by (set (lb_upstreams lb)) (udp_initial d h lb)"
  using assms by (auto simp: isolated_def carries_def uses_def served_by_def udp_initial_def session_keys_def)

section \<open>Lemmas: an expired session\<close>



lemma is_expired_activity:
  "us_last_activity c = us_last_activity c' \<Longrightarrow> is_expired now timeout c = is_expired now timeout c'"
  by (simp add: is_expired_def)

lemma record_bytes_activity [simp]:
  "us_last_activity (record_bytes_sent n c) = us_last_activity c"
  "us_last_activity (record_bytes_received n c) = us_last_activity c"
  by (simp_all add: record_bytes_sent_def record_bytes_received_def)






section \<open>Properties\<close>

text \<open>C6: Sessions are private and sticky: in every interleaving, whatever a session carries, packets
being sent, later packets or replies, it carries for one client only; and a session that exists keeps
its upstream and its socket whatever happens later.\<close>

theorem udp_sessions_private:
  assumes "dash_laws lib" "session_keys lib d = {}" "lb_exec hasher strategy ops = (h, lb)"
    and "udp_reachable hasher lib config (udp_initial d h lb) y" "udp_reachable hasher lib config y y'"
  shows "(\<forall>a b r. carries lib y a r \<and> carries lib y b r \<longrightarrow> a = b) \<and>
    (\<forall>r < length (ud_cells (sys_state y)).
       us_upstream (ud_cells (sys_state y') ! r) = us_upstream (ud_cells (sys_state y) ! r) \<and>
       us_socket (ud_cells (sys_state y') ! r) = us_socket (ud_cells (sys_state y) ! r) \<and>
       us_upstream (ud_cells (sys_state y) ! r) \<in> set (lb_upstreams lb))"
proof -
  have inv: "udp_inv hasher lib (udp_initial d h lb)"
    using udp_inv_initial [OF conjunct1 [OF lb_exec_wf [OF assms(3)]] assms(2)] .
  note y = udp_reachable_isolated [OF assms(1,4) inv udp_initial_isolated [OF assms(2)]]
  from udp_reachable_isolated [OF assms(1,5) udp_reachable_inv [OF assms(1,4) inv] y(1,2)] y
  show ?thesis unfolding isolated_def served_by_def same_cells_def by blast
qed


section \<open>Witnesses\<close>

text \<open>A client has got its session, and its first packet is being sent.\<close>

definition test_udp_start :: "(socket_addr \<times> session_ref) list udp_system" where
  "test_udp_start =
     (case lb_exec (\<lambda>_. 0) LeastConnections [Set_Upstreams 0 [test_upstream ''a'' 1]] of
        (h, lb) \<Rightarrow> udp_initial [] h lb)"

definition test_udp_sending :: "(socket_addr \<times> session_ref) list udp_system" where
  "test_udp_sending =
     (let counted = on_metrics count_packet (sys_state test_udp_start)
      in accepted (test_packet 0) 0 (snd (create_session list_dash (test_packet 0) 0 counted)) test_udp_start)"

lemma test_udp_start_history:
  "\<exists>h lb. lb_exec (\<lambda>_. 0) LeastConnections [Set_Upstreams 0 [test_upstream ''a'' 1]] = (h, lb) \<and>
     test_udp_start = udp_initial [] h lb"
  by (auto simp: test_udp_start_def split: prod.split)

lemma test_udp_sending_reachable:
  "udp_reachable (\<lambda>_. 0) list_dash test_udp_config test_udp_start test_udp_sending"
  "dm_get list_dash test_client (ud_sessions (sys_state test_udp_sending)) = Some 0"
  "ud_cells (sys_state test_udp_sending) = [udp_session_new 0 0 9]"
proof -
  let ?ops = "[Set_Upstreams 0 [test_upstream ''a'' 1]]" and ?k = "test_packet 0"
  obtain h lb where l: "lb_exec (\<lambda>_. 0) LeastConnections ?ops = (h, lb)"
    "test_udp_start = udp_initial [] h lb" using test_udp_start_history by blast
  have h: "h = [upstream_info_new 0 (test_upstream ''a'' 1)]" "lb_upstreams lb = [0]"
    "lb_strategy lb = LeastConnections"
    using l(1) by (auto simp: lb_exec_def update_upstreams_eq refresh_ring_def balancer_new_def Let_def)
  let ?counted = "on_metrics count_packet (sys_state test_udp_start)"
  let ?setting_up = "test_udp_start\<lparr>sys_state := ?counted, sys_pending := [(?k, 0)]\<rparr>"
  obtain s1 where c: "create_session list_dash ?k 0 ?counted = (Set_Up 0, s1)" and
    s1: "ud_cells s1 = [udp_session_new 0 0 9]" "dm_get list_dash test_client (ud_sessions s1) = Some 0"
    by (simp add: create_session_def open_upstream_socket_def l(2) udp_initial_def h upstream_info_new_def
        test_upstream_def test_address test_packet_def list_dash_def Let_def)
  have sending: "test_udp_sending =
      accepted ?k 0 s1 (?setting_up\<lparr>sys_pending := remove1 (?k, 0) (sys_pending ?setting_up)\<rparr>)"
    by (simp add: test_udp_sending_def c accepted_def) (simp add: l(2) udp_initial_def)
  let ?step = "udp_step (\<lambda>_. 0) list_dash test_udp_config"
  have "find_session (\<lambda>_. 0) list_dash test_udp_config ?k ?counted = Some (Inr (New_For 0), ?counted)"
    by (simp add: find_session_def l(2) udp_initial_def list_dash_def select_upstream_def h
        select_least_connections_def get_upstreams_def heap_available_def is_available_def
        upstream_info_new_def upstream_stats_default_def on_metrics_def Let_def)
  from packet_new [OF this] have 1: "?step test_udp_start ?setting_up" by (simp add: l(2) udp_initial_def)
  have 2: "?step ?setting_up test_udp_sending"
    using socket_ready [of ?k 0 ?setting_up list_dash 0 s1] c unfolding sending by simp
  from 1 2 show "udp_reachable (\<lambda>_. 0) list_dash test_udp_config test_udp_start test_udp_sending"
    unfolding udp_reachable_def by (meson converse_rtranclp_into_rtranclp rtranclp.rtrancl_refl)
  show "dm_get list_dash test_client (ud_sessions (sys_state test_udp_sending)) = Some 0"
    "ud_cells (sys_state test_udp_sending) = [udp_session_new 0 0 9]"
    by (simp_all add: sending s1 on_session_def touch_def udp_session_new_def test_packet_def)
qed

lemma udp_sessions_private_witness:
  "\<exists>y'. udp_reachable (\<lambda>_. 0) list_dash test_udp_config test_udp_sending y' \<and>
     carries list_dash test_udp_sending test_client 0 \<and>
     session_keys list_dash (ud_sessions (sys_state y')) = {} \<and>
     us_socket (ud_cells (sys_state y') ! 0) = 9"
proof -
  let ?over = "test_udp_sending\<lparr>sys_state := udp_shutdown list_dash (sys_state test_udp_sending)\<rparr>"
  obtain h lb where l: "lb_exec (\<lambda>_. 0) LeastConnections [Set_Upstreams 0 [test_upstream ''a'' 1]] = (h, lb)"
    "test_udp_start = udp_initial [] h lb" using test_udp_start_history by blast
  have y': "udp_reachable (\<lambda>_. 0) list_dash test_udp_config test_udp_sending ?over"
    unfolding udp_reachable_def by (intro r_into_rtranclp stopped)
  from udp_sessions_private [OF list_dash_laws test_keys(2) l(1)
      test_udp_sending_reachable(1) [unfolded l(2)] y']
  have "us_socket (ud_cells (sys_state ?over) ! 0) = 9"
    by (simp add: test_udp_sending_reachable(3) udp_session_new_def)
  moreover have "carries list_dash test_udp_sending test_client 0"
    using test_udp_sending_reachable(2) by (simp add: carries_def uses_def)
  moreover have "session_keys list_dash (ud_sessions (sys_state ?over)) = {}"
    using udp_shutdown_counters [OF list_dash_laws] by simp
  ultimately show ?thesis using y' by blast
qed


end
