(* ===== verification/Traffic.thy ===== *)
theory Traffic
  imports Router_Lifecycle Tcp_Concurrency Http_Concurrency Udp_Isolation
begin

text \<open>
  The composition of the router with the proxies: whatever the connections, requests and packets of
  a proxy do to the shared upstreams, in every interleaving of their tasks, is a sequence of the
  \<open>traffic\<close> steps of the router's lifecycle. So what holds of the lifecycle (the registry does not see
  the traffic, for one) holds with the proxies as they are.
\<close>

section \<open>TCP\<close>

definition chosen_from :: "arc set \<Rightarrow> arc option \<Rightarrow> bool" where
  "chosen_from ps u \<longleftrightarrow> (case u of None \<Rightarrow> True | Some p \<Rightarrow> p \<in> ps)"

lemma chosen_from_simps [simp]: "chosen_from ps None" "chosen_from ps (Some p) \<longleftrightarrow> p \<in> ps"
  by (simp_all add: chosen_from_def)

text \<open>The balancer, the upstreams it may choose, and a heap that only traffic has changed.\<close>

definition serving ::
  "(string \<Rightarrow> u64) \<Rightarrow> arc set \<Rightarrow> upstream_heap \<Rightarrow> upstream_heap \<Rightarrow> balancer \<Rightarrow> bool" where
  "serving hasher ps h0 h lb \<longleftrightarrow>
     balancer_wf hasher h lb \<and> set (lb_upstreams lb) = ps \<and> (traffic_step ps)\<^sup>*\<^sup>* h0 h"

lemma serving_on_stats: "serving hasher ps h0 h lb \<Longrightarrow> p \<in> ps \<Longrightarrow> serving hasher ps h0 (on_stats f p h) lb"
  by (auto simp: serving_def balancer_wf_on_stats intro: rtranclp.rtrancl_into_rtrancl traffic_step_on_stats)

lemma serving_select:
  assumes "serving hasher ps h0 h lb" "select_upstream hasher h key lb = (u, lb')"
  shows "serving hasher ps h0 h lb'" "chosen_from ps u"
proof -
  have wf: "balancer_wf hasher h lb" using assms(1) by (simp add: serving_def)
  show "serving hasher ps h0 h lb'"
    using balancer_select.pick_frame [OF wf assms(2)] assms(1) by (auto simp: serving_def)
  show "chosen_from ps u"
    using select_upstream_sound [OF wf] assms by (cases u) (auto simp: serving_def)
qed

lemma tcp_task_step_serving:
  assumes "serving hasher ps h0 (ts_heap s) (ts_balancer s)" "task_arcs t \<subseteq> ps"
    and "tcp_task_step hasher lib config x (t, s) = Some (t', s')"
  shows "serving hasher ps h0 (ts_heap s') (ts_balancer s') \<and> task_arcs t' \<subseteq> ps"
proof
  have wf: "balancer_wf hasher (ts_heap s) (ts_balancer s)" "set (lb_upstreams (ts_balancer s)) = ps"
    using assms(1) by (simp_all add: serving_def)
  show "task_arcs t' \<subseteq> ps" using tcp_task_step_arcs [OF wf(1) assms(3)] wf(2) assms(2) by blast
  show "serving hasher ps h0 (ts_heap s') (ts_balancer s')"
  proof (cases t)
    case Accepted
    obtain u lb where sel: "select_upstream hasher (ts_heap s)
        (Some (show_socket_addr (tx_client_addr x))) (ts_balancer s) = (u, lb)" by fastforce
    from serving_select(1) [OF assms(1) sel] assms(1,3) sel Accepted show ?thesis
      by (auto split: if_splits)
  next
    case (Scanning seen rest)
    with assms show ?thesis by (cases rest) (auto simp: Let_def)
  next
    case (Chosen p)
    with assms show ?thesis by (simp split: option.splits sum.splits prod.splits) auto
  next
    case (Opened p)
    with assms show ?thesis by (auto simp: serving_on_stats)
  next
    case (Streaming p r es)
    with assms show ?thesis
      by (cases "relay_result r"; cases es) (auto simp: Let_def serving_on_stats)
  next
    case (Recording p r result)
    with assms show ?thesis by (cases result) (auto simp: serving_on_stats)
  qed (use assms in auto)
qed

interpretation tcp_traffic:
  tasks tcp_arrive Accepted "tcp_task_step hasher lib config"
    "\<lambda>s. serving hasher ps h0 (ts_heap s) (ts_balancer s)" "\<lambda>s x t. task_arcs t \<subseteq> ps"
  for hasher lib config ps h0
proof unfold_locales
  fix s s' :: "'q tcp_state" and x :: tcp_exchange and t t' :: tcp_task and lib :: "'q queue_lib"
  assume "serving hasher ps h0 (ts_heap s) (ts_balancer s)" "task_arcs t \<subseteq> ps"
    "tcp_task_step hasher lib config x (t, s) = Some (t', s')"
  then show "serving hasher ps h0 (ts_heap s') (ts_balancer s') \<and> task_arcs t' \<subseteq> ps"
    by (rule tcp_task_step_serving)
qed (simp_all add: tcp_arrive_def)

lemma tcp_reachable_serving:
  assumes "tcp_reachable hasher lib config (no_tasks s) y" "serving hasher ps h0 (ts_heap s) (ts_balancer s)"
  shows "serving hasher ps h0 (ts_heap (sy_state y)) (ts_balancer (sy_state y))"
  using tcp_traffic.reachable_ok [OF assms(1) [unfolded tcp_reachable_def]
      tcp_traffic.no_tasks_ok [where ps = ps and ?h0.0 = h0]] assms(2)
  by (simp add: tcp_traffic.all_ok_def)

section \<open>HTTP\<close>

lemma http_task_step_serving:
  assumes "case s of (m, h, lb) \<Rightarrow> serving hasher ps h0 h lb" "chosen_from ps (task_target t)"
    and "http_task_step hasher lib config x (t, s) = Some (t', s')"
  shows "(case s' of (m, h, lb) \<Rightarrow> serving hasher ps h0 h lb) \<and> chosen_from ps (task_target t')"
proof -
  obtain e gone where x: "x = (e, gone)" by (metis surj_pair)
  obtain m h lb where s: "s = (m, h, lb)" by (metis surj_pair)
  have serving: "serving hasher ps h0 h lb" using assms(1) by (simp add: s)
  show ?thesis
  proof (cases t)
    case Arrived
    obtain u lb1 where sel: "select_upstream hasher h (extract_session_key lib (ex_request e)) lb = (u, lb1)"
      by fastforce
    from serving_select [OF serving sel] assms(3) sel Arrived show ?thesis
      by (auto simp: x s route_request_def split: option.splits sum.splits)
  next
    case (Forwarding p req)
    obtain r m1 h1 lb1 where r: "complete_request lib config (ex_now e) p
        (ex_client e (millis_to_duration (up_timeout_ms (ui_config (h ! p)))) req) s = (r, m1, h1, lb1)"
      by (metis surj_pair)
    from complete_request_frame [OF r [unfolded s]] obtain f where "lb1 = lb" "h1 = on_stats f p h"
      by blast
    then have "serving hasher ps h0 h1 lb1"
      using serving_on_stats [OF serving, of p f] assms(2) Forwarding by simp
    with serving assms(2,3) r Forwarding show ?thesis by (auto simp: x s split: if_splits)
  qed (use assms in \<open>auto simp: x s\<close>)
qed

interpretation http_traffic:
  tasks http_arrive Arrived "http_task_step hasher lib config"
    "\<lambda>s. case s of (m, h, lb) \<Rightarrow> serving hasher ps h0 h lb" "\<lambda>s x t. chosen_from ps (task_target t)"
  for hasher lib config ps h0
proof unfold_locales
  fix s s' :: http_state and x :: "'h client_request" and t t' :: "'h http_task" and lib :: "'h http_lib"
  assume "case s of (m, h, lb) \<Rightarrow> serving hasher ps h0 h lb" "chosen_from ps (task_target t)"
    "http_task_step hasher lib config x (t, s) = Some (t', s')"
  then show "(case s' of (m, h, lb) \<Rightarrow> serving hasher ps h0 h lb) \<and> chosen_from ps (task_target t')"
    by (rule http_task_step_serving)
qed (auto simp: http_arrive_def)

lemma http_reachable_serving:
  assumes "http_reachable hasher lib config (no_tasks (m, h, lb)) y" "serving hasher ps h0 h lb"
  shows "serving hasher ps h0 (fst (snd (sy_state y))) (snd (snd (sy_state y)))"
  using http_traffic.reachable_ok [OF assms(1) [unfolded http_reachable_def]
      http_traffic.no_tasks_ok [where ps = ps and ?h0.0 = h0]] assms(2)
  by (auto simp: http_traffic.all_ok_def split: prod.splits)

section \<open>The router awaits a proxy\<close>

text \<open>What \<open>start_proxy_instance\<close> hands to the proxy is a consistent balancer on the shared heap.\<close>

definition balancer_ready :: "(string \<Rightarrow> u64) \<Rightarrow> ('c, 'e) lifecycle \<Rightarrow> bool" where
  "balancer_ready hasher y \<longleftrightarrow>
     (case lc_phase y of Awaiting c p b es cs \<Rightarrow> balancer_wf hasher (w_heap (lc_world y)) b | _ \<Rightarrow> True)"

lemma prepare_instance_ready:
  assumes "prepare_instance hasher lib ch now c w = (Inr (p, b), w')"
  shows "balancer_wf hasher (w_heap w') b"
proof -
  obtain h lb where up: "update_upstreams hasher now (inst_upstreams c)
      (w_heap w, balancer_new (instance_strategy (inst_proxy_type c))) = Inr (h, lb)"
    by (simp add: update_upstreams_eq Let_def)
  obtain h' reg where reg: "register_upstreams now (inst_upstreams c) (h, w_registry w) = (h', reg)"
    by fastforce
  have "balancer_wf hasher h lb" using update_upstreams_wf [OF balancer_new_wf up] .
  then have "balancer_wf hasher h' lb"
    unfolding register_upstreams_heap [OF reg] by (rule balancer_wf_append)
  moreover have "w_heap w' = h'" "b = lb"
    using assms up reg by (auto simp: prepare_instance_def Let_def split: sum.splits)
  ultimately show ?thesis by simp
qed

lemma lifecycle_step_ready:
  assumes "lifecycle_step hasher lib ch pf y y'" "balancer_ready hasher y"
  shows "balancer_ready hasher y'"
  using assms(1)
proof cases
  case (instance_started c cs now p b w)
  with prepare_instance_ready show ?thesis by (simp add: balancer_ready_def)
next
  case (traffic c p b es cs q f)
  with assms(2) show ?thesis by (simp add: balancer_ready_def balancer_wf_on_stats)
qed (use assms(2) in \<open>auto simp: balancer_ready_def after_task_def split: phase.splits if_splits\<close>)

lemma router_start_ready:
  assumes "lifecycle_reachable hasher lib ch pf (router_start rt reg h) y"
  shows "balancer_ready hasher y"
proof (rule lifecycle_invariant [OF assms])
  show "balancer_ready hasher (router_start rt reg h)" by (simp add: balancer_ready_def router_start_def)
qed (rule lifecycle_step_ready)

definition with_heap :: "upstream_heap \<Rightarrow> ('c, 'e) lifecycle \<Rightarrow> ('c, 'e) lifecycle" where
  "with_heap h y = y\<lparr>lc_world := (lc_world y)\<lparr>w_heap := h\<rparr>\<rparr>"

lemma lifecycle_carries_traffic:
  assumes "lc_phase y = Awaiting c p b es cs"
    and "(traffic_step (set (lb_upstreams b)))\<^sup>*\<^sup>* (w_heap (lc_world y)) h"
  shows "lifecycle_reachable hasher lib ch pf y (with_heap h y)"
  using assms(2) unfolding lifecycle_reachable_def
proof (induction rule: rtranclp_induct)
  case base
  then show ?case by (simp add: with_heap_def)
next
  case (step h1 h2)
  then obtain f q where q: "q \<in> set (lb_upstreams b)" "h2 = on_stats f q h1"
    by (auto simp: traffic_step_def)
  have "lifecycle_step hasher lib ch pf (with_heap h1 y) (with_heap h2 y)"
    using traffic [of "with_heap h1 y" c p b es cs q hasher lib ch pf f] assms(1) q
    by (simp add: with_heap_def)
  with step.IH show ?case by (rule rtranclp.rtrancl_into_rtrancl)
qed

lemma tcp_carried:
  assumes "lc_phase y = Awaiting c p b es cs" "balancer_wf hasher (w_heap (lc_world y)) b"
    and "tcp_reachable hasher qlib config (no_tasks s) z \<and>
      ts_heap s = w_heap (lc_world y) \<and> ts_balancer s = b"
  shows "lifecycle_reachable hasher lib ch pf y (with_heap (ts_heap (sy_state z)) y)"
proof -
  let ?h = "w_heap (lc_world y)" and ?ps = "set (lb_upstreams b)"
  have "serving hasher ?ps ?h ?h b" using assms(2) by (simp add: serving_def)
  with tcp_reachable_serving [OF conjunct1 [OF assms(3)], of ?ps ?h] assms(3)
  have "(traffic_step ?ps)\<^sup>*\<^sup>* ?h (ts_heap (sy_state z))" by (simp add: serving_def)
  then show ?thesis by (rule lifecycle_carries_traffic [OF assms(1)])
qed

lemma http_carried:
  assumes "lc_phase y = Awaiting c p b es cs" "balancer_wf hasher (w_heap (lc_world y)) b"
    and "http_reachable hasher hlib config (no_tasks (m, w_heap (lc_world y), b)) z"
  shows "lifecycle_reachable hasher lib ch pf y (with_heap (fst (snd (sy_state z))) y)"
proof -
  let ?h = "w_heap (lc_world y)" and ?ps = "set (lb_upstreams b)"
  have "serving hasher ?ps ?h ?h b" using assms(2) by (simp add: serving_def)
  from http_reachable_serving [OF assms(3) this]
  have "(traffic_step ?ps)\<^sup>*\<^sup>* ?h (fst (snd (sy_state z)))" by (simp add: serving_def)
  then show ?thesis by (rule lifecycle_carries_traffic [OF assms(1)])
qed

lemma udp_carried:
  assumes "lc_phase y = Awaiting c p b es cs" "balancer_wf hasher (w_heap (lc_world y)) b"
    and "dash_laws dlib \<and> session_keys dlib d = {} \<and>
      udp_reachable hasher dlib config (udp_initial d (w_heap (lc_world y)) b) z"
  shows "lifecycle_reachable hasher lib ch pf y (with_heap (ud_heap (sys_state z)) y)"
proof -
  from assms(3) have d: "dash_laws dlib" "session_keys dlib d = {}"
    "udp_reachable hasher dlib config (udp_initial d (w_heap (lc_world y)) b) z" by blast+
  from udp_reachable_isolated(4) [OF d(1,3) udp_inv_initial [OF assms(2) d(2)]
      udp_initial_isolated [OF d(2)]]
  have "(traffic_step (set (lb_upstreams b)))\<^sup>*\<^sup>* (w_heap (lc_world y)) (ud_heap (sys_state z))"
    by (simp add: udp_initial_def)
  then show ?thesis by (rule lifecycle_carries_traffic [OF assms(1)])
qed

section \<open>Property\<close>

text \<open>C15: The lifecycle abstracts the proxies: while the router awaits an instance, every concurrent
run of TCP connections, of HTTP requests or of UDP packets over the balancer and the upstreams that
the router handed out is, as far as the shared upstreams are concerned, a run of the lifecycle.\<close>

theorem lifecycle_abstracts_proxies:
  assumes "lifecycle_reachable hasher lib ch pf (router_start rt reg h0) y"
    and "lc_phase y = Awaiting c p b es cs"
  shows "(\<forall>qlib config s z.
      tcp_reachable hasher qlib config (no_tasks s) z \<and>
      ts_heap s = w_heap (lc_world y) \<and> ts_balancer s = b \<longrightarrow>
      lifecycle_reachable hasher lib ch pf y (with_heap (ts_heap (sy_state z)) y)) \<and>
    (\<forall>hlib config m z.
      http_reachable hasher hlib config (no_tasks (m, w_heap (lc_world y), b)) z \<longrightarrow>
      lifecycle_reachable hasher lib ch pf y (with_heap (fst (snd (sy_state z))) y)) \<and>
    (\<forall>dlib config d z.
      dash_laws dlib \<and> session_keys dlib d = {} \<and>
      udp_reachable hasher dlib config (udp_initial d (w_heap (lc_world y)) b) z \<longrightarrow>
      lifecycle_reachable hasher lib ch pf y (with_heap (ud_heap (sys_state z)) y))"
proof -
  have wf: "balancer_wf hasher (w_heap (lc_world y)) b"
    using router_start_ready [OF assms(1)] assms(2) by (simp add: balancer_ready_def)
  show ?thesis
    by (intro conjI allI impI)
      (erule tcp_carried [OF assms(2) wf] http_carried [OF assms(2) wf] udp_carried [OF assms(2) wf])+
qed

section \<open>Witness\<close>

text \<open>A connection is being relayed by the instance that the router awaits.\<close>

lemma lifecycle_abstracts_proxies_witness:
  "\<exists>y z. test_reachable [test_instance] y \<and>
     lifecycle_reachable (\<lambda>_. 0) map_http_lib count_channel test_platform y (with_heap z y) \<and>
     active_connections (ui_stats (w_heap (lc_world y) ! 0)) = 0 \<and>
     active_connections (ui_stats (z ! 0)) = 1"
proof -
  obtain y p b where y: "test_reachable [test_instance] y"
    "lc_phase y = Awaiting test_instance p b [] []" "lb_upstreams b = [0]" "lb_strategy b = LeastConnections"
    "w_heap (lc_world y) = replicate 2 (upstream_info_new 0 (test_upstream ''a'' 1))"
    using test_awaiting by blast
  let ?s = "\<lparr>ts_metrics = tcp_metrics_default, ts_pools = [''a'' \<mapsto> [pooled_connection_new 0 7]],
    ts_heap = w_heap (lc_world y), ts_balancer = b\<rparr>"
  have "relay_ready ?s" using y(3-5) by (simp add: relay_ready_def)
  from test_relay_run [OF this] obtain r s1 where run:
    "solo (tcp_task_step (\<lambda>_. 0) list_queue test_tcp_config) test_relay_exchange
      (Accepted, tcp_arrive (sy_state (no_tasks ?s :: pooled_connection list tcp_system))) (Streaming 0 r [], s1)"
    "ts_heap s1 = on_stats (\<lambda>st. snd (increment_connections st)) 0 (w_heap (lc_world y))" by auto
  let ?none = "no_tasks ?s :: pooled_connection list tcp_system"
  let ?z = "?none\<lparr>sy_state := s1, sy_tasks := sy_tasks ?none @ [(test_relay_exchange, Streaming 0 r [])]\<rparr>"
  have "tcp_reachable (\<lambda>_. 0) list_queue test_tcp_config (no_tasks ?s) ?z"
    unfolding tcp_reachable_def using run(1) by (rule solo_reachable)
  moreover have "ts_heap ?s = w_heap (lc_world y)" by simp
  moreover have "ts_balancer ?s = b" by simp
  ultimately have "lifecycle_reachable (\<lambda>_. 0) map_http_lib count_channel test_platform y
      (with_heap (ts_heap (sy_state ?z)) y)"
    by (intro lifecycle_abstracts_proxies [OF y(1,2), THEN conjunct1, rule_format] conjI)
  with y(1,5) run(2) show ?thesis
    by (intro exI [of _ y] exI [of _ "ts_heap s1"])
      (simp add: on_stats_nth increment_connections_def upstream_info_new_def upstream_stats_default_def)
qed

end
