(* ===== verification/Spec2Isabelle.thy ===== *)
theory Spec2Isabelle
  imports Unit_Tests Traffic
begin

text \<open>
  Harbr Router, a reverse proxy for HTTP, TCP and UDP (\<open>src/\<close>, Rust): a model of the whole crate as
  executable definitions, with the theorems that say what each part does.

  \<^bold>\<open>The program.\<close> \<open>main.rs\<close> reads a configuration (\<open>config.rs\<close>) and runs a router (\<open>router.rs\<close>). For
  every proxy instance the router builds a load balancer over the instance's upstreams
  (\<open>routing.rs\<close>), registers the upstreams in the metrics registry (\<open>metrics.rs\<close>) and lets the proxy
  manager (\<open>proxy.rs\<close>) start the implementation of the instance's type (\<open>proxy/http.rs\<close>,
  \<open>proxy/tcp.rs\<close>, \<open>proxy/udp.rs\<close>). For each request, connection or packet the implementation asks
  the balancer for an upstream, forwards, and records the outcome in the upstream's statistics and
  in its own metrics. Two HTTP servers (\<open>metrics.rs\<close>, \<open>server.rs\<close>) report what was recorded.

  \<^bold>\<open>The theories\<close>, in the order in which they import each other:
  \<^item> \<open>Prelude\<close>: the integer types of a 64-bit target as words, the result type of fallible code
    (\<open>Inl\<close> an error, \<open>Inr\<close> a value), the validation loops, the integer parser, the heap of shared
    objects, and the lemmas on lists, words and results every component uses.
  \<^item> \<open>Errors\<close> (\<open>error.rs\<close>): the error type, its constructors, predicates, text and conversions.
  \<^item> \<open>F64\<close>: binary64 arithmetic as exact rational arithmetic followed by rounding, with the
    monotonicity and error lemmas that the health score needs.
  \<^item> \<open>Net_Addr\<close>: \<open>SocketAddr\<close> of the standard library, its printer and its parser.
  \<^item> \<open>Config\<close> (\<open>config.rs\<close>): all structures, defaults, validation, loading.
  \<^item> \<open>Buffers\<close> (\<open>buffers.rs\<close>) and \<open>Affinity\<close> (\<open>affinity.rs\<close>): buffer capacities and CPU assignment.
  \<^item> \<open>Routing\<close>, \<open>Hash_Ring\<close>, \<open>Load_Balancer\<close>, \<open>Balancer_Fairness\<close> (\<open>routing.rs\<close>): the statistics
    and health of an upstream; the consistent-hash ring with the standard library's binary search;
    the balancer, its five strategies and a history of its operations (\<open>lb_exec\<close>); what the
    strategies achieve over several requests.
  \<^item> \<open>Proxy_Base\<close> (\<open>proxy.rs\<close>): metrics and health records, utility functions, and the locales
    \<open>proxy\<close> (the contract of the trait) and \<open>in_flight\<close> (a start and an end around each request).
  \<^item> \<open>Http_Proxy\<close>, \<open>Tcp_Proxy\<close>, \<open>Udp_Proxy\<close> (\<open>proxy/*.rs\<close>): the handlers with all they call. The TCP
    relay is a fold of \<open>relay_step\<close> over the reads and the partial writes of its two copy loops, in
    the order in which they complete, so that \<open>select!\<close> can drop a loop inside a \<open>write_all\<close>; the UDP
    tasks interleave in the step relation \<open>udp_step\<close>, a packet's task at its set-up and at its send.
  \<^item> \<open>Udp_Isolation\<close>: what the sessions of different UDP clients share (nothing), and what becomes of
    an expired session, for \<open>udp_step\<close>.
  \<^item> \<open>Task_System\<close>, \<open>Tcp_Concurrency\<close>, \<open>Http_Concurrency\<close>: any number of connection or request tasks
    over a shared state, interleaved at their suspension points; a TCP task also between the loads of
    the upstreams' counters in the scan of least connections. A task is a state machine whose
    runs in isolation are the handlers above (\<open>tcp_handler_is_a_run\<close>, \<open>http_handler_is_a_run\<close>).
  \<^item> \<open>Proxy_Manager\<close> (\<open>proxy.rs\<close>) and \<open>Proxy_Start\<close>: dispatch by proxy type; the service loops of the
    three proxies (\<open>start\<close> in \<open>proxy/*.rs\<close>) as functions of what has happened so far.
  \<^item> \<open>Metrics\<close> (\<open>metrics.rs\<close>), \<open>Health_Server\<close> (\<open>server.rs\<close>): the registry with its summary, health
    and pages, and the start and shutdown of the two servers.
  \<^item> \<open>Router_Main\<close>, \<open>Router_Lifecycle\<close> (\<open>router.rs\<close>): construction, the start of an instance, the
    periodic tasks, reload; the life of the router and of the servers beside it as the step
    relation \<open>lifecycle_step\<close>.
  \<^item> \<open>Traffic\<close>: the composition; the concurrent runs of the three proxies are runs of the lifecycle.
  \<^item> \<open>Program\<close> (\<open>main.rs\<close>): what \<open>main\<close> does with its arguments, its output and its exit status.
  \<^item> \<open>Unit_Tests\<close> (the \<open>tests\<close> module of every file): the crate's unit tests run on the model, each a
    definition that evaluates its assertions; the model passes all but three of them: two fail by the
    code's own behaviour, one panics where a server listens on port 80.

  \<^bold>\<open>Representation.\<close> An \<open>Arc<UpstreamInfo>\<close> is an index into the heap of upstreams (\<open>upstream_heap\<close>),
  so a statistic written by a proxy is seen by the balancer that shares the object, and the registry,
  which holds other objects, does not see it. A \<open>UdpSession\<close> is likewise a cell shared by the session
  map and its listener. Atomic counters are 64-bit words that wrap around. An operation that changes
  state returns the new state. A method that takes a lock for its whole body is one step; the UDP
  handler, which does not, is split where other tasks can come between, and so are the connections
  and requests of the other two proxies at every \<open>await\<close> at which they hold or use shared state. What
  a client, an upstream or the operating system does is an argument: the outcome of a connect, the
  bytes a peer sends and how many of them each read and write takes, the answer of an upstream, the
  clock.

  \<^bold>\<open>Panics.\<close> The model is of the release profile (\<open>Cargo.toml\<close>; the \<open>Dockerfile\<close> builds with it), where
  \<open>panic = "abort"\<close>: a panic in any task, of a server whose address is taken, of a ticker with a zero
  period or of a UDP session without a socket, ends the process (phase \<open>Panicked\<close> of the lifecycle).

  \<^bold>\<open>Parameters and their laws.\<close> Third-party code is an argument: the hash function of the ring (AHash;
  nothing is assumed), \<open>http_lib\<close> (the http crate's header map and URI parser; \<open>header_laws\<close>),
  \<open>dash_lib\<close> (DashMap; \<open>dash_laws\<close>: a lookup after an insertion or a removal), \<open>queue_lib\<close> (the lock-free
  queue of a connection pool; \<open>queue_laws\<close>), \<open>channel_lib\<close> (tokio's broadcast channel;
  \<open>channel_laws\<close>), \<open>hyper_server\<close> (hyper's server; \<open>graceful\<close>: with graceful shutdown it ends well only after the
  signal), the \<open>platform\<close> (binding, signal handlers), the deserialisers, the JSON writer, the
  \<open>Display\<close> of \<open>f64\<close>, the affinity calls, \<open>from_std\<close> (tokio; \<open>from_std_needs_runtime\<close>). Each
  law is what the documentation of that code promises, and a concrete instance satisfies it
  (\<open>map_http_lib\<close>, \<open>list_dash\<close>, \<open>list_queue\<close>, \<open>count_channel\<close>, \<open>stop_server\<close>).

  \<^bold>\<open>What the lemmas show.\<close>
  \<^item> Balancer: after any history of updates, health changes and selections, a selection returns an
    available configured upstream, or none when there is none or when health-aware scores are all
    zero; the exact shares of (weighted) round robin; the first minimum of the least connections; the
    ring refines \<open>ring_owner\<close>, an abstract successor function, so losing an upstream moves only
    its own keys; the health-aware strategy takes the best score and locks out an upstream whose
    first requests failed.
  \<^item> Proxies: every request, connection and session is accounted for, sequentially and in every
    interleaving; tasks do not touch each other's streams, UDP sessions are private to a client; least connections compares the relays in
    progress, each upstream's at the moment it is read; a session key sticks to its upstream; a relay delivers prefixes of what was sent and counts them but for the last, unfinished writes; header transformation; and the
    cases in which traffic is lost (half-close, expired sessions, a refusing upstream, a long datagram,
    a burst of connections, a stale pick, a client that disconnects).
  \<^item> Configuration: validation succeeds exactly for the configurations that satisfy a stated
    predicate, and its first error is the one reported; every failure of loading is a configuration
    error.
  \<^item> Statistics: the counters tell the history of the requests, the score lies in [0, 1], the system
    health is a function of the counts of the three states.
  \<^item> Router: from the start on, only the first instance is ever served, so the metrics page tells of
    no proxy; the tracked upstreams are not those that serve; a configuration can pass validation
    and still never run; a router without instances whose tasks cannot panic can always reach its end;
    a taken address of the metrics server ends the program. The lifecycle leaves
    the traffic of the awaited proxy open; the composition theorem says that this covers what the
    proxies do.

  \<^bold>\<open>Locales.\<close> \<open>selector\<close> (sound choice; interpreted on \<open>select_upstream\<close>), \<open>proxy\<close> (interpreted on the
  three implementations and the trait's defaults), \<open>in_flight\<close> (interpreted on the HTTP requests and
  the TCP connections), \<open>tasks\<close> and its extension \<open>gauge\<close> (a step of one task keeps a measure of the
  shared state and the tasks; interpreted on the TCP and HTTP tasks, once for every counter),
  \<open>service\<close> (the contract of \<open>start\<close>; interpreted on the three service loops).

  \<^bold>\<open>Bounds.\<close> No definition uses fuel. The only loop that may not end, the search of a pooled connection
  (\<open>pop_valid\<close>), is a \<open>partial_function (option)\<close>, and it is proved to return. Hypotheses such as
  \<open>length es < 2 ^ 64\<close> exclude the wrap-around of a counter; the bounds \<open>2 ^ 52\<close> requests and 1024
  upstreams of the health-aware theorems keep the rounding of the running sums below the gap between
  the random value and the first score.

  \<^bold>\<open>Not modelled\<close>, and why:
  \<^item> the bodies of the parameters above, hyper's connection handling and TLS, and the tokio
    scheduler: third-party code;
  \<^item> \<open>clap\<close>'s parsing of the command line and the set-up of the log subscriber: third-party; of the
    log lines, only those of \<open>main\<close> and of the monitoring task, which are their only effect;
  \<^item> a race inside one update of the average response time (a compare-and-swap would be needed to
    see it; an update is one step here), and the receivers that a broadcast channel loses when
    their task ends: no modelled operation depends on them;
  \<^item> the panic of \<open>HttpProxy::new\<close> (\<open>with_native_roots\<close>) without a readable certificate store;
  \<^item> the loads inside one pick of the other strategies: the health-aware scores are read in one step;
  \<^item> packets of other clients in the same shard of a blocked DashMap, since the shard of a key
    is internal to it;
  \<^item> \<open>test_udp_session\<close>, the one unit test that asserts nothing.
\<close>

end
